(* ===== verification/Prelude.thy ===== *)
theory Prelude
  imports Main "HOL-Library.Char_ord" "HOL-Library.List_Lexorder" "HOL-Library.Sublist"
    "HOL-Library.Multiset"
begin

text \<open>
  Shared vocabulary of the development: the result type of fallible Go functions, the
  theorem collections the component proofs simplify with, generic facts on lists, and
  the stable sorting routine behind \<open>sort.SliceStable\<close> with its contract as a locale.
\<close>

section \<open>Collections\<close>

named_theorems go_simps \<open>definitions of small Go library functions, for evaluation\<close>
named_theorems path_simps \<open>facts on slash-separated paths and their segments\<close>
named_theorems pol_simps \<open>definitions of the policy predicates\<close>

section \<open>Lists\<close>

text \<open>Consecutive pages of \<open>n\<close> elements, from page \<open>0\<close> on, cover a list in order.\<close>

lemma concat_pages:
  "concat (map (\<lambda>k. take n (drop (k * n) xs)) [0..<m]) = take (m * n) xs"
proof (induction m)
  case 0
  then show ?case by simp
next
  case (Suc m)
  have "take (m * n) xs @ take n (drop (m * n) xs) = take (m * n + n) xs"
    by (simp add: take_add)
  with Suc show ?case by (simp add: add.commute)
qed

section \<open>Stable sorting by a strict comparison\<close>

text \<open>
  Go's \<open>sort.SliceStable(xs, less)\<close> permutes \<open>xs\<close> so that no later element is
  \<open>less\<close> than an earlier one and elements neither of which is less than the other keep
  their order. \<open>sort_by\<close> is the insertion sort with that result.
\<close>

primrec insert_by :: "('a \<Rightarrow> 'a \<Rightarrow> bool) \<Rightarrow> 'a \<Rightarrow> 'a list \<Rightarrow> 'a list" where
  "insert_by lt x [] = [x]"
| "insert_by lt x (y # ys) =
     (if lt y x then y # insert_by lt x ys else x # y # ys)"

primrec sort_by :: "('a \<Rightarrow> 'a \<Rightarrow> bool) \<Rightarrow> 'a list \<Rightarrow> 'a list" where
  "sort_by lt [] = []"
| "sort_by lt (x # xs) = insert_by lt x (sort_by lt xs)"

lemma mset_insert_by [simp]: "mset (insert_by lt x xs) = add_mset x (mset xs)"
  by (induction xs) auto

lemma mset_sort_by [simp]: "mset (sort_by lt xs) = mset xs"
  by (induction xs) auto

lemma set_sort_by [simp]: "set (sort_by lt xs) = set xs"
  by (metis mset_sort_by set_mset_mset)

lemma length_sort_by [simp]: "length (sort_by lt xs) = length xs"
  by (metis mset_sort_by size_mset)

lemma set_insert_by [simp]: "set (insert_by lt x xs) = insert x (set xs)"
  by (induction xs) auto

lemma distinct_sort_by [simp]: "distinct (sort_by lt xs) = distinct xs"
  by (metis mset_sort_by mset_eq_imp_distinct_iff)

lemma map_sort_by:
  assumes "\<And>x y. lt (f x) (f y) = lt' x y"
  shows "map f (sort_by lt' xs) = sort_by lt (map f xs)"
proof -
  have "map f (insert_by lt' x ys) = insert_by lt (f x) (map f ys)" for x ys
    by (induction ys) (auto simp: assms)
  then show ?thesis by (induction xs) auto
qed

text \<open>
  The contract of a comparison passed to a sort: a strict weak order. Every comparison the
  program sorts by is shown to be one, and inherits the results below.
\<close>

locale weak_order =
  fixes lt :: "'a \<Rightarrow> 'a \<Rightarrow> bool"
  assumes asym_lt: "lt x y \<Longrightarrow> \<not> lt y x"
    and trans_lt: "lt x y \<Longrightarrow> lt y z \<Longrightarrow> lt x z"
    and neg_trans: "\<not> lt x y \<Longrightarrow> \<not> lt y z \<Longrightarrow> \<not> lt x z"
begin

lemma sorted_insert_by:
  assumes "sorted_wrt (\<lambda>x y. \<not> lt y x) xs"
  shows "sorted_wrt (\<lambda>x y. \<not> lt y x) (insert_by lt a xs)"
  using assms
proof (induction xs)
  case Nil
  then show ?case by simp
next
  case (Cons y ys)
  show ?case
  proof (cases "lt y a")
    case True
    with Cons show ?thesis by (auto dest: asym_lt)
  next
    case False
    with Cons show ?thesis by simp (meson neg_trans)
  qed
qed

lemma sorted_sort_by: "sorted_wrt (\<lambda>x y. \<not> lt y x) (sort_by lt xs)"
  by (induction xs) (auto intro: sorted_insert_by)

lemma insert_by_front:
  assumes "\<And>y. y \<in> set ys \<Longrightarrow> \<not> lt y a"
  shows "insert_by lt a ys = a # ys"
  using assms by (cases ys) auto

lemma sort_by_sorted:
  assumes "sorted_wrt (\<lambda>x y. \<not> lt y x) xs"
  shows "sort_by lt xs = xs"
  using assms by (induction xs) (auto simp: insert_by_front)

lemma sort_by_idem: "sort_by lt (sort_by lt xs) = sort_by lt xs"
  by (rule sort_by_sorted [OF sorted_sort_by])

lemma filter_insert_by:
  assumes "sorted_wrt (\<lambda>x y. \<not> lt y x) ys"
  shows "filter (\<lambda>y. \<not> lt y k \<and> \<not> lt k y) (insert_by lt a ys) =
         filter (\<lambda>y. \<not> lt y k \<and> \<not> lt k y) (a # ys)"
  using assms
proof (induction ys)
  case Nil
  then show ?case by simp
next
  case (Cons y ys)
  show ?case
  proof (cases "lt y a \<and> \<not> lt y k \<and> \<not> lt k y")
    case True
    then have "\<not> (\<not> lt a k \<and> \<not> lt k a)"
      using neg_trans by blast
    with Cons True show ?thesis by auto
  next
    case False
    with Cons show ?thesis by auto
  qed
qed

text \<open>Elements that compare equal keep the order they came in.\<close>

lemma sort_by_stable:
  "filter (\<lambda>y. \<not> lt y k \<and> \<not> lt k y) (sort_by lt xs) =
   filter (\<lambda>y. \<not> lt y k \<and> \<not> lt k y) xs"
  by (induction xs) (simp_all add: filter_insert_by [OF sorted_sort_by])

text \<open>The head of the sorted list is a least element.\<close>

lemma sort_by_head:
  assumes "sort_by lt xs = y # ys" and "x \<in> set xs"
  shows "\<not> lt x y"
proof -
  have "x \<in> set (y # ys)" using assms by (metis set_sort_by)
  moreover have "sorted_wrt (\<lambda>x y. \<not> lt y x) (y # ys)"
    using assms(1) sorted_sort_by by metis
  ultimately show ?thesis using asym_lt by auto
qed

end

text \<open>Comparing by a key in a linear order, the most common case.\<close>

lemma weak_order_key:
  fixes f :: "'a \<Rightarrow> 'b :: linorder"
  shows "weak_order (\<lambda>x y. f x < f y)"
  by unfold_locales auto

end
