(* ===== verification/GoStrings.thy ===== *)
theory GoStrings
  imports Prelude
begin

text \<open>
  Go strings and the parts of the packages \<open>unicode/utf8\<close>, \<open>unicode\<close>, \<open>strings\<close> and
  \<open>path\<close> the program calls. A Go string is a sequence of bytes, and so is a HOL
  \<open>string\<close>: \<open>len\<close> is \<open>length\<close> and \<open><\<close> is the byte-wise lexicographic order. A
  \<open>range\<close> loop or a \<open>strings.IndexFunc\<close> sees the runes that UTF-8 decoding yields,
  with U+FFFD for every byte that starts no valid sequence.
\<close>

section \<open>Runes\<close>

definition byte :: "char \<Rightarrow> nat" where
  "byte c = of_char c"

definition byte_in :: "nat \<Rightarrow> nat \<Rightarrow> char \<Rightarrow> bool" where
  "byte_in lo hi c \<longleftrightarrow> lo \<le> byte c \<and> byte c \<le> hi"

definition rune_error :: nat where
  "rune_error = 0xFFFD"

text \<open>\<open>utf8.DecodeRuneInString\<close>: the first rune and its width in bytes.\<close>

fun decode_rune :: "string \<Rightarrow> nat \<times> nat" where
  "decode_rune [] = (rune_error, 0)"
| "decode_rune (c # cs) =
     (let b = byte c in
      if b < 0x80 then (b, 1)
      else if b < 0xC2 then (rune_error, 1)
      else if b < 0xE0 then
        (case cs of
           c1 # _ \<Rightarrow>
             if byte_in 0x80 0xBF c1 then ((b - 0xC0) * 64 + (byte c1 - 0x80), 2)
             else (rune_error, 1)
         | _ \<Rightarrow> (rune_error, 1))
      else if b < 0xF0 then
        (case cs of
           c1 # c2 # _ \<Rightarrow>
             if byte_in (if b = 0xE0 then 0xA0 else 0x80) (if b = 0xED then 0x9F else 0xBF) c1
                \<and> byte_in 0x80 0xBF c2
             then ((b - 0xE0) * 4096 + (byte c1 - 0x80) * 64 + (byte c2 - 0x80), 3)
             else (rune_error, 1)
         | _ \<Rightarrow> (rune_error, 1))
      else if b < 0xF5 then
        (case cs of
           c1 # c2 # c3 # _ \<Rightarrow>
             if byte_in (if b = 0xF0 then 0x90 else 0x80) (if b = 0xF4 then 0x8F else 0xBF) c1
                \<and> byte_in 0x80 0xBF c2 \<and> byte_in 0x80 0xBF c3
             then ((b - 0xF0) * 262144 + (byte c1 - 0x80) * 4096 + (byte c2 - 0x80) * 64
                   + (byte c3 - 0x80), 4)
             else (rune_error, 1)
         | _ \<Rightarrow> (rune_error, 1))
      else (rune_error, 1))"

lemma decode_rune_width:
  "s \<noteq> [] \<Longrightarrow> 0 < snd (decode_rune s) \<and> snd (decode_rune s) \<le> length s"
  by (cases s) (auto simp: Let_def split: list.splits)

text \<open>
  A string as a range loop reads it: every rune with the bytes it came from.
\<close>

function rune_chunks :: "string \<Rightarrow> (nat \<times> string) list" where
  "rune_chunks s =
     (if s = [] then []
      else let (r, w) = decode_rune s in (r, take w s) # rune_chunks (drop w s))"
  by pat_completeness auto
termination
proof (relation "measure length")
  show "wf (measure length)" by simp
next
  fix s :: string and x r w
  assume "s \<noteq> []" and "x = decode_rune s" and "(r, w) = x"
  then have "0 < w" using decode_rune_width [of s] by (metis snd_conv)
  with \<open>s \<noteq> []\<close> show "(drop w s, s) \<in> measure length" by simp
qed

declare rune_chunks.simps [simp del]

definition runes :: "string \<Rightarrow> nat list" where
  "runes s = map fst (rune_chunks s)"

lemma rune_chunks_Nil [simp]: "rune_chunks [] = []"
  by (simp add: rune_chunks.simps)

lemma rune_chunks_ascii:
  "byte c < 0x80 \<Longrightarrow> rune_chunks (c # cs) = (byte c, [c]) # rune_chunks cs"
  by (simp add: rune_chunks.simps [of "c # cs"] Let_def)

text \<open>Decoding loses no byte.\<close>

lemma concat_rune_chunks: "concat (map snd (rune_chunks s)) = s"
proof (induction s rule: rune_chunks.induct)
  case (1 s)
  show ?case
  proof (cases "s = []")
    case False
    obtain r w where rw: "decode_rune s = (r, w)" by (cases "decode_rune s")
    from 1 False rw have "concat (map snd (rune_chunks (drop w s))) = drop w s" by simp
    with False rw show ?thesis by (simp add: rune_chunks.simps [of s])
  qed simp
qed

section \<open>Character classes\<close>

text \<open>\<open>unicode.IsControl\<close>: the category Cc.\<close>

definition is_control :: "nat \<Rightarrow> bool" where
  "is_control r \<longleftrightarrow> r < 0x20 \<or> (0x7F \<le> r \<and> r < 0xA0)"

text \<open>\<open>unicode.IsSpace\<close>: the property White\_Space.\<close>

definition is_space :: "nat \<Rightarrow> bool" where
  "is_space r \<longleftrightarrow> r \<in> {0x09, 0x0A, 0x0B, 0x0C, 0x0D, 0x20, 0x85, 0xA0, 0x1680,
      0x2000, 0x2001, 0x2002, 0x2003, 0x2004, 0x2005, 0x2006, 0x2007, 0x2008, 0x2009,
      0x200A, 0x2028, 0x2029, 0x202F, 0x205F, 0x3000}"

text \<open>\<open>strings.IndexFunc(s, unicode.IsControl) >= 0\<close>.\<close>

definition has_control :: "string \<Rightarrow> bool" where
  "has_control s \<longleftrightarrow> list_ex is_control (runes s)"

lemma has_control_Nil [simp]: "\<not> has_control []"
  by (simp add: has_control_def runes_def)

lemma has_control_ascii:
  "byte c < 0x80 \<Longrightarrow> has_control (c # cs) \<longleftrightarrow> is_control (byte c) \<or> has_control cs"
  by (simp add: has_control_def runes_def rune_chunks_ascii)

text \<open>Any byte below 0x20 is a control rune, wherever it stands.\<close>

lemma decode_rune_multi:
  assumes "decode_rune s = (r, w)" and "1 < w" and "c \<in> set (take w s)"
  shows "0x80 \<le> byte c"
proof -
  from assms obtain d ds where s: "s = d # ds" by (cases s) auto
  consider "byte d < 0xC2 \<or> 0xF5 \<le> byte d"
    | "0xC2 \<le> byte d" "byte d < 0xE0"
    | "0xE0 \<le> byte d" "byte d < 0xF0"
    | "0xF0 \<le> byte d" "byte d < 0xF5" by linarith
  then show ?thesis
  proof cases
    case 1
    with assms s show ?thesis by (auto simp: Let_def split: if_splits)
  next
    case 2
    with assms s show ?thesis
      by (cases ds) (auto simp: Let_def byte_in_def split: if_splits)
  next
    case 3
    with assms s show ?thesis
      by (cases ds; cases "tl ds") (simp_all add: Let_def byte_in_def split: if_splits, auto)
  next
    case 4
    with assms s show ?thesis
      by (cases ds; cases "tl ds"; cases "tl (tl ds)")
        (simp_all add: Let_def byte_in_def split: if_splits, auto)
  qed
qed

lemma has_control_byte:
  "c \<in> set s \<Longrightarrow> byte c < 0x20 \<Longrightarrow> has_control s"
proof (induction s rule: rune_chunks.induct)
  case (1 s)
  obtain r w where rw: "decode_rune s = (r, w)" by (cases "decode_rune s")
  from "1.prems" have ne: "s \<noteq> []" by auto
  then obtain d ds where s: "s = d # ds" by (cases s) auto
  have w: "0 < w" using decode_rune_width [OF ne] rw by simp
  have chunks: "runes s = r # runes (drop w s)"
    using ne rw by (simp add: runes_def rune_chunks.simps [of s])
  from "1.prems"(1) have "c \<in> set (take w s) \<or> c \<in> set (drop w s)"
    by (metis Un_iff append_take_drop_id set_append)
  then show ?case
  proof
    assume c: "c \<in> set (take w s)"
    have "w = 1" using decode_rune_multi [OF rw _ c] "1.prems"(2) w by linarith
    with c s rw "1.prems"(2) have "r = byte c" by (auto simp: Let_def split: if_splits)
    with "1.prems"(2) show ?thesis
      by (simp add: has_control_def chunks is_control_def)
  next
    assume c: "c \<in> set (drop w s)"
    from "1.IH" [OF ne rw [symmetric] refl c "1.prems"(2)] show ?thesis
      by (simp add: has_control_def chunks)
  qed
qed

text \<open>
  An ASCII byte never continues a multi-byte sequence, so decoding splits at it.
\<close>

lemma byte_in_not_ascii: "byte c < 0x80 \<Longrightarrow> 0x80 \<le> lo \<Longrightarrow> \<not> byte_in lo hi c"
  by (simp add: byte_in_def)

lemma decode_rune_append:
  assumes "a \<noteq> []" and "byte c < 0x80"
  shows "decode_rune (a @ c # b) = decode_rune a"
proof -
  from assms(1) obtain d ds where a: "a = d # ds" by (cases a) auto
  have no: "\<not> byte_in lo hi c" if "0x80 \<le> lo" for lo hi
    using byte_in_not_ascii [OF assms(2) that] .
  show ?thesis
  proof (cases ds)
    case Nil
    then show ?thesis by (simp add: a Let_def no split: list.splits)
  next
    case ds: (Cons d1 ds1)
    show ?thesis
    proof (cases ds1)
      case Nil
      then show ?thesis by (simp add: a ds Let_def no split: list.splits)
    next
      case ds1: (Cons d2 ds2)
      show ?thesis by (cases ds2) (simp_all add: a ds ds1 Let_def no split: list.splits)
    qed
  qed
qed

lemma rune_chunks_append:
  assumes "byte c < 0x80"
  shows "rune_chunks (a @ c # b) = rune_chunks a @ (byte c, [c]) # rune_chunks b"
proof (induction a rule: rune_chunks.induct)
  case (1 a)
  show ?case
  proof (cases "a = []")
    case True
    then show ?thesis by (simp add: rune_chunks_ascii assms)
  next
    case False
    obtain r w where rw: "decode_rune a = (r, w)" by (cases "decode_rune a")
    have w: "w \<le> length a" using decode_rune_width [OF False] rw by simp
    from "1.IH" [OF False rw [symmetric] refl]
    show ?thesis
      using False rw w decode_rune_append [OF False assms, of b]
      by (simp add: rune_chunks.simps [of a] rune_chunks.simps [of "a @ c # b"])
  qed
qed

lemma has_control_append:
  "byte c < 0x80 \<Longrightarrow>
   has_control (a @ c # b) \<longleftrightarrow> has_control a \<or> is_control (byte c) \<or> has_control b"
  by (simp add: has_control_def runes_def rune_chunks_append)

section \<open>Trimming, splitting, joining\<close>

text \<open>\<open>strings.TrimSpace\<close> and \<open>bytes.TrimSpace\<close>.\<close>

definition trim_space :: "string \<Rightarrow> string" where
  "trim_space s =
     concat (map snd (rev (dropWhile (is_space \<circ> fst)
       (rev (dropWhile (is_space \<circ> fst) (rune_chunks s))))))"

text \<open>\<open>strings.Split\<close> at a single-byte separator, and \<open>strings.Join\<close>.\<close>

fun split_on :: "char \<Rightarrow> string \<Rightarrow> string list" where
  "split_on c [] = [[]]"
| "split_on c (x # xs) =
     (if x = c then [] # split_on c xs
      else case split_on c xs of [] \<Rightarrow> [[x]] | y # ys \<Rightarrow> (x # y) # ys)"

fun join :: "string \<Rightarrow> string list \<Rightarrow> string" where
  "join sep [] = []"
| "join sep [x] = x"
| "join sep (x # y # ys) = x @ sep @ join sep (y # ys)"

lemma split_on_ne [simp]: "split_on c s \<noteq> []"
  by (induction s) (auto split: list.splits)

lemma join_Cons: "xs \<noteq> [] \<Longrightarrow> join sep (x # xs) = x @ sep @ join sep xs"
  by (cases xs) auto

lemma join_prepend: "join sep ((x # y) # ys) = x # join sep (y # ys)"
  by (cases ys) auto

lemma join_split_on: "join [c] (split_on c s) = s"
  by (induction s) (auto simp: join_Cons join_prepend split: list.splits)

lemma split_on_no_sep: "seg \<in> set (split_on c s) \<Longrightarrow> c \<notin> set seg"
  by (induction s arbitrary: seg) (auto split: list.splits if_splits)

lemma split_on_append:
  "c \<notin> set a \<Longrightarrow> split_on c (a @ c # s) = a # split_on c s"
  by (induction a) auto

lemma split_on_single: "c \<notin> set a \<Longrightarrow> split_on c a = [a]"
  by (induction a) auto

lemma split_on_subset: "seg \<in> set (split_on c s) \<Longrightarrow> set seg \<subseteq> set s"
proof (induction s arbitrary: seg)
  case Nil
  then show ?case by simp
next
  case (Cons x xs)
  then show ?case by (cases "split_on c xs") (auto split: if_splits, blast+)
qed

lemma has_control_split:
  assumes "byte c < 0x80" and "\<not> has_control s" and "seg \<in> set (split_on c s)"
  shows "\<not> has_control seg"
  using assms(2,3)
proof (induction "length s" arbitrary: s rule: less_induct)
  case less
  show ?case
  proof (cases "c \<in> set s")
    case True
    then obtain a b where s: "s = a @ c # b" and a: "c \<notin> set a" by (meson split_list_first)
    with less.prems assms(1) have nc: "\<not> has_control a" "\<not> has_control b"
      by (simp_all add: has_control_append)
    have "length b < length s" by (simp add: s)
    then have "seg \<in> set (split_on c b) \<Longrightarrow> \<not> has_control seg"
      using less.hyps nc(2) by blast
    with less.prems(2) nc(1) s a show ?thesis by (auto simp: split_on_append)
  next
    case False
    with less.prems show ?thesis by (simp add: split_on_single)
  qed
qed

lemma has_control_join:
  assumes "byte c < 0x80" and "\<not> is_control (byte c)"
    and "\<And>x. x \<in> set xs \<Longrightarrow> \<not> has_control x"
  shows "\<not> has_control (join [c] xs)"
  using assms(3)
proof (induction xs)
  case Nil
  then show ?case by simp
next
  case (Cons x xs)
  then show ?case
    by (cases "xs = []") (simp_all add: join_Cons has_control_append assms)
qed

text \<open>\<open>strings.Cut\<close> at a single-byte separator: \<open>None\<close> when it does not occur.\<close>

fun cut_at :: "char \<Rightarrow> string \<Rightarrow> (string \<times> string) option" where
  "cut_at c [] = None"
| "cut_at c (x # xs) =
     (if x = c then Some ([], xs)
      else map_option (\<lambda>(a, b). (x # a, b)) (cut_at c xs))"

lemma cut_at_Some: "cut_at c s = Some (a, b) \<Longrightarrow> s = a @ c # b \<and> c \<notin> set a"
  by (induction s arbitrary: a) (auto split: if_splits)

lemma cut_at_append: "c \<notin> set a \<Longrightarrow> cut_at c (a @ c # b) = Some (a, b)"
  by (induction a) auto

text \<open>ASCII case folding, enough for \<open>strings.EqualFold\<close> on hexadecimal ids.\<close>

definition lower_char :: "char \<Rightarrow> char" where
  "lower_char c = (if byte_in 0x41 0x5A c then char_of (byte c + 0x20) else c)"

definition to_lower :: "string \<Rightarrow> string" where
  "to_lower s = map lower_char s"

definition equal_fold :: "string \<Rightarrow> string \<Rightarrow> bool" where
  "equal_fold s t \<longleftrightarrow> to_lower s = to_lower t"

lemma equal_fold_length: "equal_fold s t \<Longrightarrow> length s = length t"
  by (metis equal_fold_def length_map to_lower_def)

lemma equal_fold_equiv:
  "equal_fold s s" "equal_fold s t \<Longrightarrow> equal_fold t s"
  "equal_fold s t \<Longrightarrow> equal_fold t u \<Longrightarrow> equal_fold s u"
  by (simp_all add: equal_fold_def)

end
