(* ===== verification/GoPath.thy ===== *)
theory GoPath
  imports GoStrings
begin

text \<open>
  Go's package \<open>path\<close> (\<open>Clean\<close> and \<open>Base\<close>) and the reading of a canonical
  absolute path as the list of its segments. Containment of paths is decided by the
  program on strings; \<open>path_of\<close> is what lets the proofs speak of lists instead.
\<close>

section \<open>Clean and Base\<close>

fun clean_segs :: "bool \<Rightarrow> string list \<Rightarrow> string list \<Rightarrow> string list" where
  "clean_segs rooted st [] = rev st"
| "clean_segs rooted st (seg # segs) =
     (if seg = [] \<or> seg = ''.'' then clean_segs rooted st segs
      else if seg = ''..'' then
        (case st of
           [] \<Rightarrow> clean_segs rooted (if rooted then [] else [''..'']) segs
         | t # ts \<Rightarrow> clean_segs rooted (if t = ''..'' then ''..'' # st else ts) segs)
      else clean_segs rooted (seg # st) segs)"

definition path_clean :: "string \<Rightarrow> string" where
  "path_clean p =
     (let rooted = prefix ''/'' p;
          segs = clean_segs rooted [] (split_on CHR ''/'' p)
      in if rooted then CHR ''/'' # join ''/'' segs
         else if segs = [] then ''.'' else join ''/'' segs)"

definition path_base :: "string \<Rightarrow> string" where
  "path_base p =
     (if p = [] then ''.''
      else let q = rev (dropWhile (\<lambda>c. c = CHR ''/'') (rev p));
               b = last (split_on CHR ''/'' q)
           in if b = [] then ''/'' else b)"

section \<open>Paths as segment lists\<close>

definition good_seg :: "string \<Rightarrow> bool" where
  "good_seg seg \<longleftrightarrow> seg \<noteq> [] \<and> seg \<noteq> ''.'' \<and> seg \<noteq> ''..'' \<and> CHR ''/'' \<notin> set seg"

definition path_of :: "string list \<Rightarrow> string" where
  "path_of segs = CHR ''/'' # join ''/'' segs"

definition segs_of :: "string \<Rightarrow> string list" where
  "segs_of p = filter (\<lambda>seg. seg \<noteq> []) (split_on CHR ''/'' p)"

text \<open>Canonical absolute paths: what \<open>Clean\<close> returns for a rooted path.\<close>

definition canonical :: "string \<Rightarrow> bool" where
  "canonical p \<longleftrightarrow> list_all good_seg (segs_of p) \<and> p = path_of (segs_of p)"

lemma split_on_append2: "split_on c (a @ c # b) = split_on c a @ split_on c b"
  by (induction a) (auto split: list.splits)

lemma split_join:
  assumes "xs \<noteq> []" and "\<And>x. x \<in> set xs \<Longrightarrow> c \<notin> set x"
  shows "split_on c (join [c] xs) = xs"
  using assms
proof (induction xs)
  case Nil
  then show ?case by simp
next
  case (Cons x xs)
  show ?case
  proof (cases "xs = []")
    case True
    with Cons.prems show ?thesis by (simp add: split_on_single)
  next
    case False
    with Cons show ?thesis by (simp add: join_Cons split_on_append)
  qed
qed

lemma split_path_of:
  assumes "list_all good_seg xs"
  shows "split_on CHR ''/'' (path_of xs) = [] # (if xs = [] then [[]] else xs)"
  using assms split_join [of xs "CHR ''/''"]
  by (auto simp: path_of_def good_seg_def list_all_iff)

lemma segs_of_path_of [path_simps]:
  assumes "list_all good_seg xs"
  shows "segs_of (path_of xs) = xs"
proof -
  have "filter (\<lambda>seg. seg \<noteq> []) xs = xs"
    using assms by (induction xs) (auto simp: good_seg_def)
  then show ?thesis by (simp add: segs_of_def split_path_of [OF assms])
qed

lemma canonical_iff: "canonical p \<longleftrightarrow> (\<exists>xs. list_all good_seg xs \<and> p = path_of xs)"
  using canonical_def segs_of_path_of by auto

lemma canonical_path_of [path_simps]: "list_all good_seg xs \<Longrightarrow> canonical (path_of xs)"
  by (auto simp: canonical_iff)

lemma canonicalE:
  assumes "canonical p"
  obtains xs where "list_all good_seg xs" and "p = path_of xs"
  using assms by (auto simp: canonical_iff)

lemma path_of_inject:
  "list_all good_seg xs \<Longrightarrow> list_all good_seg ys \<Longrightarrow> path_of xs = path_of ys \<longleftrightarrow> xs = ys"
  by (metis segs_of_path_of)

lemma path_of_append:
  "ys \<noteq> [] \<Longrightarrow> zs \<noteq> [] \<Longrightarrow> path_of (ys @ zs) = path_of ys @ path_of zs"
proof (induction ys)
  case Nil
  then show ?case by simp
next
  case (Cons y ys)
  then show ?case
    by (cases "ys = []") (auto simp: path_of_def join_Cons)
qed

lemma prefix_path_of:
  assumes "list_all good_seg xs" and "list_all good_seg ys" and "ys \<noteq> []"
  shows "prefix (path_of ys @ ''/'') (path_of xs) \<longleftrightarrow> strict_prefix ys xs"
proof
  assume "prefix (path_of ys @ ''/'') (path_of xs)"
  then obtain r where r: "path_of xs = path_of ys @ CHR ''/'' # r"
    by (auto simp: prefix_def)
  have "split_on CHR ''/'' (path_of xs) = split_on CHR ''/'' (path_of ys) @ split_on CHR ''/'' r"
    by (simp add: r split_on_append2)
  then have eq: "(if xs = [] then [[]] else xs) = ys @ split_on CHR ''/'' r"
    using assms by (simp add: split_path_of)
  have "xs \<noteq> []"
  proof
    assume "xs = []"
    with eq have "[[]] = ys @ split_on CHR ''/'' r" by simp
    then have "[] \<in> set ys" using assms(3) by (metis append_eq_Cons_conv list.set_intros(1))
    with assms(2) show False by (auto simp: list_all_iff good_seg_def)
  qed
  with eq show "strict_prefix ys xs"
    by (metis append_self_conv prefix_def split_on_ne strict_prefix_def)
next
  assume "strict_prefix ys xs"
  then obtain zs where "xs = ys @ zs" "zs \<noteq> []" by (auto simp: strict_prefix_def prefix_def)
  with assms(3) have "path_of xs = path_of ys @ path_of zs" by (simp add: path_of_append)
  then show "prefix (path_of ys @ ''/'') (path_of xs)" by (simp add: path_of_def)
qed

section \<open>Clean yields canonical paths\<close>

lemma clean_segs_good:
  assumes "list_all good_seg st" and "\<And>seg. seg \<in> set segs \<Longrightarrow> CHR ''/'' \<notin> set seg"
  shows "list_all good_seg (clean_segs True st segs)"
  using assms
proof (induction segs arbitrary: st)
  case Nil
  then show ?case by (simp add: list_all_iff)
next
  case (Cons seg segs)
  then show ?case by (cases st) (auto simp: good_seg_def)
qed

lemma clean_segs_id:
  assumes "list_all good_seg segs"
  shows "clean_segs rooted st segs = rev st @ segs"
  using assms by (induction segs arbitrary: st) (auto simp: good_seg_def)

lemma path_clean_rooted:
  "prefix ''/'' p \<Longrightarrow> path_clean p = path_of (clean_segs True [] (split_on CHR ''/'' p))"
  by (simp add: path_clean_def path_of_def)

lemma path_clean_canonical: "prefix ''/'' p \<Longrightarrow> canonical (path_clean p)"
  by (auto simp: path_clean_rooted intro!: canonical_path_of clean_segs_good
      dest: split_on_no_sep)

lemma path_clean_id: "canonical p \<Longrightarrow> path_clean p = p"
proof (erule canonicalE)
  fix xs
  assume xs: "list_all good_seg xs" and p: "p = path_of xs"
  have "clean_segs True [] (split_on CHR ''/'' p) = xs"
    using xs by (simp add: p split_path_of clean_segs_id)
  moreover have "prefix ''/'' p" by (simp add: p path_of_def)
  ultimately show "path_clean p = p" by (simp add: path_clean_rooted p)
qed

lemma canonical_rooted: "canonical p \<Longrightarrow> prefix ''/'' p"
  by (auto elim: canonicalE simp: path_of_def)

lemma canonical_ne: "canonical p \<Longrightarrow> p \<noteq> []"
  using canonical_rooted by fastforce

lemma canonical_no_double_slash: "canonical p \<Longrightarrow> \<not> prefix ''//'' p"
proof (erule canonicalE)
  fix xs
  assume xs: "list_all good_seg xs" and p: "p = path_of xs"
  show "\<not> prefix ''//'' p"
  proof (cases xs)
    case Nil
    then show ?thesis by (simp add: p path_of_def)
  next
    case (Cons x zs)
    with xs have "x \<noteq> []" "CHR ''/'' \<notin> set x" by (simp_all add: good_seg_def)
    then obtain d ds where "x = d # ds" "d \<noteq> CHR ''/''" by (cases x) auto
    with Cons show ?thesis by (cases zs) (simp_all add: p path_of_def)
  qed
qed

lemma canonical_no_dotdot:
  assumes "canonical p" shows "''..'' \<notin> set (split_on CHR ''/'' p)"
  using assms
  by (auto elim!: canonicalE simp: split_path_of list_all_iff good_seg_def split: if_splits)

end
