(* ===== verification/AppErr.thy ===== *)
theory AppErr
  imports GoStrings
begin

text \<open>
  The package \<open>internal/errors\<close>: structured errors with a stable code. A Go error is
  either one of these or a plain error (\<open>fmt.Errorf\<close> without a wrapped error), and a
  fallible function returns \<open>Inl\<close> of an error or \<open>Inr\<close> of its result.
\<close>

datatype code =
    InvalidArgument
  | RepositoryNotFound
  | SnapshotNotFound
  | AmbiguousSnapshot
  | NotAllowed
  | ResticNotFound
  | UnsupportedResticVer
  | UnsupportedBackend
  | AuthenticationFailed
  | RepositoryLocked
  | ResourceBusy
  | Timeout
  | Cancelled
  | OutputLimitExceeded
  | ResponseLimitExceeded
  | ProtocolError
  | InternalError
  | ConfigError
  | RepositoryUnavailable
  | CursorInvalid
  | StaleSelection

fun code_string :: "code \<Rightarrow> string" where
  "code_string InvalidArgument = ''invalid_argument''"
| "code_string RepositoryNotFound = ''repository_not_found''"
| "code_string SnapshotNotFound = ''snapshot_not_found''"
| "code_string AmbiguousSnapshot = ''ambiguous_snapshot''"
| "code_string NotAllowed = ''not_allowed''"
| "code_string ResticNotFound = ''restic_not_found''"
| "code_string UnsupportedResticVer = ''unsupported_restic_version''"
| "code_string UnsupportedBackend = ''unsupported_backend''"
| "code_string AuthenticationFailed = ''authentication_failed''"
| "code_string RepositoryLocked = ''repository_locked''"
| "code_string ResourceBusy = ''resource_busy''"
| "code_string Timeout = ''timeout''"
| "code_string Cancelled = ''cancelled''"
| "code_string OutputLimitExceeded = ''output_limit_exceeded''"
| "code_string ResponseLimitExceeded = ''response_limit_exceeded''"
| "code_string ProtocolError = ''protocol_error''"
| "code_string InternalError = ''internal_error''"
| "code_string ConfigError = ''config_error''"
| "code_string RepositoryUnavailable = ''repository_unavailable''"
| "code_string CursorInvalid = ''cursor_invalid''"
| "code_string StaleSelection = ''stale_selection''"

lemma code_string_inject: "code_string a = code_string b \<Longrightarrow> a = b"
  by (cases a; cases b) simp_all

text \<open>
  \<open>AppErr code message detail cause\<close> is the struct \<open>Error\<close>; \<open>PlainErr\<close> any other
  error value of the program.
\<close>

datatype go_error =
    AppErr (err_code: code) (err_message: string) (err_detail: string)
      (err_cause: "go_error option")
  | PlainErr (plain_text: string)

type_synonym 'a res = "go_error + 'a"

fun error_string :: "go_error \<Rightarrow> string" where
  "error_string (AppErr c m d _) =
     (if d \<noteq> [] then code_string c @ '': '' @ m @ '' ('' @ d @ '')''
      else code_string c @ '': '' @ m)"
| "error_string (PlainErr t) = t"

fun unwrap :: "go_error \<Rightarrow> go_error option" where
  "unwrap (AppErr _ _ _ cause) = cause"
| "unwrap (PlainErr _) = None"

definition new_error :: "code \<Rightarrow> string \<Rightarrow> go_error" where
  "new_error c m = AppErr c m [] None"

fun with_detail :: "go_error \<Rightarrow> string \<Rightarrow> go_error" where
  "with_detail (AppErr c m _ cause) d = AppErr c m d cause"
| "with_detail (PlainErr t) _ = PlainErr t"

fun with_cause :: "go_error \<Rightarrow> go_error \<Rightarrow> go_error" where
  "with_cause (AppErr c m d _) e = AppErr c m d (Some e)"
| "with_cause (PlainErr t) _ = PlainErr t"

text \<open>
  \<open>errors.As\<close> looks for the first \<open>*Error\<close> along the chain of causes; a plain error has
  no cause, so the chain it searches starts and ends at the error itself.
\<close>

fun as_app :: "go_error \<Rightarrow> go_error option" where
  "as_app (AppErr c m d cause) = Some (AppErr c m d cause)"
| "as_app (PlainErr _) = None"

definition is_code :: "go_error \<Rightarrow> code \<Rightarrow> bool" where
  "is_code e c \<longleftrightarrow> (case as_app e of Some ae \<Rightarrow> err_code ae = c | None \<Rightarrow> False)"

text \<open>The code a result fails with, if it is a structured failure.\<close>

definition fails_with :: "'a res \<Rightarrow> code \<Rightarrow> bool" where
  "fails_with r c \<longleftrightarrow> (\<exists>e. r = Inl e \<and> is_code e c)"

lemma is_code_AppErr [simp]: "is_code (AppErr c m d k) c' \<longleftrightarrow> c = c'"
  by (simp add: is_code_def)

lemma is_code_PlainErr [simp]: "\<not> is_code (PlainErr t) c"
  by (simp add: is_code_def)

lemma is_code_new_error [simp]: "is_code (new_error c m) c' \<longleftrightarrow> c = c'"
  by (simp add: new_error_def)

lemma is_code_with_cause [simp]: "is_code (with_cause e k) c \<longleftrightarrow> is_code e c"
  by (cases e) auto

lemma is_code_with_detail [simp]: "is_code (with_detail e d) c \<longleftrightarrow> is_code e c"
  by (cases e) auto

lemma is_code_unique: "is_code e c \<Longrightarrow> is_code e c' \<Longrightarrow> c = c'"
  by (cases e) auto

lemma fails_with_Inl [simp]: "fails_with (Inl e) c \<longleftrightarrow> is_code e c"
  by (simp add: fails_with_def)

lemma fails_with_Inr [simp]: "\<not> fails_with (Inr x) c"
  by (simp add: fails_with_def)

section \<open>Loops that stop at the first error\<close>

fun map_res :: "('a \<Rightarrow> 'b res) \<Rightarrow> 'a list \<Rightarrow> 'b list res" where
  "map_res f [] = Inr []"
| "map_res f (x # xs) =
     (case f x of
        Inl e \<Rightarrow> Inl e
      | Inr y \<Rightarrow> (case map_res f xs of Inl e \<Rightarrow> Inl e | Inr ys \<Rightarrow> Inr (y # ys)))"

lemma map_res_Inr: "map_res f xs = Inr ys \<longleftrightarrow> list_all2 (\<lambda>x y. f x = Inr y) xs ys"
proof (induction xs arbitrary: ys)
  case (Cons x xs)
  show ?case
  proof (cases "map_res f xs")
    case (Inl e)
    with Cons.IH have "\<not> list_all2 (\<lambda>x y. f x = Inr y) xs zs" for zs by (metis Inl_Inr_False)
    with Inl show ?thesis by (simp add: list_all2_Cons1 split: sum.split)
  next
    case (Inr zs)
    have same: "list_all2 (\<lambda>x y. f x = Inr y) xs us \<longleftrightarrow> us = zs" for us
      using Cons.IH [of us] Inr by (simp add: eq_commute)
    show ?thesis
      by (cases "f x") (auto simp: Inr list_all2_Cons1 same)
  qed
qed auto

lemma map_res_Inl: "map_res f xs = Inl e \<Longrightarrow> \<exists>x \<in> set xs. f x = Inl e"
  by (induction xs) (auto split: sum.splits)

end
