(* ===== verification/Policy.thy ===== *)
theory Policy
  imports GoPath AppErr
begin

text \<open>
  The package \<open>internal/policy\<close> (\<open>paths.go\<close>): lexical path cleaning, the host, tag and
  path allowlists, and the visibility of a snapshot. Every tool handler decides what a
  client may see through these functions.
\<close>

definition max_path_bytes :: nat where "max_path_bytes = 4096"
definition max_host_bytes :: nat where "max_host_bytes = 253"
definition max_tag_bytes :: nat where "max_tag_bytes = 128"
definition max_requested_tags :: nat where "max_requested_tags = 32"

lemmas policy_limits =
  max_path_bytes_def max_host_bytes_def max_tag_bytes_def max_requested_tags_def

section \<open>Cleaning paths\<close>

definition CleanPath :: "string \<Rightarrow> string res" where
  "CleanPath p =
     (if p = [] then Inl (new_error InvalidArgument ''path must not be empty'')
      else if length p > max_path_bytes then Inl (new_error InvalidArgument ''path is too long'')
      else if CHR 0x5C \<in> set p \<or> has_control p
        then Inl (new_error InvalidArgument ''path contains illegal characters'')
      else if prefix ''//'' p
        then Inl (new_error InvalidArgument
               ''UNC paths are unsupported; snapshot paths must use POSIX form'')
      else if length p \<ge> 2 \<and> p ! 1 = CHR '':''
        then Inl (new_error InvalidArgument
               ''Windows drive paths are unsupported; snapshot paths must use POSIX form'')
      else if \<not> prefix ''/'' p then Inl (new_error InvalidArgument ''path must be absolute'')
      else if ''..'' \<in> set (split_on CHR ''/'' p)
        then Inl (new_error InvalidArgument ''path must not contain parent segments'')
      else let cleaned = path_clean p in
        if cleaned = ''.'' \<or> cleaned = []
          then Inl (new_error InvalidArgument ''path is invalid after cleaning'')
        else if \<not> prefix ''/'' cleaned
          then Inl (new_error InvalidArgument ''path must remain absolute after cleaning'')
        else Inr cleaned)"

definition backslash_to_slash :: "string \<Rightarrow> string" where
  "backslash_to_slash p = map (\<lambda>c. if c = CHR 0x5C then CHR ''/'' else c) p"

definition CleanSnapshotPath :: "string \<Rightarrow> string res" where
  "CleanSnapshotPath p =
     (if p = [] then Inl (new_error InvalidArgument ''path must not be empty'')
      else if prefix [CHR 0x5C, CHR 0x5C] p \<or> prefix ''//'' p
        then Inl (new_error InvalidArgument
               ''UNC paths are unsupported; snapshot paths must use POSIX form'')
      else if CHR 0x5C \<in> set p \<or> (length p \<ge> 2 \<and> p ! 1 = CHR '':'') then
        (let q = backslash_to_slash p in
         if length q \<ge> 2 \<and> q ! 1 = CHR '':'' then
           (if length q = 2 then CleanPath ''/''
            else if q ! 2 = CHR ''/'' then CleanPath (drop 2 q)
            else Inl (new_error InvalidArgument
                   ''Windows drive-relative paths are unsupported''))
         else CleanPath q)
      else CleanPath p)"

section \<open>The path allowlist\<close>

text \<open>
  \<open>pathUnder\<close>: equal to the parent or a descendant of it.
\<close>

definition path_under :: "string \<Rightarrow> string \<Rightarrow> bool" where
  "path_under child parent =
     (if child = parent then True
      else if parent = ''/'' then prefix ''/'' child
      else prefix (parent @ ''/'') child)"

record path_policy =
  pp_allowed :: "string list"

definition is_allowed :: "path_policy \<Rightarrow> string \<Rightarrow> bool" where
  "is_allowed pp cleaned =
     (if pp_allowed pp = [] then True
      else list_ex (\<lambda>a. path_under cleaned a) (pp_allowed pp))"

definition check_path :: "path_policy \<Rightarrow> string \<Rightarrow> string res" where
  "check_path pp raw =
     (case CleanPath raw of
        Inl err \<Rightarrow> Inl err
      | Inr cleaned \<Rightarrow>
          if \<not> is_allowed pp cleaned
          then Inl (new_error NotAllowed ''path is outside the configured allowlist'')
          else Inr cleaned)"

text \<open>
  \<open>FilterPaths\<close>: the visible part of the snapshot roots. The map \<open>seen\<close> of the Go code
  holds exactly the paths already in \<open>out\<close>, so membership in \<open>out\<close> stands for it.
\<close>

definition push_unseen :: "string \<Rightarrow> string list \<Rightarrow> string list" where
  "push_unseen p out = (if p \<in> set out then out else out @ [p])"

fun visible_part :: "string \<Rightarrow> string \<Rightarrow> string" where
  "visible_part cleaned allowed =
     (if path_under cleaned allowed then cleaned
      else if path_under allowed cleaned then allowed
      else [])"

fun filter_allowed :: "string \<Rightarrow> string list \<Rightarrow> string list \<Rightarrow> string list" where
  "filter_allowed cleaned [] out = out"
| "filter_allowed cleaned (allowed # rest) out =
     (let visible = visible_part cleaned allowed
      in filter_allowed cleaned rest (if visible = [] then out else push_unseen visible out))"

fun filter_paths_loop :: "path_policy \<Rightarrow> string list \<Rightarrow> string list \<Rightarrow> string list" where
  "filter_paths_loop pp [] out = out"
| "filter_paths_loop pp (p # ps) out =
     (case CleanPath p of
        Inl _ \<Rightarrow> filter_paths_loop pp ps out
      | Inr cleaned \<Rightarrow>
          if pp_allowed pp = [] then filter_paths_loop pp ps (push_unseen cleaned out)
          else filter_paths_loop pp ps (filter_allowed cleaned (pp_allowed pp) out))"

definition filter_paths :: "path_policy \<Rightarrow> string list \<Rightarrow> string list" where
  "filter_paths pp paths = filter_paths_loop pp paths []"

section \<open>The host and tag allowlists\<close>

record host_policy =
  hp_allowed :: "string list"
  hp_set :: "string set"

definition new_host_policy :: "string list \<Rightarrow> host_policy" where
  "new_host_policy allowed = \<lparr>hp_allowed = allowed, hp_set = set allowed\<rparr>"

definition check_host :: "host_policy \<Rightarrow> string \<Rightarrow> unit res" where
  "check_host hp host =
     (if host \<noteq> [] \<and> (length host > max_host_bytes \<or> has_control host)
        then Inl (new_error InvalidArgument ''host is invalid'')
      else if hp_set hp = {} then Inr ()
      else if host = []
        then Inl (new_error NotAllowed ''host filter is required by repository policy'')
      else if host \<notin> hp_set hp
        then Inl (new_error NotAllowed ''host is outside the configured allowlist'')
      else Inr ())"

definition allows_host :: "host_policy \<Rightarrow> string \<Rightarrow> bool" where
  "allows_host hp host \<longleftrightarrow> check_host hp host = Inr ()"

record tag_policy =
  tp_allowed :: "string list"
  tp_set :: "string set"

definition new_tag_policy :: "string list \<Rightarrow> tag_policy" where
  "new_tag_policy allowed = \<lparr>tp_allowed = allowed, tp_set = set allowed\<rparr>"

fun check_tags_loop :: "tag_policy \<Rightarrow> string list \<Rightarrow> unit res" where
  "check_tags_loop tp [] = Inr ()"
| "check_tags_loop tp (t # ts) =
     (if t = [] \<or> length t > max_tag_bytes \<or> has_control t
        then Inl (new_error InvalidArgument ''tag is invalid'')
      else if tp_set tp \<noteq> {} then
        (if t \<in> tp_set tp then check_tags_loop tp ts
         else Inl (new_error NotAllowed ''tag is outside the configured allowlist''))
      else check_tags_loop tp ts)"

definition check_each_tag :: "tag_policy \<Rightarrow> string list \<Rightarrow> unit res" where
  "check_each_tag tp tags =
     (if length tags > max_requested_tags
        then Inl (new_error InvalidArgument ''too many tag filters'')
      else check_tags_loop tp tags)"

definition filter_tags :: "tag_policy \<Rightarrow> string list \<Rightarrow> string list" where
  "filter_tags tp tags =
     (if tags = [] then []
      else if tp_set tp = {} then tags
      else filter (\<lambda>t. t \<in> tp_set tp) tags)"

section \<open>Snapshot visibility\<close>

definition snapshot_visible ::
  "string \<Rightarrow> string list \<Rightarrow> string list \<Rightarrow> host_policy \<Rightarrow> tag_policy \<Rightarrow> path_policy \<Rightarrow> bool" where
  "snapshot_visible host tags paths hosts tagp paths_pol =
     (if \<not> allows_host hosts host then False
      else if tp_set tagp \<noteq> {} \<and> \<not> list_ex (\<lambda>t. t \<in> tp_set tagp) tags then False
      else if pp_allowed paths_pol \<noteq> [] \<and> filter_paths paths_pol paths = [] then False
      else True)"

section \<open>Containment\<close>

text \<open>
  The contract of a scope test: it is reflexive and transitive. An allowlist of scopes
  is then downward closed, which is what lets a handler check a request path once and
  filter below it.
\<close>

locale containment =
  fixes under :: "'a \<Rightarrow> 'a \<Rightarrow> bool"
  assumes under_refl: "under x x"
    and under_trans: "under x y \<Longrightarrow> under y z \<Longrightarrow> under x z"
begin

lemma allow_member: "a \<in> set as \<Longrightarrow> list_ex (under a) as"
  by (auto simp: list_ex_iff intro: under_refl)

lemma allow_down: "list_ex (under x) as \<Longrightarrow> under y x \<Longrightarrow> list_ex (under y) as"
  by (auto simp: list_ex_iff intro: under_trans)

lemma allow_mono: "list_ex (under x) as \<Longrightarrow> set as \<subseteq> set bs \<Longrightarrow> list_ex (under x) bs"
  by (auto simp: list_ex_iff)

lemma overlap_common:
  assumes "under x y \<or> under y x"
  shows "\<exists>z. under z x \<and> under z y"
  using assms under_refl by blast

end

lemma path_under_prefix:
  "path_under child parent \<longleftrightarrow>
     child = parent \<or> prefix ((if parent = ''/'' then [] else parent) @ ''/'') child"
  by (simp add: path_under_def)

lemma path_under_prefix_trans:
  assumes "path_under x y" and "path_under y z"
  shows "path_under x z"
proof (cases "x = y \<or> y = z")
  case True
  with assms show ?thesis by blast
next
  case False
  let ?z = "(if z = ''/'' then [] else z) @ ''/''"
  from assms False have xy: "prefix ((if y = ''/'' then [] else y) @ ''/'') x"
    and yz: "prefix ?z y" by (auto simp: path_under_prefix)
  have "prefix ?z ((if y = ''/'' then [] else y) @ ''/'')"
    using yz prefix_order.trans [OF yz, of "y @ ''/''"] by (cases "y = ''/''") auto
  with xy have "prefix ?z x" by (rule prefix_order.trans [rotated])
  then show ?thesis by (simp add: path_under_prefix)
qed

interpretation pu: containment path_under
proof unfold_locales
  show "path_under x x" for x by (simp add: path_under_def)
next
  fix x y z
  assume "path_under x y" and "path_under y z"
  then show "path_under x z"
    using path_under_prefix_trans by blast
qed

lemma path_under_segs [path_simps]:
  assumes "list_all good_seg xs" and "list_all good_seg ys"
  shows "path_under (path_of xs) (path_of ys) \<longleftrightarrow> prefix ys xs"
proof (cases "ys = []")
  case True
  then show ?thesis by (simp add: path_under_def path_of_def)
next
  case False
  then have "path_of ys \<noteq> ''/''"
    using assms path_of_inject [of ys "[]"] by (auto simp: path_of_def)
  then show ?thesis
    using assms False path_of_inject [OF assms]
    by (auto simp: path_under_def prefix_path_of prefix_order.less_le)
qed

section \<open>What CleanPath accepts\<close>

lemma CleanPath_Inr:
  "CleanPath p = Inr c \<longleftrightarrow>
     p \<noteq> [] \<and> length p \<le> max_path_bytes \<and> CHR 0x5C \<notin> set p \<and> \<not> has_control p \<and>
     \<not> prefix ''//'' p \<and> \<not> (length p \<ge> 2 \<and> p ! 1 = CHR '':'') \<and> prefix ''/'' p \<and>
     ''..'' \<notin> set (split_on CHR ''/'' p) \<and> c = path_clean p"
proof (cases "prefix ''/'' p")
  case True
  then have can: "canonical (path_clean p)" by (rule path_clean_canonical)
  from canonical_rooted [OF can] have "prefix ''/'' (path_clean p)" .
  moreover from this have "path_clean p \<noteq> []" "path_clean p \<noteq> ''.''"
    by (auto simp: prefix_def)
  ultimately show ?thesis
    using True unfolding CleanPath_def Let_def by (simp only: if_splits) auto
next
  case False
  then show ?thesis unfolding CleanPath_def Let_def by simp
qed

lemma CleanPath_Inl: "CleanPath p = Inl e \<Longrightarrow> is_code e InvalidArgument"
  by (auto simp: CleanPath_def Let_def split: if_splits)

lemma clean_segs_no_dotdot:
  assumes "''..'' \<notin> set segs"
  shows "clean_segs rooted st segs = rev st @ filter (\<lambda>s. s \<noteq> [] \<and> s \<noteq> ''.'') segs"
  using assms by (induction segs arbitrary: st) auto

lemma CleanPath_segs:
  assumes "CleanPath p = Inr c"
  shows "c = path_of (filter (\<lambda>s. s \<noteq> [] \<and> s \<noteq> ''.'') (split_on CHR ''/'' p))"
    and "list_all good_seg (filter (\<lambda>s. s \<noteq> [] \<and> s \<noteq> ''.'') (split_on CHR ''/'' p))"
proof -
  from assms have p: "prefix ''/'' p" "''..'' \<notin> set (split_on CHR ''/'' p)" "c = path_clean p"
    by (simp_all add: CleanPath_Inr)
  show "c = path_of (filter (\<lambda>s. s \<noteq> [] \<and> s \<noteq> ''.'') (split_on CHR ''/'' p))"
    using p by (simp add: path_clean_rooted clean_segs_no_dotdot)
  show "list_all good_seg (filter (\<lambda>s. s \<noteq> [] \<and> s \<noteq> ''.'') (split_on CHR ''/'' p))"
    using p(2) split_on_no_sep [of _ "CHR ''/''" p]
    unfolding list_all_iff good_seg_def by auto
qed

lemma CleanPath_canonical: "CleanPath p = Inr c \<Longrightarrow> canonical c"
  using CleanPath_segs(1) [of p c] canonical_path_of [OF CleanPath_segs(2) [of p c]] by simp

lemma CleanSnapshotPath_canonical: "CleanSnapshotPath p = Inr c \<Longrightarrow> canonical c"
  by (auto simp: CleanSnapshotPath_def Let_def dest: CleanPath_canonical split: if_splits)

lemma CleanPath_chars: "CleanPath p = Inr c \<Longrightarrow> set c \<subseteq> set p"
proof -
  assume c: "CleanPath p = Inr c"
  have "set (join ''/'' xs) \<subseteq> insert CHR ''/'' (\<Union> (set ` set xs))" for xs
    by (induction xs rule: induct_list012) auto
  moreover have "CHR ''/'' \<in> set p"
    using c by (cases p) (auto simp: CleanPath_Inr)
  ultimately show ?thesis
    using CleanPath_segs(1) [OF c] split_on_subset [of _ "CHR ''/''" p]
    by (fastforce simp: path_of_def)
qed

lemma CleanPath_no_control: "CleanPath p = Inr c \<Longrightarrow> \<not> has_control c"
proof -
  assume c: "CleanPath p = Inr c"
  then have "\<not> has_control p" by (simp add: CleanPath_Inr)
  then have "\<not> has_control (join ''/'' (filter (\<lambda>s. s \<noteq> [] \<and> s \<noteq> ''.'') (split_on CHR ''/'' p)))"
    by (intro has_control_join) (auto simp: byte_def is_control_def dest: has_control_split [rotated])
  then show ?thesis
    using CleanPath_segs(1) [OF c]
    by (simp add: path_of_def has_control_ascii byte_def is_control_def)
qed

lemma length_join_filter:
  "length (join [c] (filter P xs)) \<le> length (join [c] xs)"
proof (induction xs)
  case Nil
  then show ?case by simp
next
  case (Cons x xs)
  then show ?case
    by (cases "filter P xs = []"; cases "xs = []") (auto simp: join_Cons)
qed

lemma CleanPath_length: "CleanPath p = Inr c \<Longrightarrow> length c \<le> length p"
proof -
  assume c: "CleanPath p = Inr c"
  then obtain q where q: "p = CHR ''/'' # q" by (auto simp: CleanPath_Inr prefix_def)
  let ?P = "\<lambda>s. s \<noteq> [] \<and> s \<noteq> ''.''"
  have "c = path_of (filter ?P (split_on CHR ''/'' q))"
    using CleanPath_segs(1) [OF c] by (simp add: q)
  then have "length c \<le> Suc (length (join ''/'' (split_on CHR ''/'' q)))"
    by (simp add: path_of_def length_join_filter)
  then show ?thesis by (simp add: q join_split_on)
qed

lemma CleanPath_again:
  assumes "CleanPath p = Inr c" and "\<not> (length c \<ge> 2 \<and> c ! 1 = CHR '':'')"
  shows "CleanPath c = Inr c"
proof -
  from assms(1) have can: "canonical c" by (rule CleanPath_canonical)
  have "\<not> prefix ''//'' c" using can by (rule canonical_no_double_slash)
  moreover have "length c \<le> max_path_bytes"
    using CleanPath_length [OF assms(1)] assms(1) by (simp add: CleanPath_Inr)
  moreover have "CHR 0x5C \<notin> set c"
    using CleanPath_chars [OF assms(1)] assms(1) by (auto simp: CleanPath_Inr)
  ultimately show ?thesis
    using can CleanPath_no_control [OF assms(1)] assms(2)
    by (simp add: CleanPath_Inr canonical_ne canonical_rooted canonical_no_dotdot path_clean_id)
qed

section \<open>Filtering snapshot roots\<close>

lemma set_push_unseen [simp]: "set (push_unseen p out) = insert p (set out)"
  by (auto simp: push_unseen_def)

lemma distinct_push_unseen [simp]: "distinct (push_unseen p out) = distinct out"
  by (auto simp: push_unseen_def)

lemma filter_allowed_set:
  "set (filter_allowed c as out) =
     set out \<union> {v. v \<noteq> [] \<and> (\<exists>a \<in> set as. v = visible_part c a)}"
  by (induction c as out rule: filter_allowed.induct)
    (auto simp: Let_def simp del: visible_part.simps)

lemma filter_allowed_distinct [simp]: "distinct (filter_allowed c as out) = distinct out"
  by (induction c as out rule: filter_allowed.induct)
    (auto simp: Let_def simp del: visible_part.simps)

definition visible_of :: "path_policy \<Rightarrow> string \<Rightarrow> string set" where
  "visible_of pp c =
     (if pp_allowed pp = [] then {c}
      else {v. v \<noteq> [] \<and> (\<exists>a \<in> set (pp_allowed pp). v = visible_part c a)})"

lemma filter_paths_loop_set:
  "set (filter_paths_loop pp ps out) =
     set out \<union> {v. \<exists>p \<in> set ps. \<exists>c. CleanPath p = Inr c \<and> v \<in> visible_of pp c}"
proof (induction pp ps out rule: filter_paths_loop.induct)
  case (1 pp out)
  then show ?case by simp
next
  case (2 pp p ps out)
  then show ?case
    by (cases "CleanPath p"; cases "pp_allowed pp = []")
      (auto simp: visible_of_def filter_allowed_set simp del: visible_part.simps)
qed

lemma filter_paths_loop_distinct:
  "distinct (filter_paths_loop pp ps out) = distinct out"
  by (induction pp ps out rule: filter_paths_loop.induct) (auto split: sum.splits)

lemma filter_paths_set:
  "v \<in> set (filter_paths pp ps) \<longleftrightarrow>
     (\<exists>p \<in> set ps. \<exists>c. CleanPath p = Inr c \<and> v \<in> visible_of pp c)"
  by (simp add: filter_paths_def filter_paths_loop_set)

lemma visible_of_under:
  assumes "v \<in> visible_of pp c"
  shows "path_under v c" and "is_allowed pp v"
  using assms pu.under_refl
  by (auto simp: visible_of_def is_allowed_def list_ex_iff split: if_splits)

lemma is_allowed_down: "is_allowed pp x \<Longrightarrow> path_under y x \<Longrightarrow> is_allowed pp y"
  using pu.allow_down by (auto simp: is_allowed_def)

text \<open>Two canonical scopes with a common descendant are comparable.\<close>

lemma path_under_linear:
  assumes "canonical x" and "canonical a" and "canonical c"
    and "path_under x a" and "path_under x c"
  shows "path_under c a \<or> path_under a c"
  using assms by (auto elim!: canonicalE simp: path_simps dest: prefix_same_cases)

lemma visible_of_complete:
  assumes "list_all canonical (pp_allowed pp)" and "canonical c" and "canonical x"
    and "is_allowed pp x" and "path_under x c"
  shows "\<exists>v \<in> visible_of pp c. path_under x v"
proof (cases "pp_allowed pp = []")
  case True
  with assms(5) show ?thesis by (simp add: visible_of_def)
next
  case False
  with assms(4) obtain a where a: "a \<in> set (pp_allowed pp)" "path_under x a"
    by (auto simp: is_allowed_def list_ex_iff)
  with assms(1) have "canonical a" by (simp add: list_all_iff)
  with assms a have "path_under c a \<or> path_under a c"
    using path_under_linear by blast
  then have "path_under x (visible_part c a)" "visible_part c a \<noteq> []"
    using a assms canonical_ne \<open>canonical a\<close> by auto
  with False a show ?thesis by (auto simp: visible_of_def simp del: visible_part.simps)
qed

section \<open>Host and tag checks\<close>

definition valid_host :: "string \<Rightarrow> bool" where
  "valid_host h \<longleftrightarrow> length h \<le> max_host_bytes \<and> \<not> has_control h"

definition valid_tag :: "string \<Rightarrow> bool" where
  "valid_tag t \<longleftrightarrow> t \<noteq> [] \<and> length t \<le> max_tag_bytes \<and> \<not> has_control t"

lemma allows_host_iff:
  "allows_host (new_host_policy hs) h \<longleftrightarrow> valid_host h \<and> (hs = [] \<or> h \<noteq> [] \<and> h \<in> set hs)"
  by (auto simp: allows_host_def check_host_def new_host_policy_def valid_host_def)

lemma check_tags_loop_Inr:
  "check_tags_loop tp ts = Inr () \<longleftrightarrow>
     list_all valid_tag ts \<and> (tp_set tp = {} \<or> set ts \<subseteq> tp_set tp)"
  by (induction tp ts rule: check_tags_loop.induct) (auto simp: valid_tag_def)

section \<open>Properties\<close>

text \<open>
  Whatever \<open>CleanPath\<close> accepts comes back as a canonical absolute path made of the
  non-empty, non-dot segments of the input in their order: no parent segment, no control
  rune, no backslash, and no longer than the input or 4096 bytes.
\<close>

theorem CleanPath_sound:
  assumes "CleanPath p = Inr c"
  shows "canonical c \<and>
    segs_of c = filter (\<lambda>s. s \<noteq> [] \<and> s \<noteq> ''.'') (split_on CHR ''/'' p) \<and>
    ''..'' \<notin> set (segs_of c) \<and> \<not> has_control c \<and> CHR 0x5C \<notin> set c \<and>
    length c \<le> length p \<and> length c \<le> 4096"
proof -
  have "segs_of c = filter (\<lambda>s. s \<noteq> [] \<and> s \<noteq> ''.'') (split_on CHR ''/'' p)"
    using CleanPath_segs [OF assms] segs_of_path_of by simp
  moreover have "''..'' \<notin> set (split_on CHR ''/'' p)" "CHR 0x5C \<notin> set p" "length p \<le> 4096"
    using assms by (simp_all add: CleanPath_Inr max_path_bytes_def)
  ultimately show ?thesis
    using CleanPath_canonical [OF assms] CleanPath_no_control [OF assms]
      CleanPath_chars [OF assms] CleanPath_length [OF assms] by auto
qed

lemma CleanPath_srv_data: "CleanPath ''/srv//./data/'' = Inr ''/srv/data''"
  by (simp add: CleanPath_Inr path_clean_def max_path_bytes_def has_control_ascii byte_def
      is_control_def)

theorem CleanPath_sound_witness:
  "canonical ''/srv/data'' \<and> segs_of ''/srv/data'' = [''srv'', ''data'']"
  using CleanPath_sound [OF CleanPath_srv_data] by simp

text \<open>
  Cleaning is idempotent except for one shape: a cleaned path is cleaned again to
  itself unless its second byte is a colon, and then the second cleaning rejects it as a
  Windows drive path.
\<close>

theorem CleanPath_again_iff:
  assumes "CleanPath p = Inr c"
  shows "CleanPath c = Inr c \<longleftrightarrow> \<not> (2 \<le> length c \<and> c ! 1 = CHR '':'')"
  using CleanPath_again [OF assms] by (auto simp: CleanPath_Inr)

theorem CleanPath_again_iff_witness: "CleanPath ''/srv/data'' = Inr ''/srv/data''"
  using CleanPath_again_iff [OF CleanPath_srv_data] by simp

text \<open>
  A file at the root of a snapshot whose name begins with a colon is rejected as a
  Windows drive path although the path is POSIX, and a spelling of it with a dot segment
  is accepted as exactly that path.
\<close>

theorem CleanPath_colon_rejected:
  "CleanPath ''/./:data'' = Inr ''/:data'' \<and> fails_with (CleanPath ''/:data'') InvalidArgument"
proof
  show "CleanPath ''/./:data'' = Inr ''/:data''"
    by (simp add: CleanPath_Inr path_clean_def max_path_bytes_def has_control_ascii byte_def
        is_control_def)
  show "fails_with (CleanPath ''/:data'') InvalidArgument"
    by (simp add: CleanPath_def max_path_bytes_def has_control_ascii byte_def is_control_def)
qed

text \<open>
  On canonical paths the string test \<open>pathUnder\<close> decides containment of segment
  lists: the child is below the parent exactly when the parent's segments are a prefix
  of the child's, so \<open>/srv/data2\<close> is never below \<open>/srv/data\<close>.
\<close>

theorem path_under_iff_prefix:
  assumes "canonical child" and "canonical parent"
  shows "path_under child parent \<longleftrightarrow> prefix (segs_of parent) (segs_of child)"
  using assms by (auto elim!: canonicalE simp: path_simps)

theorem path_under_iff_prefix_witness:
  "canonical ''/srv/data2'' \<and> canonical ''/srv/data'' \<and> \<not> path_under ''/srv/data2'' ''/srv/data''"
proof -
  have c: "canonical ''/srv/data2''" "canonical ''/srv/data''"
    by (simp_all add: canonical_def segs_of_def good_seg_def path_of_def)
  have "\<not> prefix (segs_of ''/srv/data'') (segs_of ''/srv/data2'')"
    by (simp add: segs_of_def)
  with c path_under_iff_prefix [OF c] show ?thesis by simp
qed

text \<open>
  C6. A request path that \<open>PathPolicy.Check\<close> lets through lies, segment for segment,
  inside one of the configured paths; no spelling with dots, doubled slashes or parent
  segments gets out.
\<close>

theorem check_path_contained:
  assumes "check_path pp raw = Inr c" and "pp_allowed pp \<noteq> []"
    and "list_all canonical (pp_allowed pp)"
  shows "canonical c \<and> (\<exists>a \<in> set (pp_allowed pp). prefix (segs_of a) (segs_of c))"
proof -
  from assms(1) have c: "CleanPath raw = Inr c" and al: "is_allowed pp c"
    by (auto simp: check_path_def split: sum.splits if_splits)
  from c have can: "canonical c" by (rule CleanPath_canonical)
  from al assms(2) obtain a where a: "a \<in> set (pp_allowed pp)" "path_under c a"
    by (auto simp: is_allowed_def list_ex_iff)
  with assms(3) have "canonical a" by (simp add: list_all_iff)
  with can have "path_under c a \<longleftrightarrow> prefix (segs_of a) (segs_of c)"
    by (auto elim!: canonicalE simp: path_simps)
  with a can show ?thesis by blast
qed

theorem check_path_contained_witness:
  "\<exists>a \<in> {''/srv''}. prefix (segs_of a) (segs_of ''/srv/data'')"
proof -
  have "check_path \<lparr>pp_allowed = [''/srv'']\<rparr> ''/srv//./data/'' = Inr ''/srv/data''"
    by (simp add: check_path_def CleanPath_srv_data is_allowed_def path_under_def)
  from check_path_contained [OF this] show ?thesis
    by (simp add: canonical_def segs_of_def good_seg_def path_of_def)
qed

text \<open>
  C19. \<open>FilterPaths\<close> computes the visible intersection of the snapshot roots with the
  allowlist: a canonical path lies below one of the returned paths exactly when it is
  allowed and lies below one of the roots that clean.
\<close>

theorem filter_paths_intersection:
  assumes "list_all canonical (pp_allowed pp)" and "canonical x"
  shows "(\<exists>v \<in> set (filter_paths pp roots). path_under x v) \<longleftrightarrow>
    is_allowed pp x \<and> (\<exists>p \<in> set roots. \<exists>c. CleanPath p = Inr c \<and> path_under x c)"
proof
  assume "\<exists>v \<in> set (filter_paths pp roots). path_under x v"
  then obtain v p c where "path_under x v" "p \<in> set roots" "CleanPath p = Inr c"
    "v \<in> visible_of pp c" by (auto simp: filter_paths_set)
  then show "is_allowed pp x \<and> (\<exists>p \<in> set roots. \<exists>c. CleanPath p = Inr c \<and> path_under x c)"
    using visible_of_under is_allowed_down pu.under_trans by blast
next
  assume r: "is_allowed pp x \<and> (\<exists>p \<in> set roots. \<exists>c. CleanPath p = Inr c \<and> path_under x c)"
  then obtain p c where p: "p \<in> set roots" "CleanPath p = Inr c" "path_under x c" by blast
  with r obtain v where "v \<in> visible_of pp c" "path_under x v"
    using visible_of_complete [OF assms(1) CleanPath_canonical [OF p(2)] assms(2)] by blast
  with p(1,2) show "\<exists>v \<in> set (filter_paths pp roots). path_under x v"
    using filter_paths_set by blast
qed

theorem filter_paths_intersection_witness:
  "\<exists>v \<in> set (filter_paths \<lparr>pp_allowed = [''/srv/data'']\<rparr> [''/srv//./data/'']).
     path_under ''/srv/data'' v"
proof -
  have "canonical ''/srv/data''"
    by (simp add: canonical_def segs_of_def good_seg_def path_of_def)
  moreover have "path_under ''/srv/data'' ''/srv/data''" by (rule pu.under_refl)
  ultimately show ?thesis
    using filter_paths_intersection
      [of "\<lparr>pp_allowed = [''/srv/data'']\<rparr>" "''/srv/data''" "[''/srv//./data/'']"]
    by (simp add: CleanPath_srv_data is_allowed_def)
qed

text \<open>
  C21. A snapshot is visible exactly when its host is well formed and on the host
  allowlist, one of its tags is on the tag allowlist and some path is both allowed and
  below one of its roots; an empty allowlist leaves its dimension unrestricted.
\<close>

theorem snapshot_visible_iff:
  assumes "list_all canonical (pp_allowed pp)"
  shows "snapshot_visible host tags roots (new_host_policy hs) (new_tag_policy tgs) pp \<longleftrightarrow>
    valid_host host \<and> (hs = [] \<or> host \<noteq> [] \<and> host \<in> set hs) \<and>
    (tgs = [] \<or> (\<exists>t \<in> set tags. t \<in> set tgs)) \<and>
    (pp_allowed pp = [] \<or>
      (\<exists>x c. canonical x \<and> is_allowed pp x \<and> (\<exists>p \<in> set roots. CleanPath p = Inr c) \<and>
             path_under x c))"
proof -
  have "filter_paths pp roots \<noteq> [] \<longleftrightarrow>
      (\<exists>x c. canonical x \<and> is_allowed pp x \<and> (\<exists>p \<in> set roots. CleanPath p = Inr c) \<and>
             path_under x c)" (is "?L \<longleftrightarrow> ?R") if ne: "pp_allowed pp \<noteq> []"
  proof
    assume ?L
    then obtain v where "v \<in> set (filter_paths pp roots)" using hd_in_set by blast
    then obtain p c where pc: "p \<in> set roots" "CleanPath p = Inr c" "v \<in> visible_of pp c"
      by (auto simp: filter_paths_set)
    have "canonical v"
      using pc(3) CleanPath_canonical [OF pc(2)] assms ne
      by (auto simp: visible_of_def list_all_iff split: if_splits)
    with pc visible_of_under [OF pc(3)] show ?R by blast
  next
    assume ?R
    then obtain x c p where x: "canonical x" "is_allowed pp x" "p \<in> set roots"
      "CleanPath p = Inr c" "path_under x c" by blast
    from visible_of_complete [OF assms CleanPath_canonical [OF x(4)] x(1,2,5)] x(3,4)
    have "\<exists>v. v \<in> set (filter_paths pp roots)" using filter_paths_set by blast
    then show ?L by auto
  qed
  then show ?thesis
    by (auto simp: snapshot_visible_def allows_host_iff new_tag_policy_def list_ex_iff)
qed

theorem snapshot_visible_iff_witness:
  "\<not> snapshot_visible ''db'' [''daily''] [''/srv//./data/''] (new_host_policy [''web''])
     (new_tag_policy []) \<lparr>pp_allowed = []\<rparr>"
  using snapshot_visible_iff
    [of "\<lparr>pp_allowed = []\<rparr>" "''db''" "[''daily'']" "[''/srv//./data/'']" "[''web'']" "[]"]
  by simp

text \<open>
  A request's tag filters pass exactly when there are at most 32 of them, each is
  well formed and, under a tag allowlist, each is on it.
\<close>

theorem check_each_tag_iff:
  "check_each_tag (new_tag_policy tgs) tags = Inr () \<longleftrightarrow>
     length tags \<le> 32 \<and> list_all valid_tag tags \<and> (tgs = [] \<or> set tags \<subseteq> set tgs)"
  by (auto simp: check_each_tag_def check_tags_loop_Inr new_tag_policy_def
      max_requested_tags_def)

end
