(* ===== verification/Redaction.thy ===== *)
theory Redaction
  imports GoStrings
begin

text \<open>
  The package \<open>internal/redaction\<close>: every string that restic or the configuration
  produces passes through \<open>SanitizeString\<close> or \<open>SanitizeAndRedact\<close> before a client or
  the log sees it. Go's \<open>regexp\<close> is modelled by a matcher for the operators the
  program's expressions use, with the leftmost-first choice of Perl and RE2.
\<close>

section \<open>Regular expressions\<close>

text \<open>
  An expression reads decoded runes; \<open>Star P\<close> is the greedy repetition of a class. The
  matcher returns what may remain after a match, the preferred match first.
\<close>

datatype rx =
    Cls "nat \<Rightarrow> bool"
  | Star "nat \<Rightarrow> bool"
  | Opt rx
  | Seq rx rx
  | Alt rx rx

type_synonym chunks = "(nat \<times> string) list"

fun star_match :: "(nat \<Rightarrow> bool) \<Rightarrow> chunks \<Rightarrow> chunks list" where
  "star_match P [] = [[]]"
| "star_match P (c # cs) = (if P (fst c) then star_match P cs @ [c # cs] else [c # cs])"

fun rx_match :: "rx \<Rightarrow> chunks \<Rightarrow> chunks list" where
  "rx_match (Cls P) xs =
     (case xs of [] \<Rightarrow> [] | c # cs \<Rightarrow> if P (fst c) then [cs] else [])"
| "rx_match (Star P) xs = star_match P xs"
| "rx_match (Opt r) xs = rx_match r xs @ [xs]"
| "rx_match (Seq r1 r2) xs = concat (map (rx_match r2) (rx_match r1 xs))"
| "rx_match (Alt r1 r2) xs = rx_match r1 xs @ rx_match r2 xs"

text \<open>\<open>ReplaceAllString\<close> for expressions that match no empty string.\<close>

function rx_replace :: "rx \<Rightarrow> string \<Rightarrow> chunks \<Rightarrow> string" where
  "rx_replace r rep [] = []"
| "rx_replace r rep (c # cs) =
     (case rx_match r (c # cs) of
        rest # _ \<Rightarrow>
          if length rest < Suc (length cs) then rep @ rx_replace r rep rest
          else snd c @ rx_replace r rep cs
      | [] \<Rightarrow> snd c @ rx_replace r rep cs)"
  by pat_completeness auto
termination
  by (relation "measure (\<lambda>(_, _, xs). length xs)") auto

definition replace_all_rx :: "rx \<Rightarrow> string \<Rightarrow> string \<Rightarrow> string" where
  "replace_all_rx r rep s = rx_replace r rep (rune_chunks s)"

definition rx_rune :: "char \<Rightarrow> rx" where
  "rx_rune c = Cls (\<lambda>r. r = byte c)"

text \<open>
  A letter under \<open>(?i)\<close>: either case, and the two runes that fold to \<open>k\<close> and \<open>s\<close>.
\<close>

definition rx_fold :: "char \<Rightarrow> rx" where
  "rx_fold c =
     Cls (\<lambda>r. r = byte c \<or> (byte_in 0x61 0x7A c \<and> r + 0x20 = byte c)
            \<or> (c = CHR ''k'' \<and> r = 0x212A) \<or> (c = CHR ''s'' \<and> r = 0x17F))"

fun rx_word :: "string \<Rightarrow> rx" where
  "rx_word [] = Star (\<lambda>_. False)"
| "rx_word [c] = rx_fold c"
| "rx_word (c # d # cs) = Seq (rx_fold c) (rx_word (d # cs))"

definition is_blank :: "nat \<Rightarrow> bool" where
  "is_blank r \<longleftrightarrow> r \<in> {0x09, 0x0A, 0x0C, 0x0D, 0x20}"

definition rx_nonblanks :: rx where
  "rx_nonblanks = Seq (Cls (\<lambda>r. \<not> is_blank r)) (Star (\<lambda>r. \<not> is_blank r))"

section \<open>SanitizeString\<close>

definition replacement :: string where
  "replacement = [CHR 0xEF, CHR 0xBF, CHR 0xBD]"

definition esc :: nat where "esc = 0x1B"

definition ansi_escape :: rx where
  "ansi_escape =
     Alt (Seq (Cls (\<lambda>r. r = esc)) (Seq (rx_rune CHR ''['')
           (Seq (Star (\<lambda>r. (0x30 \<le> r \<and> r \<le> 0x39) \<or> r = 0x3B \<or> r = 0x3F))
                (Cls (\<lambda>r. (0x61 \<le> r \<and> r \<le> 0x7A) \<or> (0x41 \<le> r \<and> r \<le> 0x5A))))))
    (Alt (Seq (Cls (\<lambda>r. r = esc)) (Seq (rx_rune CHR '']'')
           (Seq (Star (\<lambda>r. r \<noteq> 0x07))
                (Alt (Cls (\<lambda>r. r = 0x07)) (Seq (Cls (\<lambda>r. r = esc)) (rx_rune CHR 0x5C))))))
         (Seq (Cls (\<lambda>r. r = esc)) (Cls (\<lambda>r. r \<noteq> 0x0A))))"

text \<open>\<open>utf8.ValidString\<close> and \<open>strings.ToValidUTF8\<close>: a run of bad bytes becomes one U+FFFD.\<close>

definition bad_chunk :: "nat \<times> string \<Rightarrow> bool" where
  "bad_chunk c \<longleftrightarrow> fst c = rune_error \<and> length (snd c) = 1"

definition valid_utf8 :: "string \<Rightarrow> bool" where
  "valid_utf8 s \<longleftrightarrow> list_all (\<lambda>c. \<not> bad_chunk c) (rune_chunks s)"

fun to_valid_loop :: "bool \<Rightarrow> chunks \<Rightarrow> string" where
  "to_valid_loop invalid [] = []"
| "to_valid_loop invalid (c # cs) =
     (if bad_chunk c then (if invalid then [] else replacement) @ to_valid_loop True cs
      else snd c @ to_valid_loop False cs)"

definition to_valid_utf8 :: "string \<Rightarrow> string" where
  "to_valid_utf8 s = to_valid_loop False (rune_chunks s)"

text \<open>\<open>strings.Builder.WriteRune\<close>: the UTF-8 encoding of a rune.\<close>

definition encode_rune :: "nat \<Rightarrow> string" where
  "encode_rune r =
     (if r < 0x80 then [char_of r]
      else if r < 0x800 then [char_of (0xC0 + r div 64), char_of (0x80 + r mod 64)]
      else if 0x10FFFF < r \<or> (0xD800 \<le> r \<and> r \<le> 0xDFFF) then replacement
      else if r < 0x10000
        then [char_of (0xE0 + r div 4096), char_of (0x80 + r div 64 mod 64),
              char_of (0x80 + r mod 64)]
      else [char_of (0xF0 + r div 262144), char_of (0x80 + r div 4096 mod 64),
            char_of (0x80 + r div 64 mod 64), char_of (0x80 + r mod 64)])"

fun sanitize_rune :: "nat \<Rightarrow> string" where
  "sanitize_rune r =
     (if r = 0x09 \<or> r = 0x0A then encode_rune r
      else if r = 0x0D then []
      else if is_control r then replacement
      else if r = rune_error then replacement
      else encode_rune r)"

definition SanitizeString :: "string \<Rightarrow> string" where
  "SanitizeString s =
     (if s = [] then s
      else let s1 = replace_all_rx ansi_escape [] s;
               s2 = (if \<not> valid_utf8 s1 then to_valid_utf8 s1 else s1)
           in concat (map sanitize_rune (runes s2)))"

section \<open>Secrets\<close>

definition redacted :: string where "redacted = ''[REDACTED]''"

definition rx_sep :: rx where
  "rx_sep = Opt (Cls (\<lambda>r. r = byte CHR ''_'' \<or> r = byte CHR ''-''))"

definition secret_key :: rx where
  "secret_key =
     Alt (rx_word ''password'') (Alt (rx_word ''passwd'') (Alt (rx_word ''secret'')
       (Alt (rx_word ''token'')
         (Alt (Seq (rx_word ''access'') (Seq rx_sep (rx_word ''key'')))
              (Seq (rx_word ''secret'') (Seq rx_sep (Seq (rx_word ''access'')
                (Seq rx_sep (rx_word ''key'')))))))))"

definition secret_patterns :: "rx list" where
  "secret_patterns =
     [Seq secret_key (Seq (Star is_blank)
        (Seq (Cls (\<lambda>r. r = byte CHR '':'' \<or> r = byte CHR ''='')) (Seq (Star is_blank) rx_nonblanks))),
      Seq (rx_word ''aws_secret_access_key='') rx_nonblanks,
      Seq (rx_word ''b2_account_key='') rx_nonblanks,
      Seq (rx_word ''restic_password='') rx_nonblanks,
      Seq (rx_word ''authorization:'') (Seq (Star is_blank) rx_nonblanks)]"

definition RedactSecrets :: "string \<Rightarrow> string" where
  "RedactSecrets s = fold (\<lambda>re out. replace_all_rx re redacted out) secret_patterns s"

text \<open>\<open>strings.ReplaceAll\<close> for a non-empty old string.\<close>

function replace_all :: "string \<Rightarrow> string \<Rightarrow> string \<Rightarrow> string" where
  "replace_all old new s =
     (if s = [] then []
      else if old \<noteq> [] \<and> prefix old s then new @ replace_all old new (drop (length old) s)
      else hd s # replace_all old new (tl s))"
  by pat_completeness auto
termination
  by (relation "measure (\<lambda>(_, _, s). length s)") auto

declare replace_all.simps [simp del]

definition RedactValues :: "string \<Rightarrow> string list \<Rightarrow> string" where
  "RedactValues s values =
     (let filtered = filter (\<lambda>v. v \<noteq> []) (map SanitizeString values);
          sorted_values = sort_by (\<lambda>a b. length a > length b) filtered
      in fold (\<lambda>v out. replace_all v redacted out) sorted_values s)"

definition SanitizeAndRedact :: "string \<Rightarrow> string" where
  "SanitizeAndRedact s = RedactSecrets (SanitizeString s)"

section \<open>Clip\<close>

text \<open>
  The loop of \<open>Clip\<close> over the byte indices at which the runes of the string start.
\<close>

fun rune_starts :: "nat \<Rightarrow> chunks \<Rightarrow> nat list" where
  "rune_starts i [] = []"
| "rune_starts i (c # cs) = i # rune_starts (i + length (snd c)) cs"

fun clip_loop :: "string \<Rightarrow> nat \<Rightarrow> nat \<Rightarrow> nat \<Rightarrow> nat \<Rightarrow> nat list \<Rightarrow> string" where
  "clip_loop s mx ellipsis_cut rs at [] = s"
| "clip_loop s mx ellipsis_cut rs at (i # is) =
     (let at' = (if rs = ellipsis_cut then i else at)
      in if rs = mx then (if mx < 3 then take i s else take at' s @ ''...'')
         else clip_loop s mx ellipsis_cut (rs + 1) at' is)"

definition Clip :: "string \<Rightarrow> int \<Rightarrow> string" where
  "Clip s mx =
     (if mx \<le> 0 then []
      else clip_loop s (nat mx) (if mx < 3 then nat mx else nat mx - 3) 0 0
             (rune_starts 0 (rune_chunks s)))"

section \<open>Encoding and decoding runes\<close>

definition scalar :: "nat \<Rightarrow> bool" where
  "scalar r \<longleftrightarrow> r \<le> 0x10FFFF \<and> \<not> (0xD800 \<le> r \<and> r \<le> 0xDFFF)"

lemma byte_char_of [simp]: "n < 256 \<Longrightarrow> byte (char_of n) = n"
  by (simp add: byte_def)

lemma byte_lt_256 [simp]: "byte c < 256"
  by (cases c) (simp add: byte_def)

lemma split_base64:
  fixes r :: nat
  shows "r div 4096 * 4096 + r div 64 mod 64 * 64 + r mod 64 = r"
    and "r div 262144 * 262144 + r div 4096 mod 64 * 4096 + r div 64 mod 64 * 64 + r mod 64 = r"
proof -
  have d: "r div 4096 = r div 64 div 64" "r div 262144 = r div 4096 div 64"
    by (simp_all add: div_mult2_eq [symmetric])
  have m: "r div 64 * 64 + r mod 64 = r"
    "r div 64 div 64 * 64 + r div 64 mod 64 = r div 64"
    "r div 4096 div 64 * 64 + r div 4096 mod 64 = r div 4096" by simp_all
  show e: "r div 4096 * 4096 + r div 64 mod 64 * 64 + r mod 64 = r"
    using m(1,2) d(1) by linarith
  show "r div 262144 * 262144 + r div 4096 mod 64 * 4096 + r div 64 mod 64 * 64 + r mod 64 = r"
    using e m(3) d(2) by linarith
qed

lemma decode_encode:
  assumes "scalar r"
  shows "decode_rune (encode_rune r @ s) = (r, length (encode_rune r))"
proof -
  consider "r < 0x80" | "0x80 \<le> r" "r < 0x800" | "0x800 \<le> r" "r < 0x10000" | "0x10000 \<le> r"
    by linarith
  then show ?thesis
  proof cases
    case 1
    then show ?thesis by (simp add: encode_rune_def)
  next
    case 2
    let ?a = "r div 64" and ?b = "r mod 64"
    have enc: "encode_rune r = [char_of (0xC0 + ?a), char_of (0x80 + ?b)]"
      using 2 by (simp add: encode_rune_def)
    have a: "?a < 32" "2 \<le> ?a" "?b < 64" and r: "?a * 64 + ?b = r"
      using 2 by auto
    have "byte (char_of (0xC0 + ?a) :: char) = 0xC0 + ?a"
      and "byte (char_of (0x80 + ?b) :: char) = 0x80 + ?b"
      using a by simp_all
    then show ?thesis
      using a r unfolding enc by (simp only: append_Cons append_Nil decode_rune.simps Let_def
          byte_in_def list.case length_Cons list.size) simp
  next
    case 3
    let ?a = "r div 4096" and ?b = "r div 64 mod 64" and ?c = "r mod 64"
    have enc: "encode_rune r =
        [char_of (0xE0 + ?a), char_of (0x80 + ?b), char_of (0x80 + ?c)]"
      using 3 assms by (auto simp: encode_rune_def scalar_def)
    have r: "?a * 4096 + ?b * 64 + ?c = r" by (rule split_base64(1))
    have a: "?a < 16" "?b < 64" "?c < 64" using 3 by auto
    have e0: "?a = 0 \<Longrightarrow> 32 \<le> ?b" using 3 r a by linarith
    have ed: "?a = 13 \<Longrightarrow> ?b < 32"
      using assms r a unfolding scalar_def by linarith
    have "byte (char_of (0xE0 + ?a) :: char) = 0xE0 + ?a"
      and "byte (char_of (0x80 + ?b) :: char) = 0x80 + ?b"
      and "byte (char_of (0x80 + ?c) :: char) = 0x80 + ?c"
      using a by simp_all
    then show ?thesis
      using a r e0 ed unfolding enc
      by (simp only: append_Cons append_Nil decode_rune.simps Let_def
          byte_in_def list.case length_Cons list.size) auto
  next
    case 4
    let ?a = "r div 262144" and ?b = "r div 4096 mod 64" and ?c = "r div 64 mod 64"
      and ?d = "r mod 64"
    have enc: "encode_rune r =
        [char_of (0xF0 + ?a), char_of (0x80 + ?b), char_of (0x80 + ?c), char_of (0x80 + ?d)]"
      using 4 assms by (auto simp: encode_rune_def scalar_def)
    have r: "?a * 262144 + ?b * 4096 + ?c * 64 + ?d = r" by (rule split_base64(2))
    have a: "?a < 5" "?b < 64" "?c < 64" "?d < 64"
      using assms by (auto simp: scalar_def)
    have le: "?b \<le> 63" "?c \<le> 63" "?d \<le> 63" using a by linarith+
    have f0: "?a = 0 \<Longrightarrow> 16 \<le> ?b" using 4 r a by linarith
    have f4: "?a = 4 \<Longrightarrow> ?b < 16"
      using assms r a unfolding scalar_def by linarith
    have "byte (char_of (0xF0 + ?a) :: char) = 0xF0 + ?a"
      and "byte (char_of (0x80 + ?b) :: char) = 0x80 + ?b"
      and "byte (char_of (0x80 + ?c) :: char) = 0x80 + ?c"
      and "byte (char_of (0x80 + ?d) :: char) = 0x80 + ?d"
      using a by simp_all
    then show ?thesis
      using a(1) le r f0 f4 unfolding enc
      by (simp only: append_Cons append_Nil decode_rune.simps Let_def
          byte_in_def list.case length_Cons list.size) auto
  qed
qed

lemma encode_rune_ne [simp]: "encode_rune r \<noteq> []"
  by (simp add: encode_rune_def replacement_def)

lemma rune_chunks_encode:
  assumes "scalar r"
  shows "rune_chunks (encode_rune r @ s) = (r, encode_rune r) # rune_chunks s"
  by (simp add: rune_chunks.simps [of "encode_rune r @ s"] decode_encode [OF assms])

lemma rune_chunks_encodes:
  "list_all scalar rs \<Longrightarrow>
   rune_chunks (concat (map encode_rune rs)) = map (\<lambda>r. (r, encode_rune r)) rs"
  by (induction rs) (simp_all add: rune_chunks_encode)

lemma runes_encodes: "list_all scalar rs \<Longrightarrow> runes (concat (map encode_rune rs)) = rs"
  by (simp add: runes_def rune_chunks_encodes comp_def)

lemma scalar_rune_error [simp]: "scalar rune_error"
  by (simp add: scalar_def rune_error_def)

lemma decode_scalar:
  assumes "decode_rune s = (r, w)"
  shows "scalar r"
proof (cases s)
  case Nil
  with assms show ?thesis by auto
next
  case (Cons c cs)
  consider "byte c < 0x80" | "0x80 \<le> byte c" "byte c < 0xE0"
    | "0xE0 \<le> byte c" "byte c < 0xF0" | "0xF0 \<le> byte c" "byte c < 0xF5" | "0xF5 \<le> byte c"
    by linarith
  then show ?thesis
  proof cases
    case 1
    with assms Cons show ?thesis by (auto simp: scalar_def)
  next
    case 2
    with assms Cons show ?thesis
      by (auto simp: Let_def byte_in_def scalar_def rune_error_def split: if_splits list.splits)
  next
    case 3
    show ?thesis
    proof (cases "r = rune_error")
      case False
      then obtain c1 c2 ds where cs: "cs = c1 # c2 # ds"
        using assms Cons 3 by (cases cs; cases "tl cs") auto
      have b: "0x80 \<le> byte c1" "byte c1 \<le> 0xBF" "byte c = 0xED \<longrightarrow> byte c1 \<le> 0x9F"
        "0x80 \<le> byte c2" "byte c2 \<le> 0xBF"
        and r: "r = (byte c - 0xE0) * 4096 + (byte c1 - 0x80) * 64 + (byte c2 - 0x80)"
        using assms Cons 3 cs False by (auto simp: Let_def byte_in_def split: if_splits)
      show ?thesis
      proof (cases "byte c < 0xED")
        case True
        with r b 3 have "r < 0xD800" by linarith
        then show ?thesis by (simp add: scalar_def)
      next
        case ge: False
        show ?thesis
        proof (cases "byte c = 0xED")
          case True
          with r b have "r < 0xD800" by linarith
          then show ?thesis by (simp add: scalar_def)
        next
          case False
          with r b ge 3 have "0xDFFF < r" "r < 0x10000" by linarith+
          then show ?thesis by (simp add: scalar_def)
        qed
      qed
    qed simp
  next
    case 4
    show ?thesis
    proof (cases "r = rune_error")
      case False
      then obtain c1 c2 c3 ds where cs: "cs = c1 # c2 # c3 # ds"
        using assms Cons 4 by (cases cs; cases "tl cs"; cases "tl (tl cs)") auto
      have b: "byte c = 0xF0 \<longrightarrow> 0x90 \<le> byte c1" "byte c = 0xF4 \<longrightarrow> byte c1 \<le> 0x8F"
        "0x80 \<le> byte c1" "byte c1 \<le> 0xBF"
        "0x80 \<le> byte c2" "byte c2 \<le> 0xBF" "0x80 \<le> byte c3" "byte c3 \<le> 0xBF"
        and r: "r = (byte c - 0xF0) * 262144 + (byte c1 - 0x80) * 4096
          + (byte c2 - 0x80) * 64 + (byte c3 - 0x80)"
        using assms Cons 4 cs False by (auto simp: Let_def byte_in_def split: if_splits)
      have "r \<le> 0x10FFFF"
      proof (cases "byte c = 0xF4")
        case True
        with r b show ?thesis by linarith
      next
        case False
        with r b 4 show ?thesis by linarith
      qed
      moreover have "0xDFFF < r"
      proof (cases "byte c = 0xF0")
        case True
        with r b show ?thesis by linarith
      next
        case False
        with r b 4 show ?thesis by linarith
      qed
      ultimately show ?thesis by (simp add: scalar_def)
    qed simp
  next
    case 5
    with assms Cons show ?thesis by (auto simp: Let_def)
  qed
qed

lemma runes_scalar: "list_all scalar (runes s)"
proof (induction s rule: rune_chunks.induct)
  case (1 s)
  obtain r w where rw: "decode_rune s = (r, w)" by (cases "decode_rune s")
  from 1 rw decode_scalar [OF rw] show ?case
    by (cases "s = []") (simp_all add: runes_def rune_chunks.simps [of s])
qed

section \<open>What SanitizeString returns\<close>

definition sanitize_runes :: "nat \<Rightarrow> nat list" where
  "sanitize_runes r =
     (if r = 0x09 \<or> r = 0x0A then [r]
      else if r = 0x0D then []
      else if is_control r then [rune_error]
      else [r])"

lemma encode_rune_error: "encode_rune rune_error = replacement"
  by (simp add: encode_rune_def rune_error_def replacement_def char_of_eq_iff)

lemma sanitize_rune_runes: "sanitize_rune r = concat (map encode_rune (sanitize_runes r))"
  by (auto simp: sanitize_runes_def encode_rune_error)

lemma sanitize_runes_scalar: "scalar r \<Longrightarrow> list_all scalar (sanitize_runes r)"
  by (simp add: sanitize_runes_def)

lemma sanitize_runes_set:
  assumes "r' \<in> set (sanitize_runes r)"
  shows "r' = 0x09 \<or> r' = 0x0A \<or> \<not> is_control r'"
  using assms
  by (auto simp: sanitize_runes_def is_control_def rune_error_def split: if_splits)

lemma sanitize_runes_id:
  assumes "r = 0x09 \<or> r = 0x0A \<or> \<not> is_control r"
  shows "sanitize_runes r = [r]"
  using assms by (auto simp: sanitize_runes_def is_control_def)

lemma SanitizeString_encodes:
  "\<exists>rs. list_all scalar rs \<and> (\<forall>r \<in> set rs. r = 0x09 \<or> r = 0x0A \<or> \<not> is_control r) \<and>
        SanitizeString s = concat (map encode_rune rs)"
proof (cases "s = []")
  case True
  then show ?thesis by (intro exI [of _ "[]"]) (simp add: SanitizeString_def)
next
  case False
  then obtain t where t: "SanitizeString s = concat (map sanitize_rune (runes t))"
    by (auto simp: SanitizeString_def Let_def)
  let ?rs = "concat (map sanitize_runes (runes t))"
  have "concat (map sanitize_rune xs) = concat (map encode_rune (concat (map sanitize_runes xs)))"
    for xs by (induction xs) (simp_all add: sanitize_rune_runes del: sanitize_rune.simps)
  moreover have "list_all scalar ?rs"
    using runes_scalar [of t] sanitize_runes_scalar
    by (auto simp: list_all_iff)
  moreover have "\<forall>r \<in> set ?rs. r = 0x09 \<or> r = 0x0A \<or> \<not> is_control r"
    using sanitize_runes_set by auto
  ultimately show ?thesis using t by metis
qed

text \<open>Without an escape rune the ANSI expression matches nowhere.\<close>

lemma ansi_no_match:
  assumes "\<forall>c \<in> set xs. fst c \<noteq> esc"
  shows "rx_match ansi_escape xs = []"
  using assms by (cases xs) (simp_all add: ansi_escape_def)

lemma ansi_replace_id:
  assumes "\<forall>c \<in> set xs. fst c \<noteq> esc"
  shows "rx_replace ansi_escape rep xs = concat (map snd xs)"
  using assms
proof (induction xs)
  case Nil
  then show ?case by simp
next
  case (Cons c cs)
  then show ?case by (simp add: ansi_no_match)
qed

lemma bad_chunk_encode: "\<not> bad_chunk (r, encode_rune r)"
proof (cases "r = rune_error")
  case True
  then show ?thesis by (simp add: bad_chunk_def encode_rune_error replacement_def)
qed (simp add: bad_chunk_def)

lemma SanitizeString_clean:
  assumes "list_all scalar rs" and "\<forall>r \<in> set rs. r = 0x09 \<or> r = 0x0A \<or> \<not> is_control r"
  shows "SanitizeString (concat (map encode_rune rs)) = concat (map encode_rune rs)"
proof -
  let ?s = "concat (map encode_rune rs)"
  have chunks: "rune_chunks ?s = map (\<lambda>r. (r, encode_rune r)) rs"
    by (rule rune_chunks_encodes [OF assms(1)])
  have "\<forall>c \<in> set (rune_chunks ?s). fst c \<noteq> esc"
    using assms(2) by (auto simp: chunks esc_def is_control_def)
  then have "replace_all_rx ansi_escape [] ?s = ?s"
    by (simp add: replace_all_rx_def ansi_replace_id concat_rune_chunks)
  moreover have "valid_utf8 ?s"
    by (simp add: valid_utf8_def chunks list_all_iff bad_chunk_encode)
  moreover have "concat (map sanitize_rune rs) = ?s"
    using assms(2)
    by (induction rs)
      (simp_all add: sanitize_rune_runes sanitize_runes_id del: sanitize_rune.simps)
  ultimately show ?thesis
    by (simp add: SanitizeString_def runes_encodes [OF assms(1)] del: sanitize_rune.simps)
qed

text \<open>What evaluates \<open>SanitizeString\<close> on a concrete string.\<close>

lemmas sanitize_simps =
  SanitizeString_def replace_all_rx_def rune_chunks_ascii byte_def runes_def ansi_escape_def
  esc_def rx_rune_def valid_utf8_def bad_chunk_def rune_error_def is_control_def
  replacement_def encode_rune_def rune_chunks.simps Let_def byte_in_def char_of_eq_iff

text \<open>
  Sanitizing leaves valid UTF-8 whose only control runes are tab and newline: no
  escape sequence, carriage return or C1 control can reach a client or the log.
\<close>

theorem SanitizeString_controls:
  assumes "r \<in> set (runes (SanitizeString s))"
  shows "r = 0x09 \<or> r = 0x0A \<or> \<not> is_control r"
proof -
  obtain rs where rs: "list_all scalar rs" "\<forall>r \<in> set rs. r = 0x09 \<or> r = 0x0A \<or> \<not> is_control r"
    "SanitizeString s = concat (map encode_rune rs)"
    using SanitizeString_encodes by blast
  then have "runes (SanitizeString s) = rs" by (simp add: runes_encodes)
  with rs(2) assms show ?thesis by blast
qed

theorem SanitizeString_controls_witness:
  "runes (SanitizeString [CHR 0x1B, CHR ''['', CHR ''m'', CHR 0x07, CHR ''a'']) = [0xFFFD, 0x61] \<and>
   \<not> is_control 0xFFFD"
proof -
  have run: "runes (SanitizeString [CHR 0x1B, CHR ''['', CHR ''m'', CHR 0x07, CHR ''a'']) = [0xFFFD, 0x61]"
    by (simp add: SanitizeString_def replace_all_rx_def rune_chunks_ascii byte_def runes_def
        ansi_escape_def esc_def rx_rune_def valid_utf8_def bad_chunk_def rune_error_def
        is_control_def replacement_def encode_rune_def rune_chunks.simps Let_def byte_in_def)
  have "(0xFFFD::nat) = 0x09 \<or> (0xFFFD::nat) = 0x0A \<or> \<not> is_control 0xFFFD"
    by (rule SanitizeString_controls
        [of _ "[CHR 0x1B, CHR ''['', CHR ''m'', CHR 0x07, CHR ''a'']"]) (simp add: run)
  with run show ?thesis by simp
qed

text \<open>
  Sanitizing is idempotent, so a value sanitized at parse time is not altered when a
  handler sanitizes it again, and the parser's test \<open>SanitizeString(x) != x\<close> accepts
  exactly the strings sanitizing can produce.
\<close>

theorem SanitizeString_idem: "SanitizeString (SanitizeString s) = SanitizeString s"
  using SanitizeString_encodes [of s] SanitizeString_clean by metis

section \<open>What Clip returns\<close>

lemma clip_loop_spec:
  assumes "k = length pre" and "k \<le> mx" and "ec \<le> mx"
    and "i = length (concat (map snd pre))"
    and "ec < k \<Longrightarrow> at = length (concat (map snd (take ec pre)))"
  shows "clip_loop s mx ec k at (rune_starts i cs) =
    (if k + length cs \<le> mx then s
     else if mx < 3 then take (length (concat (map snd (take mx (pre @ cs))))) s
     else take (length (concat (map snd (take ec (pre @ cs))))) s @ ''...'')"
  using assms
proof (induction cs arbitrary: k pre i at)
  case Nil
  then show ?case by simp
next
  case (Cons c cs)
  let ?at = "if k = ec then i else at"
  have at: "ec < Suc k \<Longrightarrow> ?at = length (concat (map snd (take ec (pre @ [c]))))"
    using Cons.prems(1,4,5) by (auto simp: less_Suc_eq)
  show ?case
  proof (cases "k = mx")
    case True
    with Cons.prems at show ?thesis by (auto simp: Let_def)
  next
    case False
    with Cons.prems have "Suc k \<le> mx" by simp
    then have "clip_loop s mx ec (Suc k) ?at (rune_starts (i + length (snd c)) cs) =
      (if Suc k + length cs \<le> mx then s
       else if mx < 3 then take (length (concat (map snd (take mx ((pre @ [c]) @ cs))))) s
       else take (length (concat (map snd (take ec ((pre @ [c]) @ cs))))) s @ ''...'')"
      using Cons.prems at by (intro Cons.IH) auto
    with False show ?thesis by (simp add: Let_def)
  qed
qed

lemma take_chunks:
  "take (length (concat (map snd (take n (rune_chunks s))))) s =
   concat (map snd (take n (rune_chunks s)))"
proof -
  have "s = concat (map snd (take n (rune_chunks s))) @ concat (map snd (drop n (rune_chunks s)))"
    by (metis append_take_drop_id concat_append concat_rune_chunks map_append)
  then show ?thesis by (metis append_eq_conv_conj)
qed

lemma Clip_chunks:
  assumes "0 < mx"
  shows "Clip s mx =
    (if int (length (runes s)) \<le> mx then s
     else if mx < 3 then concat (map snd (take (nat mx) (rune_chunks s)))
     else concat (map snd (take (nat mx - 3) (rune_chunks s))) @ ''...'')"
  using assms
    clip_loop_spec [of 0 "[]" "nat mx" "if mx < 3 then nat mx else nat mx - 3" 0 0 s "rune_chunks s"]
  by (auto simp: Clip_def runes_def take_chunks)

text \<open>
  Cutting a string between two of the chunks it decodes to does not change how the kept
  part decodes.
\<close>

lemma decode_rune_cut:
  assumes "decode_rune (a @ b) = (r, w)" and "w \<le> length a" and "a \<noteq> []"
  shows "decode_rune a = (r, w)"
proof -
  from assms(3) obtain c cs where a: "a = c # cs" by (cases a) auto
  consider "byte c < 0xC2 \<or> 0xF5 \<le> byte c"
    | "0xC2 \<le> byte c" "byte c < 0xE0"
    | "0xE0 \<le> byte c" "byte c < 0xF0"
    | "0xF0 \<le> byte c" "byte c < 0xF5" by linarith
  then show ?thesis
  proof cases
    case 1
    with assms a show ?thesis by (auto simp: Let_def)
  next
    case 2
    with assms a show ?thesis
      by (cases cs; cases b) (simp_all add: Let_def split: if_splits)
  next
    case 3
    consider "cs = []" | c1 where "cs = [c1]" | c1 c2 ds where "cs = c1 # c2 # ds"
      by (metis neq_Nil_conv)
    then show ?thesis
    proof cases
      case 1
      with assms a 3 show ?thesis
        by (cases b; cases "tl b") (simp_all add: Let_def split: if_splits)
    next
      case 2
      with assms a 3 show ?thesis by (cases b) (simp_all add: Let_def split: if_splits)
    next
      case c: 3
      with assms a 3 show ?thesis by (simp add: Let_def)
    qed
  next
    case 4
    consider "cs = []" | c1 where "cs = [c1]" | c1 c2 where "cs = [c1, c2]"
      | c1 c2 c3 ds where "cs = c1 # c2 # c3 # ds"
      by (metis neq_Nil_conv)
    then show ?thesis
    proof cases
      case 1
      with assms a 4 show ?thesis
        by (cases b; cases "tl b"; cases "tl (tl b)") (simp_all add: Let_def split: if_splits)
    next
      case 2
      with assms a 4 show ?thesis
        by (cases b; cases "tl b") (simp_all add: Let_def split: if_splits)
    next
      case 3
      with assms a 4 show ?thesis by (cases b) (simp_all add: Let_def split: if_splits)
    next
      case c: 4
      with assms a 4 show ?thesis by (simp add: Let_def)
    qed
  qed
qed

lemma rune_chunks_take:
  "rune_chunks (concat (map snd (take n (rune_chunks s)))) = take n (rune_chunks s)"
proof (induction s arbitrary: n rule: rune_chunks.induct)
  case (1 s)
  show ?case
  proof (cases "s = [] \<or> n = 0")
    case True
    then show ?thesis by auto
  next
    case False
    then obtain m where n: "n = Suc m" and ne: "s \<noteq> []" by (cases n) auto
    obtain r w where rw: "decode_rune s = (r, w)" by (cases "decode_rune s")
    let ?rest = "concat (map snd (take m (rune_chunks (drop w s))))"
    let ?t = "take w s @ ?rest"
    have w: "0 < w" "w \<le> length s" using decode_rune_width [OF ne] rw by simp_all
    let ?more = "concat (map snd (drop m (rune_chunks (drop w s))))"
    have "drop w s = ?rest @ ?more"
      by (metis append_take_drop_id concat_append concat_rune_chunks map_append)
    then have "?t @ ?more = s" by (metis append_assoc append_take_drop_id)
    then have "decode_rune (?t @ ?more) = (r, w)" using rw by simp
    moreover have t: "?t \<noteq> []" "w \<le> length ?t" using w ne by auto
    ultimately have "decode_rune ?t = (r, w)" using decode_rune_cut by blast
    moreover have "take w ?t = take w s" "drop w ?t = ?rest" using w by simp_all
    ultimately have "rune_chunks ?t = (r, take w s) # rune_chunks ?rest"
      using t(1) by (simp add: rune_chunks.simps [of ?t])
    also have "rune_chunks ?rest = take m (rune_chunks (drop w s))"
      using "1.IH" [OF ne rw [symmetric] refl] .
    finally show ?thesis
      using ne rw by (simp add: n rune_chunks.simps [of s])
  qed
qed

lemma runes_append_ascii: "byte c < 0x80 \<Longrightarrow> runes (a @ c # b) = runes a @ byte c # runes b"
  by (simp add: runes_def rune_chunks_append)

text \<open>
  \<open>Clip\<close> never returns more runes than its bound, returns a string within the
  bound unchanged, and otherwise a prefix of it followed by three dots when they fit.
\<close>

theorem Clip_bound:
  "int (length (runes (Clip s mx))) \<le> max 0 mx \<and>
   Clip s mx = (if mx \<le> 0 then [] else if int (length (runes s)) \<le> mx then s
     else if mx < 3 then concat (map snd (take (nat mx) (rune_chunks s)))
     else concat (map snd (take (nat mx - 3) (rune_chunks s))) @ ''...'')"
proof (cases "mx \<le> 0")
  case True
  then show ?thesis by (simp add: Clip_def runes_def)
next
  case False
  have dots: "runes (a @ ''...'') = runes a @ [0x2E, 0x2E, 0x2E]" for a
    using runes_append_ascii [of "CHR ''.''" a "''..''"]
    by (simp add: byte_def runes_def rune_chunks_ascii)
  have "length (runes (concat (map snd (take n (rune_chunks s))))) \<le> n" for n
    by (simp add: runes_def rune_chunks_take)
  from this [of "nat mx"] this [of "nat mx - 3"] False
  have "int (length (runes (Clip s mx))) \<le> mx"
    by (auto simp: Clip_chunks dots)
  with False show ?thesis by (simp add: Clip_chunks)
qed

end
