(* ===== verification/Secrets.thy ===== *)
theory Secrets
  imports Redaction "HOL-Library.Sublist"
begin

text \<open>
  What redaction leaves: the expressions of \<open>RedactSecrets\<close> as languages over decoded runes,
  and the proof that no text they describe survives \<open>SanitizeAndRedact\<close>, whose result holds
  no control rune either.
\<close>

section \<open>The language of an expression\<close>

fun lang :: "rx \<Rightarrow> chunks set" where
  "lang (Cls P) = {[c] | c. P (fst c)}"
| "lang (Star P) = {w. list_all (\<lambda>c. P (fst c)) w}"
| "lang (Opt r) = insert [] (lang r)"
| "lang (Seq r1 r2) = {u @ v | u v. u \<in> lang r1 \<and> v \<in> lang r2}"
| "lang (Alt r1 r2) = lang r1 \<union> lang r2"

lemma star_match_set: "set (star_match P xs) = {z. \<exists>w. xs = w @ z \<and> list_all (\<lambda>c. P (fst c)) w}"
proof (induction xs)
  case Nil
  then show ?case by auto
next
  case (Cons c cs)
  have "(\<exists>w. c # cs = w @ z \<and> list_all (\<lambda>c. P (fst c)) w) \<longleftrightarrow>
      z = c # cs \<or> P (fst c) \<and> (\<exists>w. cs = w @ z \<and> list_all (\<lambda>c. P (fst c)) w)" for z
    by (auto simp: Cons_eq_append_conv)
  with Cons.IH show ?case by auto
qed

text \<open>The matcher returns every rest that a prefix in the language leaves.\<close>

lemma rx_match_set: "set (rx_match r xs) = {z. \<exists>w \<in> lang r. xs = w @ z}"
proof (induction r arbitrary: xs)
  case (Cls P)
  then show ?case by (cases xs) auto
next
  case (Star P)
  then show ?case by (auto simp: star_match_set)
next
  case (Seq r1 r2)
  then show ?case by auto (metis append.assoc)+
qed auto

lemma rx_match_Nil_iff: "rx_match r xs = [] \<longleftrightarrow> (\<forall>w \<in> lang r. \<not> prefix w xs)"
proof -
  have "rx_match r xs = [] \<longleftrightarrow> set (rx_match r xs) = {}" by simp
  also have "\<dots> \<longleftrightarrow> (\<forall>w \<in> lang r. \<not> prefix w xs)" unfolding rx_match_set by (auto simp: prefix_def)
  finally show ?thesis .
qed

section \<open>Keys and values\<close>

definition bracket :: "nat \<Rightarrow> bool" where
  "bracket r \<longleftrightarrow> r = byte CHR ''['' \<or> r = byte CHR '']''"

definition separator :: "nat \<Rightarrow> bool" where
  "separator r \<longleftrightarrow> r = byte CHR '':'' \<or> r = byte CHR ''=''"

text \<open>
  Every secret expression is a key, which holds a separator, and a value, one or more
  non-blank runes. Keys begin with a rune that is not blank and hold no bracket.
\<close>

definition wordy :: "chunks \<Rightarrow> bool" where
  "wordy w \<longleftrightarrow> w \<noteq> [] \<and> \<not> is_blank (fst (hd w)) \<and> list_all (\<lambda>c. \<not> bracket (fst c)) w"

definition key_like :: "chunks \<Rightarrow> bool" where
  "key_like w \<longleftrightarrow> wordy w \<and> list_ex (\<lambda>c. separator (fst c)) w"

definition keyed :: "chunks set \<Rightarrow> rx \<Rightarrow> bool" where
  "keyed K r \<longleftrightarrow> lang r = {w @ v | w v. w \<in> K \<and> v \<in> lang rx_nonblanks} \<and> (\<forall>w \<in> K. key_like w)"

text \<open>A key of \<open>K\<close> with a value stands at the head of a text.\<close>

definition at_head :: "chunks set \<Rightarrow> chunks \<Rightarrow> bool" where
  "at_head K xs \<longleftrightarrow> (\<exists>w \<in> K. \<exists>c z. xs = w @ c # z \<and> \<not> is_blank (fst c))"

lemma lang_nonblanks: "v \<in> lang rx_nonblanks \<longleftrightarrow> v \<noteq> [] \<and> list_all (\<lambda>c. \<not> is_blank (fst c)) v"
proof (cases v)
  case Nil
  then show ?thesis by (simp add: rx_nonblanks_def)
next
  case (Cons c cs)
  have "v \<in> lang rx_nonblanks \<longleftrightarrow>
      (\<exists>u t. c # cs = u @ t \<and> (\<exists>d. u = [d] \<and> \<not> is_blank (fst d)) \<and> list_all (\<lambda>c. \<not> is_blank (fst c)) t)"
    by (simp add: rx_nonblanks_def Cons)
  also have "\<dots> \<longleftrightarrow> \<not> is_blank (fst c) \<and> list_all (\<lambda>c. \<not> is_blank (fst c)) cs"
    by (metis append_Cons append_Nil list.inject)
  finally show ?thesis by (simp add: Cons)
qed

lemma keyed_match:
  assumes "keyed K r"
  shows "rx_match r xs \<noteq> [] \<longleftrightarrow> at_head K xs"
proof -
  have "rx_match r xs \<noteq> [] \<longleftrightarrow> (\<exists>w \<in> K. \<exists>v \<in> lang rx_nonblanks. prefix (w @ v) xs)"
    unfolding rx_match_Nil_iff using assms by (simp add: keyed_def) blast
  also have "\<dots> \<longleftrightarrow> at_head K xs"
  proof
    assume "\<exists>w \<in> K. \<exists>v \<in> lang rx_nonblanks. prefix (w @ v) xs"
    then obtain w v z where w: "w \<in> K" "v \<in> lang rx_nonblanks" "xs = (w @ v) @ z"
      by (auto simp: prefix_def)
    from w(2) obtain c t where "v = c # t" "\<not> is_blank (fst c)"
      by (cases v) (auto simp: lang_nonblanks)
    with w have "xs = w @ c # (t @ z)" "\<not> is_blank (fst c)" by simp_all
    with w(1) show "at_head K xs" unfolding at_head_def by blast
  next
    assume "at_head K xs"
    then obtain w c z where w: "w \<in> K" "xs = w @ c # z" "\<not> is_blank (fst c)"
      unfolding at_head_def by blast
    then have "[c] \<in> lang rx_nonblanks" "prefix (w @ [c]) xs" by (simp_all add: lang_nonblanks)
    with w(1) show "\<exists>w \<in> K. \<exists>v \<in> lang rx_nonblanks. prefix (w @ v) xs" by blast
  qed
  finally show ?thesis .
qed

section \<open>Replacing\<close>

definition mark :: chunks where
  "mark = map (\<lambda>c. (byte c, [c])) redacted"

lemma mark_simps:
  "map snd mark = map (\<lambda>c. [c]) redacted" "concat (map snd mark) = redacted"
  by (simp_all add: mark_def comp_def redacted_def)

text \<open>
  One pass: chunks where nothing matches are kept, and a matched segment, which begins with a
  rune that is not blank, becomes the mark.
\<close>

inductive marked :: "chunks set \<Rightarrow> chunks \<Rightarrow> chunks \<Rightarrow> bool" for K where
  over: "marked K [] []"
| keep: "\<not> at_head K (c # xs) \<Longrightarrow> marked K xs ys \<Longrightarrow> marked K (c # xs) (c # ys)"
| cut: "\<not> is_blank (fst c) \<Longrightarrow> marked K rest ys \<Longrightarrow> marked K (c # seg @ rest) (mark @ ys)"

lemma mark_Cons: "\<exists>m. mark = (byte CHR ''['', ''['') # m"
  by (simp add: mark_def redacted_def)

lemma rx_replace_marked:
  assumes "keyed K r"
  shows "\<exists>ys. marked K xs ys \<and> rx_replace r redacted xs = concat (map snd ys)"
proof (induction "length xs" arbitrary: xs rule: less_induct)
  case less
  show ?case
  proof (cases xs)
    case Nil
    then show ?thesis using over by (intro exI [of _ "[]"]) simp
  next
    case (Cons c cs)
    show ?thesis
    proof (cases "rx_match r (c # cs)")
      case Nil
      then have "\<not> at_head K (c # cs)" using keyed_match [OF assms, of "c # cs"] by simp
      moreover obtain ys where "marked K cs ys" "rx_replace r redacted cs = concat (map snd ys)"
        using less [of cs] Cons by auto
      ultimately show ?thesis
        using Nil Cons by (intro exI [of _ "c # ys"]) (simp add: keep)
    next
      case (Cons rest more)
      then have "rest \<in> set (rx_match r (c # cs))" by simp
      then obtain w v where w: "w \<in> K" "v \<in> lang rx_nonblanks" "c # cs = (w @ v) @ rest"
        using assms by (auto simp: rx_match_set keyed_def)
      have "wordy w" using assms w(1) by (auto simp: keyed_def key_like_def)
      then obtain seg where seg: "w @ v = c # seg" "\<not> is_blank (fst c)"
        using w(3) by (cases w) (auto simp: wordy_def)
      with w(3) have cs: "cs = seg @ rest" by simp
      then have "length rest < length xs" using \<open>xs = c # cs\<close> by simp
      then obtain ys where ys: "marked K rest ys" "rx_replace r redacted rest = concat (map snd ys)"
        using less by blast
      have "marked K xs (mark @ ys)" unfolding \<open>xs = c # cs\<close> cs by (rule cut [OF seg(2) ys(1)])
      moreover have "rx_replace r redacted xs = concat (map snd (mark @ ys))"
        using Cons ys(2) cs \<open>xs = c # cs\<close> by (simp add: mark_simps)
      ultimately show ?thesis by blast
    qed
  qed
qed

lemma marked_plain:
  assumes "marked K xs (d # ys)" and "\<not> bracket (fst d)"
  shows "\<exists>xs'. xs = d # xs' \<and> \<not> at_head K xs \<and> marked K xs' ys"
  using assms(1)
proof (cases rule: marked.cases)
  case (cut c rest ys' seg)
  obtain m where m: "mark = (byte CHR ''['', ''['') # m" using mark_Cons by blast
  from cut have "d = (byte CHR ''['', ''['')" by (simp add: m)
  with assms(2) show ?thesis by (simp add: bracket_def)
qed auto

lemma marked_nonblank:
  assumes "marked K xs (d # ys)" and "\<not> is_blank (fst d)"
  shows "\<exists>c y. xs = c # y \<and> \<not> is_blank (fst c)"
  using assms(1)
proof (cases rule: marked.cases)
  case keep
  then show ?thesis using assms(2) by blast
next
  case (cut c rest ys' seg)
  then show ?thesis by blast
qed

text \<open>What stands in the result before a rune that is not blank stood in the text.\<close>

lemma marked_reflects:
  assumes "marked K xs (w @ d # z)" and "list_all (\<lambda>c. \<not> bracket (fst c)) w" and "\<not> is_blank (fst d)"
  shows "\<exists>c y. xs = w @ c # y \<and> \<not> is_blank (fst c)"
  using assms
proof (induction w arbitrary: xs)
  case Nil
  then have "marked K xs (d # z)" by simp
  from marked_nonblank [OF this Nil.prems(3)] show ?case by simp
next
  case (Cons a w)
  then have "marked K xs (a # (w @ d # z))" "\<not> bracket (fst a)" by simp_all
  from marked_plain [OF this] obtain xs' where "xs = a # xs'" "marked K xs' (w @ d # z)" by blast
  with Cons.IH [of xs'] Cons.prems(2,3) show ?case by auto
qed

text \<open>A suffix of the result comes from a suffix of the text, or begins inside a mark.\<close>

lemma marked_suffix:
  assumes "marked K xs ys" and "suffix zs ys"
  shows "(\<exists>xs'. suffix xs' xs \<and> marked K xs' zs) \<or> (\<exists>t ys'. zs = t @ ys' \<and> t \<noteq> [] \<and> suffix t mark)"
  using assms
proof (induction rule: marked.induct)
  case over
  then show ?case using marked.over by (intro disjI1 exI [of _ "[]"]) simp
next
  case (keep c xs ys)
  show ?case
  proof (cases "zs = c # ys")
    case True
    with keep.hyps have "marked K (c # xs) zs" by (simp add: marked.keep)
    then show ?thesis by blast
  next
    case False
    with keep.prems have "suffix zs ys" by (simp add: suffix_Cons)
    with keep.IH show ?thesis by (meson suffix_ConsI)
  qed
next
  case (cut c rest ys seg)
  have "suffix zs ys \<or> (\<exists>t. zs = t @ ys \<and> suffix t mark)"
    using cut.prems by (simp only: suffix_append)
  then consider "suffix zs ys" | t where "zs = t @ ys" "t \<noteq> []" "suffix t mark"
    by fastforce
  then show ?case
  proof cases
    case 1
    with cut.IH show ?thesis by (meson suffix_ConsI suffix_appendI)
  next
    case 2
    then show ?thesis by blast
  qed
qed

lemma mark_no_separator: "list_all (\<lambda>c. \<not> separator (fst c)) mark"
  by (simp add: mark_def redacted_def separator_def byte_def)

lemma mark_last: "t \<noteq> [] \<Longrightarrow> suffix t mark \<Longrightarrow> bracket (fst (last t))"
proof -
  assume "t \<noteq> []" "suffix t mark"
  then have "last t = last mark" by (metis last_appendR suffix_def)
  then show ?thesis by (simp add: mark_def redacted_def bracket_def)
qed

text \<open>No key begins inside a mark: it would have to reach past the closing bracket.\<close>

lemma mark_no_key:
  assumes "t \<noteq> []" and "suffix t mark" and "key_like w" and "t @ ys = w @ z"
  shows False
proof -
  from assms(4) consider u where "t = w @ u" | u where "w = t @ u"
    by (auto simp: append_eq_append_conv2)
  then show False
  proof cases
    case 1
    have "list_all (\<lambda>c. \<not> separator (fst c)) t"
      using assms(2) mark_no_separator by (metis list_all_append suffix_def)
    with 1 assms(3) show False by (auto simp: key_like_def list_all_iff list_ex_iff)
  next
    case 2
    then have "last t \<in> set w" using assms(1) by simp
    with assms(3) mark_last [OF assms(1,2)] show False
      by (auto simp: key_like_def wordy_def list_all_iff)
  qed
qed

definition clean_of :: "chunks set \<Rightarrow> chunks \<Rightarrow> bool" where
  "clean_of K xs \<longleftrightarrow> (\<forall>zs. suffix zs xs \<longrightarrow> \<not> at_head K zs)"

text \<open>A pass leaves no match of its own and makes none of another expression.\<close>

lemma marked_clean:
  assumes "marked K xs ys" and "\<forall>w \<in> K. key_like w"
  shows "clean_of K ys"
  unfolding clean_of_def
proof (intro allI impI notI)
  fix zs assume zs: "suffix zs ys" "at_head K zs"
  then obtain w d z where w: "w \<in> K" "zs = w @ d # z" "\<not> is_blank (fst d)"
    by (auto simp: at_head_def)
  then have key: "key_like w" using assms(2) by blast
  from marked_suffix [OF assms(1) zs(1)] show False
  proof (elim disjE exE conjE)
    fix xs' assume xs': "marked K xs' zs"
    from key have plain: "list_all (\<lambda>c. \<not> bracket (fst c)) w" by (simp add: key_like_def wordy_def)
    obtain a v where a: "w = a # v" using key by (cases w) (auto simp: key_like_def wordy_def)
    from marked_reflects [OF xs' [unfolded w(2)] plain w(3)] w(1) have "at_head K xs'"
      by (auto simp: at_head_def)
    moreover from marked_plain [OF xs' [unfolded w(2) a append_Cons]] plain have "\<not> at_head K xs'"
      by (auto simp: a)
    ultimately show False by simp
  next
    fix t ys' assume t: "zs = t @ ys'" "t \<noteq> []" "suffix t mark"
    show False by (rule mark_no_key [OF t(2,3) key, of ys' "d # z"]) (use t(1) w(2) in simp)
  qed
qed

lemma marked_keeps_clean:
  assumes "marked K xs ys" and "\<forall>w \<in> L. key_like w" and "clean_of L xs"
  shows "clean_of L ys"
  unfolding clean_of_def
proof (intro allI impI notI)
  fix zs assume zs: "suffix zs ys" "at_head L zs"
  then obtain w d z where w: "w \<in> L" "zs = w @ d # z" "\<not> is_blank (fst d)"
    by (auto simp: at_head_def)
  then have key: "key_like w" using assms(2) by blast
  from marked_suffix [OF assms(1) zs(1)] show False
  proof (elim disjE exE conjE)
    fix xs' assume xs': "suffix xs' xs" "marked K xs' zs"
    from key have "list_all (\<lambda>c. \<not> bracket (fst c)) w" by (simp add: key_like_def wordy_def)
    from marked_reflects [OF xs'(2) [unfolded w(2)] this w(3)] w(1) have "at_head L xs'"
      by (auto simp: at_head_def)
    with assms(3) xs'(1) show False by (auto simp: clean_of_def)
  next
    fix t ys' assume t: "zs = t @ ys'" "t \<noteq> []" "suffix t mark"
    show False by (rule mark_no_key [OF t(2,3) key, of ys' "d # z"]) (use t(1) w(2) in simp)
  qed
qed


section \<open>The expressions of the program\<close>

definition folds_to :: "char \<Rightarrow> nat \<Rightarrow> bool" where
  "folds_to c r \<longleftrightarrow> r = byte c \<or> (byte_in 0x61 0x7A c \<and> r + 0x20 = byte c)
     \<or> (c = CHR ''k'' \<and> r = 0x212A) \<or> (c = CHR ''s'' \<and> r = 0x17F)"

lemma lang_fold: "w \<in> lang (rx_fold c) \<longleftrightarrow> (\<exists>x. w = [x] \<and> folds_to c (fst x))"
  by (simp add: rx_fold_def folds_to_def)

lemma lang_word: "s \<noteq> [] \<Longrightarrow> w \<in> lang (rx_word s) \<Longrightarrow> list_all2 (\<lambda>c x. folds_to c (fst x)) s w"
proof (induction s arbitrary: w rule: rx_word.induct)
  case (2 c)
  then show ?case by (auto simp: lang_fold simp del: lang.simps)
next
  case (3 c d cs)
  from 3(3) obtain u v where uv: "w = u @ v" "u \<in> lang (rx_fold c)" "v \<in> lang (rx_word (d # cs))" by auto
  from uv(2) obtain x where x: "u = [x]" "folds_to c (fst x)" by (auto simp: lang_fold)
  have "list_all2 (\<lambda>c x. folds_to c (fst x)) (d # cs) v" by (rule 3(1) [OF _ uv(3)]) simp
  with uv(1) x show ?case by simp
qed simp

definition plain_char :: "char \<Rightarrow> bool" where
  "plain_char c \<longleftrightarrow> \<not> bracket (byte c) \<and> \<not> is_blank (byte c)"

lemma folds_to_plain: "folds_to c r \<Longrightarrow> plain_char c \<Longrightarrow> \<not> bracket r \<and> \<not> is_blank r"
  by (auto simp: folds_to_def plain_char_def bracket_def is_blank_def byte_in_def byte_def)

lemma wordy_word:
  assumes "w \<in> lang (rx_word s)" and "s \<noteq> []" and "list_all plain_char s"
  shows "wordy w"
proof -
  from lang_word [OF assms(2,1)] have "list_all2 (\<lambda>c x. folds_to c (fst x)) s w" .
  then have "length w = length s" "list_all (\<lambda>x. \<not> bracket (fst x) \<and> \<not> is_blank (fst x)) w"
    using assms(3) by (induction rule: list_all2_induct) (auto dest: folds_to_plain)
  with assms(2) show ?thesis by (cases w) (auto simp: wordy_def list_all_iff)
qed

lemma separator_word:
  assumes "w \<in> lang (rx_word s)" and "s \<noteq> []" and "list_ex (\<lambda>c. separator (byte c)) s"
  shows "list_ex (\<lambda>x. separator (fst x)) w"
proof -
  have sep: "folds_to c r \<Longrightarrow> separator (byte c) \<Longrightarrow> separator r" for c r
    by (auto simp: folds_to_def separator_def byte_in_def byte_def)
  from lang_word [OF assms(2,1)] have "list_all2 (\<lambda>c x. folds_to c (fst x)) s w" .
  then show ?thesis using assms(3) by (induction rule: list_all2_induct) (auto dest: sep)
qed

lemma wordy_append: "wordy u \<Longrightarrow> list_all (\<lambda>c. \<not> bracket (fst c)) v \<Longrightarrow> wordy (u @ v)"
  by (simp add: wordy_def)

lemma wordy_append2: "wordy u \<Longrightarrow> wordy v \<Longrightarrow> wordy (u @ v)"
  by (simp add: wordy_def)

lemma blank_no_bracket: "list_all (\<lambda>c. is_blank (fst c)) w \<Longrightarrow> list_all (\<lambda>c. \<not> bracket (fst c)) w"
  by (auto simp: list_all_iff is_blank_def bracket_def byte_def)

lemma lang_Seq_assoc: "lang (Seq a (Seq b c)) = lang (Seq (Seq a b) c)"
  by (simp, safe) (metis append.assoc)+

lemma keyed_Seq:
  assumes "\<And>w. w \<in> lang k \<Longrightarrow> key_like w"
  shows "keyed (lang k) (Seq k rx_nonblanks)"
  using assms by (auto simp: keyed_def)

lemma lang_sep: "w \<in> lang rx_sep \<Longrightarrow> list_all (\<lambda>c. \<not> bracket (fst c)) w"
  by (auto simp: rx_sep_def bracket_def byte_def)

definition unbracketed :: "chunks set \<Rightarrow> bool" where
  "unbracketed L \<longleftrightarrow> (\<forall>w \<in> L. list_all (\<lambda>c. \<not> bracket (fst c)) w)"

definition all_wordy :: "chunks set \<Rightarrow> bool" where
  "all_wordy L \<longleftrightarrow> (\<forall>w \<in> L. wordy w)"

lemma unbracketed_intros:
  "all_wordy L \<Longrightarrow> unbracketed L"
  "unbracketed (lang rx_sep)"
  "unbracketed (lang (Star is_blank))"
  "unbracketed (lang a) \<Longrightarrow> unbracketed (lang b) \<Longrightarrow> unbracketed (lang (Seq a b))"
  by (auto simp: unbracketed_def all_wordy_def wordy_def dest: lang_sep intro: blank_no_bracket)

lemma all_wordy_intros:
  "all_wordy (lang a) \<Longrightarrow> unbracketed (lang b) \<Longrightarrow> all_wordy (lang (Seq a b))"
  "all_wordy (lang a) \<Longrightarrow> all_wordy (lang b) \<Longrightarrow> all_wordy (lang (Alt a b))"
  by (auto simp: unbracketed_def all_wordy_def wordy_append)

lemma all_wordy_word:
  "s \<noteq> [] \<Longrightarrow> list_all plain_char s \<Longrightarrow> all_wordy (lang (rx_word s))"
  by (simp add: all_wordy_def wordy_word)

lemma all_wordy_words:
  "all_wordy (lang (rx_word ''password''))" "all_wordy (lang (rx_word ''passwd''))"
  "all_wordy (lang (rx_word ''secret''))" "all_wordy (lang (rx_word ''token''))"
  "all_wordy (lang (rx_word ''access''))" "all_wordy (lang (rx_word ''key''))"
  "all_wordy (lang (rx_word ''aws_secret_access_key=''))"
  "all_wordy (lang (rx_word ''b2_account_key=''))"
  "all_wordy (lang (rx_word ''restic_password=''))"
  "all_wordy (lang (rx_word ''authorization:''))"
  by (rule all_wordy_word; simp add: plain_char_def bracket_def is_blank_def byte_def)+

lemma all_wordy_secret_key: "all_wordy (lang secret_key)"
  unfolding secret_key_def
  by (intro all_wordy_intros unbracketed_intros all_wordy_words)

definition separated :: "chunks set \<Rightarrow> bool" where
  "separated L \<longleftrightarrow> (\<forall>w \<in> L. list_ex (\<lambda>c. separator (fst c)) w)"

lemma separated_intros:
  "separated (lang a) \<Longrightarrow> separated (lang (Seq a b))"
  "separated (lang b) \<Longrightarrow> separated (lang (Seq a b))"
  by (auto simp: separated_def)

lemma separated_words:
  "separated (lang (rx_word ''aws_secret_access_key=''))"
  "separated (lang (rx_word ''b2_account_key=''))"
  "separated (lang (rx_word ''restic_password=''))"
  "separated (lang (rx_word ''authorization:''))"
  unfolding separated_def
  by (rule ballI, erule separator_word; simp add: separator_def byte_def)+

lemma keyed_key:
  assumes "all_wordy (lang k)" and "separated (lang k)"
  shows "keyed (lang k) (Seq k rx_nonblanks)"
  by (rule keyed_Seq) (use assms in \<open>simp add: key_like_def all_wordy_def separated_def\<close>)

definition rx_separator :: rx where
  "rx_separator = Cls (\<lambda>r. r = byte CHR '':'' \<or> r = byte CHR ''='')"

lemma rx_separator_facts:
  "separated (lang rx_separator)" "unbracketed (lang rx_separator)"
  by (auto simp: separated_def unbracketed_def rx_separator_def separator_def bracket_def byte_def)

lemma keyed_lang: "lang r = lang r' \<Longrightarrow> keyed K r' \<Longrightarrow> keyed K r"
  by (simp add: keyed_def)

text \<open>The keys of the five expressions.\<close>

definition secret_keys :: "rx list" where
  "secret_keys =
     [Seq (Seq (Seq secret_key (Star is_blank)) rx_separator) (Star is_blank),
      rx_word ''aws_secret_access_key='', rx_word ''b2_account_key='',
      rx_word ''restic_password='', Seq (rx_word ''authorization:'') (Star is_blank)]"

lemma secret_patterns_keyed:
  "list_all2 (\<lambda>k r. keyed (lang k) r) secret_keys secret_patterns"
proof -
  let ?k = "Seq (Seq (Seq secret_key (Star is_blank)) rx_separator) (Star is_blank)"
  have "keyed (lang ?k) (Seq ?k rx_nonblanks)"
    by (rule keyed_key)
      (intro all_wordy_intros unbracketed_intros all_wordy_secret_key rx_separator_facts,
       rule separated_intros(1), rule separated_intros(2), rule rx_separator_facts)
  then have 1: "keyed (lang ?k) (Seq secret_key (Seq (Star is_blank)
      (Seq rx_separator (Seq (Star is_blank) rx_nonblanks))))"
    by (rule keyed_lang [rotated]) (simp only: lang_Seq_assoc)
  let ?a = "Seq (rx_word ''authorization:'') (Star is_blank)"
  have "keyed (lang ?a) (Seq ?a rx_nonblanks)"
    by (rule keyed_key)
      (intro all_wordy_intros unbracketed_intros all_wordy_words,
       rule separated_intros(1), rule separated_words)
  then have 5: "keyed (lang ?a) (Seq (rx_word ''authorization:'') (Seq (Star is_blank) rx_nonblanks))"
    by (rule keyed_lang [rotated]) (simp only: lang_Seq_assoc)
  show ?thesis
    unfolding secret_keys_def secret_patterns_def rx_separator_def [symmetric]
    by (simp only: list_all2_Cons list_all2_Nil 1 5 keyed_key all_wordy_words separated_words simp_thms)
qed

section \<open>What redaction leaves\<close>

definition tidy :: "nat \<Rightarrow> bool" where
  "tidy r \<longleftrightarrow> r = 0x09 \<or> r = 0x0A \<or> \<not> is_control r"

definition tidy_chunk :: "nat \<times> string \<Rightarrow> bool" where
  "tidy_chunk c \<longleftrightarrow> scalar (fst c) \<and> snd c = encode_rune (fst c) \<and> tidy (fst c)"

text \<open>An expression occurs in a text when it matches at one of its runes.\<close>

definition rx_occurs :: "rx \<Rightarrow> string \<Rightarrow> bool" where
  "rx_occurs r s \<longleftrightarrow> list_ex (\<lambda>xs. rx_match r xs \<noteq> []) (suffixes (rune_chunks s))"

lemma tidy_text:
  assumes "list_all tidy_chunk ys"
  shows "concat (map snd ys) = concat (map encode_rune (map fst ys))"
  using assms by (induction ys) (simp_all add: tidy_chunk_def)

lemma tidy_chunks:
  assumes "list_all tidy_chunk ys"
  shows "rune_chunks (concat (map snd ys)) = ys"
proof -
  have "list_all scalar (map fst ys)"
    using assms by (induction ys) (simp_all add: tidy_chunk_def)
  then have "rune_chunks (concat (map snd ys)) = map (\<lambda>r. (r, encode_rune r)) (map fst ys)"
    unfolding tidy_text [OF assms] by (rule rune_chunks_encodes)
  also have "\<dots> = ys"
    using assms by (induction ys) (auto simp: tidy_chunk_def prod_eq_iff)
  finally show ?thesis .
qed

lemma tidy_sanitized:
  assumes "list_all tidy_chunk ys"
  shows "SanitizeString (concat (map snd ys)) = concat (map snd ys)"
  unfolding tidy_text [OF assms]
  by (rule SanitizeString_clean)
    (use assms in \<open>auto simp: list_all_iff tidy_chunk_def tidy_def\<close>)

lemma sanitized_tidy: "\<exists>xs. list_all tidy_chunk xs \<and> SanitizeString s = concat (map snd xs)"
proof -
  obtain rs where rs: "list_all scalar rs" "\<forall>r \<in> set rs. r = 0x09 \<or> r = 0x0A \<or> \<not> is_control r"
    "SanitizeString s = concat (map encode_rune rs)"
    using SanitizeString_encodes by blast
  then show ?thesis
    by (intro exI [of _ "map (\<lambda>r. (r, encode_rune r)) rs"])
      (auto simp: list_all_iff tidy_chunk_def tidy_def comp_def)
qed

lemma encode_ascii: "byte c < 0x80 \<Longrightarrow> encode_rune (byte c) = [c]"
  by (simp add: encode_rune_def byte_def)

lemma mark_tidy: "list_all tidy_chunk mark"
proof -
  have "list_all (\<lambda>c. 0x20 \<le> byte c \<and> byte c < 0x7F) redacted"
    by (simp add: redacted_def byte_def)
  then have "list_all (\<lambda>c. tidy_chunk (byte c, [c])) redacted"
    by (rule list.pred_mono_strong)
      (auto simp: tidy_chunk_def tidy_def scalar_def encode_ascii is_control_def)
  then show ?thesis by (simp add: mark_def list.pred_map comp_def)
qed

lemma marked_tidy: "marked K xs ys \<Longrightarrow> list_all tidy_chunk xs \<Longrightarrow> list_all tidy_chunk ys"
  by (induction rule: marked.induct) (simp_all add: mark_tidy)

text \<open>The five passes, one after the other.\<close>

definition key_set :: "chunks set \<Rightarrow> bool" where
  "key_set K \<longleftrightarrow> (\<forall>w \<in> K. key_like w)"

lemma redact_passes:
  assumes "list_all2 (\<lambda>k r. keyed (lang k) r) ks rs" and "list_all tidy_chunk xs"
    and "list_all (\<lambda>k. key_set (lang k) \<and> clean_of (lang k) xs) ks0"
  shows "\<exists>ys. list_all tidy_chunk ys \<and> list_all (\<lambda>k. clean_of (lang k) ys) (ks0 @ ks) \<and>
    fold (\<lambda>re out. replace_all_rx re redacted out) rs (concat (map snd xs)) = concat (map snd ys)"
  using assms
proof (induction arbitrary: xs ks0 rule: list_all2_induct)
  case Nil
  then show ?case by (intro exI [of _ xs]) (auto simp: list_all_iff)
next
  case (Cons k ks r rs)
  have key: "key_set (lang k)" using Cons.hyps(1) by (simp add: keyed_def key_set_def)
  obtain ys where ys: "marked (lang k) xs ys" "rx_replace r redacted xs = concat (map snd ys)"
    using rx_replace_marked [OF Cons.hyps(1)] by blast
  have tidy: "list_all tidy_chunk ys" by (rule marked_tidy [OF ys(1) Cons.prems(1)])
  have "clean_of (lang k) ys" by (rule marked_clean [OF ys(1) key [unfolded key_set_def]])
  moreover have "list_all (\<lambda>k. key_set (lang k) \<and> clean_of (lang k) ys) ks0"
    using Cons.prems(2) marked_keeps_clean [OF ys(1)] by (simp add: list_all_iff key_set_def)
  ultimately have "list_all (\<lambda>k. key_set (lang k) \<and> clean_of (lang k) ys) (ks0 @ [k])"
    using key by simp
  from Cons.IH [OF tidy this] obtain zs where zs: "list_all tidy_chunk zs"
    "list_all (\<lambda>k. clean_of (lang k) zs) ((ks0 @ [k]) @ ks)"
    "fold (\<lambda>re out. replace_all_rx re redacted out) rs (concat (map snd ys)) = concat (map snd zs)"
    by blast
  have "replace_all_rx r redacted (concat (map snd xs)) = concat (map snd ys)"
    by (simp add: replace_all_rx_def tidy_chunks [OF Cons.prems(1)] ys(2))
  with zs show ?case by (intro exI [of _ zs]) simp
qed

lemma clean_no_match:
  assumes "keyed K r" and "clean_of K xs" and "suffix zs xs"
  shows "rx_match r zs = []"
  using assms keyed_match [OF assms(1), of zs] by (auto simp: clean_of_def)

lemma rx_replace_id:
  assumes "\<And>zs. suffix zs xs \<Longrightarrow> rx_match r zs = []"
  shows "rx_replace r rep xs = concat (map snd xs)"
  using assms
proof (induction xs)
  case (Cons c cs)
  then have "rx_match r (c # cs) = []" by simp
  moreover have "rx_replace r rep cs = concat (map snd cs)"
    using Cons by (meson suffix_ConsI)
  ultimately show ?case by simp
qed simp

lemma SanitizeAndRedact_chunks:
  "\<exists>ys. list_all tidy_chunk ys \<and> SanitizeAndRedact s = concat (map snd ys) \<and>
        list_all (\<lambda>r. \<forall>zs. suffix zs ys \<longrightarrow> rx_match r zs = []) secret_patterns"
proof -
  obtain xs where xs: "list_all tidy_chunk xs" "SanitizeString s = concat (map snd xs)"
    using sanitized_tidy by blast
  from redact_passes [OF secret_patterns_keyed xs(1), of "[]"] obtain ys where
    ys: "list_all tidy_chunk ys" "list_all (\<lambda>k. clean_of (lang k) ys) secret_keys"
    "fold (\<lambda>re out. replace_all_rx re redacted out) secret_patterns (concat (map snd xs)) = concat (map snd ys)"
    by auto
  have "list_all (\<lambda>r. \<forall>zs. suffix zs ys \<longrightarrow> rx_match r zs = []) secret_patterns"
    using secret_patterns_keyed ys(2)
    by (induction rule: list_all2_induct) (auto intro: clean_no_match)
  with ys(1,3) show ?thesis
    by (intro exI [of _ ys]) (simp add: SanitizeAndRedact_def RedactSecrets_def xs(2))
qed

lemma RedactSecrets_id:
  assumes "list_all tidy_chunk ys"
    and "list_all (\<lambda>r. \<forall>zs. suffix zs ys \<longrightarrow> rx_match r zs = []) secret_patterns"
  shows "RedactSecrets (concat (map snd ys)) = concat (map snd ys)"
proof -
  have "fold (\<lambda>re out. replace_all_rx re redacted out) rs (concat (map snd ys)) = concat (map snd ys)"
    if "list_all (\<lambda>r. \<forall>zs. suffix zs ys \<longrightarrow> rx_match r zs = []) rs" for rs
    using that
    by (induction rs) (simp_all add: replace_all_rx_def tidy_chunks [OF assms(1)] rx_replace_id)
  from this [OF assms(2)] show ?thesis by (simp add: RedactSecrets_def)
qed

text \<open>
  C18. What \<open>SanitizeAndRedact\<close> returns is safe to show: no rune of it is a control rune but
  tab and newline, none of the five secret expressions occurs anywhere in it, even across
  two replacements, and redacting it again changes nothing.
\<close>

theorem redacted_clean:
  "list_all tidy (runes (SanitizeAndRedact s)) \<and>
   list_all (\<lambda>r. \<not> rx_occurs r (SanitizeAndRedact s)) secret_patterns \<and>
   SanitizeAndRedact (SanitizeAndRedact s) = SanitizeAndRedact s"
proof -
  obtain ys where ys: "list_all tidy_chunk ys" "SanitizeAndRedact s = concat (map snd ys)"
    "list_all (\<lambda>r. \<forall>zs. suffix zs ys \<longrightarrow> rx_match r zs = []) secret_patterns"
    using SanitizeAndRedact_chunks by blast
  have "list_all tidy (runes (SanitizeAndRedact s))"
    using ys(1) by (auto simp: ys(2) runes_def tidy_chunks list_all_iff tidy_chunk_def)
  moreover have "list_all (\<lambda>r. \<not> rx_occurs r (SanitizeAndRedact s)) secret_patterns"
    using ys(3) by (simp add: ys(2) rx_occurs_def tidy_chunks [OF ys(1)] list_all_iff list_ex_iff)
  moreover have "SanitizeAndRedact (SanitizeAndRedact s) = SanitizeAndRedact s"
    using RedactSecrets_id [OF ys(1,3)] tidy_sanitized [OF ys(1)]
    by (simp add: SanitizeAndRedact_def [of "concat (map snd ys)"] ys(2))
  ultimately show ?thesis by blast
qed

end
