(* ===== verification/Commands.thy ===== *)
theory Commands
  imports Policy
begin

text \<open>
  \<open>internal/restic/commands.go\<close>: the closed set of restic subcommands, the builders of
  their argument vectors and the check every vector passes before a process is started.
  The builders return plain errors (\<open>fmt.Errorf\<close>); callers wrap them.
\<close>

section \<open>Subcommands and snapshot ids\<close>

definition CmdVersion :: string where "CmdVersion = ''version''"
definition CmdSnapshots :: string where "CmdSnapshots = ''snapshots''"
definition CmdLS :: string where "CmdLS = ''ls''"
definition CmdFind :: string where "CmdFind = ''find''"
definition CmdStats :: string where "CmdStats = ''stats''"

lemmas cmd_names = CmdVersion_def CmdSnapshots_def CmdLS_def CmdFind_def CmdStats_def

definition allowed_subcommands :: "string list" where
  "allowed_subcommands = [CmdVersion, CmdSnapshots, CmdLS, CmdFind, CmdStats]"

definition forbidden_subcommands :: "string list" where
  "forbidden_subcommands =
     [''backup'', ''restore'', ''forget'', ''prune'', ''unlock'', ''repair'', ''recover'',
      ''rewrite'', ''tag'', ''key'', ''init'', ''copy'', ''migrate'', ''check'', ''dump'',
      ''cat'', ''cache'', ''generate'', ''options'', ''self-update'', ''mount'',
      ''rebuild-index'']"

datatype cost_class = CostLight | CostModerate | CostExpensive

definition is_hex :: "nat \<Rightarrow> bool" where
  "is_hex c \<longleftrightarrow> \<not> ((c < 0x30 \<or> c > 0x39) \<and> (c < 0x61 \<or> c > 0x66) \<and> (c < 0x41 \<or> c > 0x46))"

definition valid_snapshot_id :: "string \<Rightarrow> bool" where
  "valid_snapshot_id sid =
     (if sid = ''latest'' then True
      else if length sid < 8 \<or> length sid > 64 then False
      else list_all is_hex (runes sid))"

text \<open>The test \<open>ValidSnapshotID(id) && id != "latest"\<close> of the builders and parsers.\<close>

definition concrete_id :: "string \<Rightarrow> bool" where
  "concrete_id sid \<longleftrightarrow> valid_snapshot_id sid \<and> sid \<noteq> ''latest''"

section \<open>Argument vectors\<close>

definition BuildVersionArgv :: "string list" where
  "BuildVersionArgv = [CmdVersion, ''--json'']"

record snapshots_opts =
  so_hosts :: "string list"
  so_tags :: "string list"
  so_paths :: "string list"
  so_ids :: "string list"

definition no_snapshots_opts :: snapshots_opts where
  "no_snapshots_opts = \<lparr>so_hosts = [], so_tags = [], so_paths = [], so_ids = []\<rparr>"

fun add_values :: "string \<Rightarrow> string \<Rightarrow> string list \<Rightarrow> string list \<Rightarrow> string list res" where
  "add_values flag msg [] argv = Inr argv"
| "add_values flag msg (h # hs) argv =
     (if h = [] \<or> has_control h then Inl (PlainErr msg)
      else add_values flag msg hs (argv @ [flag, h]))"

fun add_paths :: "string list \<Rightarrow> string \<Rightarrow> string list \<Rightarrow> string list \<Rightarrow> string list res" where
  "add_paths flag msg [] argv = Inr argv"
| "add_paths flag msg (p # ps) argv =
     (case CleanPath p of
        Inl _ \<Rightarrow> Inl (PlainErr msg)
      | Inr cleaned \<Rightarrow> add_paths flag msg ps (argv @ flag @ [cleaned]))"

fun add_ids :: "string list \<Rightarrow> string list \<Rightarrow> string list \<Rightarrow> string list res" where
  "add_ids flag [] argv = Inr argv"
| "add_ids flag (sid # ids) argv =
     (if \<not> valid_snapshot_id sid \<or> sid = ''latest'' then Inl (PlainErr ''invalid snapshot id'')
      else add_ids flag ids (argv @ flag @ [sid]))"

definition BuildSnapshotsArgv :: "snapshots_opts \<Rightarrow> string list res" where
  "BuildSnapshotsArgv opts =
     (case add_values ''--host'' ''invalid host'' (so_hosts opts) [CmdSnapshots, ''--json''] of
        Inl err \<Rightarrow> Inl err
      | Inr argv1 \<Rightarrow>
        (case add_values ''--tag'' ''invalid tag'' (so_tags opts) argv1 of
           Inl err \<Rightarrow> Inl err
         | Inr argv2 \<Rightarrow>
           (case add_paths [''--path''] ''invalid path'' (so_paths opts) argv2 of
              Inl err \<Rightarrow> Inl err
            | Inr argv3 \<Rightarrow> add_ids [] (so_ids opts) argv3)))"

record ls_opts =
  lo_snapshot :: string
  lo_dirs :: "string list"
  lo_recursive :: bool

definition BuildLSArgv :: "ls_opts \<Rightarrow> string list res" where
  "BuildLSArgv opts =
     (if \<not> valid_snapshot_id (lo_snapshot opts) \<or> lo_snapshot opts = ''latest''
        then Inl (PlainErr ''invalid snapshot id'')
      else
        let argv = [CmdLS, ''--json'', lo_snapshot opts];
            argv' = (if lo_recursive opts then argv @ [''--recursive''] else argv)
        in add_paths [] ''ls dir must be absolute'' (lo_dirs opts) argv')"

record find_opts =
  fo_pattern :: string
  fo_ids :: "string list"
  fo_ignore_case :: bool

definition validate_find_pattern :: "string \<Rightarrow> unit res" where
  "validate_find_pattern pattern =
     (if pattern = [] then Inl (PlainErr ''pattern required'')
      else if prefix ''-'' pattern
        then Inl (PlainErr ''pattern must not start with '-' (flag-shaped patterns are rejected)'')
      else if has_control pattern
        then Inl (PlainErr ''pattern contains unsupported characters'')
      else Inr ())"

fun add_find_ids :: "string list \<Rightarrow> string list \<Rightarrow> string list res" where
  "add_find_ids [] argv = Inr argv"
| "add_find_ids (sid # ids) argv =
     (if sid = ''latest''
        then Inl (PlainErr ''latest is not supported for find; pass a concrete snapshot id'')
      else if \<not> valid_snapshot_id sid then Inl (PlainErr ''invalid snapshot id'')
      else add_find_ids ids (argv @ [''--snapshot'', sid]))"

definition BuildFindArgv :: "find_opts \<Rightarrow> string list res" where
  "BuildFindArgv opts =
     (if fo_pattern opts = [] then Inl (PlainErr ''pattern required'')
      else if length (fo_pattern opts) > 256 then Inl (PlainErr ''pattern too long'')
      else if list_ex (\<lambda>c. c \<in> set ''(){}|+^$'') (fo_pattern opts) \<or> has_control (fo_pattern opts)
        then Inl (PlainErr ''pattern contains unsupported characters'')
      else
        case validate_find_pattern (fo_pattern opts) of
          Inl err \<Rightarrow> Inl err
        | Inr _ \<Rightarrow>
          let argv = [CmdFind, ''--json''];
              argv' = (if fo_ignore_case opts then argv @ [''--ignore-case''] else argv)
          in (case add_find_ids (fo_ids opts) argv' of
                Inl err \<Rightarrow> Inl err
              | Inr argv'' \<Rightarrow> Inr (argv'' @ [''--'', fo_pattern opts])))"

definition StatsRestoreSize :: string where "StatsRestoreSize = ''restore-size''"
definition StatsFilesByContents :: string where "StatsFilesByContents = ''files-by-contents''"
definition StatsRawData :: string where "StatsRawData = ''raw-data''"
definition StatsBlobsPerFile :: string where "StatsBlobsPerFile = ''blobs-per-file''"

lemmas stats_modes =
  StatsRestoreSize_def StatsFilesByContents_def StatsRawData_def StatsBlobsPerFile_def

definition valid_stats_mode :: "string \<Rightarrow> bool" where
  "valid_stats_mode m \<longleftrightarrow>
     m \<in> {StatsRestoreSize, StatsFilesByContents, StatsRawData, StatsBlobsPerFile}"

record stats_opts =
  sto_mode :: string
  sto_ids :: "string list"

definition BuildStatsArgv :: "stats_opts \<Rightarrow> string list res" where
  "BuildStatsArgv opts =
     (let mode = (if sto_mode opts = [] then StatsRestoreSize else sto_mode opts)
      in if \<not> valid_stats_mode mode then Inl (PlainErr ''invalid stats mode'')
         else add_ids [] (sto_ids opts) [CmdStats, ''--json'', ''--mode'', mode])"

section \<open>The last check before a process starts\<close>

definition denied_global_flags :: "string list" where
  "denied_global_flags =
     [''--password-command'', ''-p'', ''--password'', ''--password-file'', ''--insecure-tls'',
      ''--insecure-no-password'', ''--option'', ''-o'', ''--cacert'', ''--tls-client-cert'',
      ''--repo'', ''-r'', ''--repository'', ''--repository-file'', ''--cache-dir'',
      ''--no-lock'', ''--key-hint'', ''--blob'', ''--pack'', ''--tree'']"

definition denied_global_flag_prefixes :: "string list" where
  "denied_global_flag_prefixes =
     [''--password-command='', ''--password='', ''--password-file='', ''--insecure-tls='',
      ''--insecure-no-password='', ''--option='', ''--cacert='', ''--tls-client-cert='',
      ''--repo='', ''--repository='', ''--repository-file='', ''--cache-dir='', ''--no-lock='',
      ''--key-hint='', ''-r='', ''-p='', ''-o='']"

fun assert_positionals :: "string list \<Rightarrow> unit res" where
  "assert_positionals [] = Inr ()"
| "assert_positionals (pos # rest) =
     (if pos = [] \<or> has_control pos
        then Inl (PlainErr ''invalid positional argument after --'')
      else if prefix ''-'' pos
        then Inl (PlainErr ''positional argument must not look like a flag'')
      else assert_positionals rest)"

fun assert_tokens :: "string list \<Rightarrow> unit res" where
  "assert_tokens [] = Inr ()"
| "assert_tokens (a # rest) =
     (if a = [] \<or> has_control a then Inl (PlainErr ''invalid argv token'')
      else if a = ''--'' then assert_positionals rest
      else if a \<in> set denied_global_flags
        then Inl (PlainErr (''global flag not allowed: '' @ a))
      else if list_ex (\<lambda>p. prefix p a) denied_global_flag_prefixes
        then Inl (PlainErr ''global flag not allowed'')
      else assert_tokens rest)"

definition AssertArgvAllowed :: "string list \<Rightarrow> unit res" where
  "AssertArgvAllowed argv =
     (case argv of
        [] \<Rightarrow> Inl (PlainErr ''empty argv'')
      | sub # _ \<Rightarrow>
          if sub \<notin> set allowed_subcommands
          then Inl (PlainErr (''subcommand not allowed: '' @ sub))
          else assert_tokens argv)"

section \<open>What the check accepts\<close>

definition denied_token :: "string \<Rightarrow> bool" where
  "denied_token a \<longleftrightarrow>
     a \<in> set denied_global_flags \<or> list_ex (\<lambda>p. prefix p a) denied_global_flag_prefixes"

definition plain_token :: "string \<Rightarrow> bool" where
  "plain_token a \<longleftrightarrow> a \<noteq> [] \<and> \<not> has_control a \<and> \<not> denied_token a"

lemma denied_dash: "denied_token a \<Longrightarrow> prefix ''-'' a"
  by (auto simp: denied_token_def denied_global_flags_def denied_global_flag_prefixes_def
      prefix_def)

lemma plain_nodash:
  "a \<noteq> [] \<Longrightarrow> \<not> has_control a \<Longrightarrow> \<not> prefix ''-'' a \<Longrightarrow> plain_token a"
  using denied_dash by (auto simp: plain_token_def)

lemma assert_positionals_Inr:
  "assert_positionals xs = Inr () \<longleftrightarrow>
     list_all (\<lambda>a. a \<noteq> [] \<and> \<not> has_control a \<and> \<not> prefix ''-'' a) xs"
  by (induction xs) auto

lemma assert_tokens_append:
  assumes "list_all (\<lambda>a. plain_token a \<and> a \<noteq> ''--'') xs"
  shows "assert_tokens (xs @ ys) = assert_tokens ys"
  using assms by (induction xs) (simp_all add: plain_token_def denied_token_def)

lemma assert_tokens_Inr:
  "assert_tokens xs = Inr () \<longleftrightarrow>
     list_all plain_token (takeWhile (\<lambda>a. a \<noteq> ''--'') xs) \<and>
     list_all (\<lambda>a. a \<noteq> [] \<and> \<not> has_control a \<and> \<not> prefix ''-'' a)
       (drop 1 (dropWhile (\<lambda>a. a \<noteq> ''--'') xs))"
proof (induction xs)
  case Nil
  then show ?case by simp
next
  case (Cons x xs)
  have "\<not> has_control ''--''" by (simp add: has_control_ascii byte_def is_control_def)
  with Cons show ?case
    by (auto simp: assert_positionals_Inr plain_token_def denied_token_def)
qed

lemma assert_tokens_no_denied:
  "assert_tokens xs = Inr () \<Longrightarrow> a \<in> set xs \<Longrightarrow> \<not> denied_token a"
proof (induction xs)
  case Nil
  then show ?case by simp
next
  case (Cons x xs)
  have "\<not> denied_token ''--''"
    by (simp add: denied_token_def denied_global_flags_def denied_global_flag_prefixes_def)
  with Cons show ?case
    by (auto simp: assert_positionals_Inr list_all_iff denied_token_def [symmetric]
        dest: denied_dash split: if_splits) (simp add: denied_token_def)
qed

text \<open>Tokens of fixed shape pass the check.\<close>

lemma hex_bytes:
  assumes "list_all is_hex (runes s)" and "s \<noteq> []"
  shows "\<not> prefix ''-'' s" and "\<not> has_control s"
proof -
  show "\<not> prefix ''-'' s"
  proof
    assume "prefix ''-'' s"
    then obtain r where "s = CHR ''-'' # r" by (auto simp: prefix_def)
    with assms(1) show False
      by (simp add: runes_def rune_chunks_ascii byte_def is_hex_def)
  qed
  show "\<not> has_control s"
    using assms(1)
    by (auto simp: has_control_def list_ex_iff list_all_iff is_hex_def is_control_def)
qed

lemma concrete_id_plain:
  assumes "concrete_id sid" shows "plain_token sid" and "sid \<noteq> ''--''"
proof -
  from assms have h: "list_all is_hex (runes sid)" and ne: "sid \<noteq> []"
    by (auto simp: concrete_id_def valid_snapshot_id_def split: if_splits)
  with hex_bytes [OF h ne] show "plain_token sid" by (intro plain_nodash)
  show "sid \<noteq> ''--''" using hex_bytes(1) [OF h ne] by auto
qed

lemma CleanPath_plain:
  assumes "CleanPath p = Inr c" shows "plain_token c" and "c \<noteq> ''--''"
proof -
  have r: "prefix ''/'' c" by (rule canonical_rooted [OF CleanPath_canonical [OF assms]])
  then have "\<not> prefix ''-'' c" "c \<noteq> []" by (auto simp: prefix_def)
  then show "plain_token c" using CleanPath_no_control [OF assms] by (intro plain_nodash)
  show "c \<noteq> ''--''" using \<open>\<not> prefix ''-'' c\<close> by auto
qed

section \<open>Shapes of the vectors\<close>

lemma add_values_Inr:
  "add_values flag msg hs argv = Inr out \<longleftrightarrow>
     list_all (\<lambda>h. h \<noteq> [] \<and> \<not> has_control h) hs \<and>
     out = argv @ concat (map (\<lambda>h. [flag, h]) hs)"
  by (induction flag msg hs argv rule: add_values.induct) auto

lemma add_ids_Inr:
  "add_ids flag ids argv = Inr out \<longleftrightarrow>
     list_all concrete_id ids \<and> out = argv @ concat (map (\<lambda>i. flag @ [i]) ids)"
  by (induction flag ids argv rule: add_ids.induct) (auto simp: concrete_id_def)

lemma add_find_ids_Inr:
  "add_find_ids ids argv = Inr out \<longleftrightarrow>
     list_all concrete_id ids \<and> out = argv @ concat (map (\<lambda>i. [''--snapshot'', i]) ids)"
  by (induction ids argv rule: add_find_ids.induct) (auto simp: concrete_id_def)

lemma add_paths_Inr:
  "add_paths flag msg ps argv = Inr out \<longleftrightarrow>
     (\<exists>cs. list_all2 (\<lambda>p c. CleanPath p = Inr c) ps cs \<and>
           out = argv @ concat (map (\<lambda>c. flag @ [c]) cs))"
proof (induction flag msg ps argv rule: add_paths.induct)
  case (1 flag msg argv)
  then show ?case by auto
next
  case (2 flag msg p ps argv)
  then show ?case by (cases "CleanPath p") (auto simp: list_all2_Cons1)
qed

lemma set_marker_split:
  "a \<in> set xs \<Longrightarrow>
     a \<in> set (takeWhile (\<lambda>x. x \<noteq> m) xs) \<or> a = m \<or> a \<in> set (drop 1 (dropWhile (\<lambda>x. x \<noteq> m) xs))"
  by (induction xs) auto

text \<open>The flags the builders write.\<close>

lemma fixed_flags:
  "list_all (\<lambda>a. plain_token a \<and> a \<noteq> ''--'')
     [CmdVersion, CmdSnapshots, CmdLS, CmdFind, CmdStats, ''--json'', ''--host'', ''--tag'',
      ''--path'', ''--recursive'', ''--ignore-case'', ''--snapshot'', ''--mode'',
      StatsRestoreSize, StatsFilesByContents, StatsRawData, StatsBlobsPerFile]"
  by (simp add: plain_token_def denied_token_def denied_global_flags_def
      denied_global_flag_prefixes_def cmd_names stats_modes has_control_ascii byte_def
      is_control_def)

lemma fixed_flags_mem:
  "a \<in> {CmdVersion, CmdSnapshots, CmdLS, CmdFind, CmdStats, ''--json'', ''--host'', ''--tag'',
      ''--path'', ''--recursive'', ''--ignore-case'', ''--snapshot'', ''--mode'',
      StatsRestoreSize, StatsFilesByContents, StatsRawData, StatsBlobsPerFile} \<Longrightarrow>
   plain_token a \<and> a \<noteq> ''--''"
  using fixed_flags by (auto simp: list_all_iff)

lemma AssertArgvAllowed_plain:
  assumes "sub \<in> set allowed_subcommands" and "list_all (\<lambda>a. plain_token a \<and> a \<noteq> ''--'') rest"
  shows "AssertArgvAllowed (sub # rest) = Inr ()"
proof -
  have "plain_token sub \<and> sub \<noteq> ''--''"
    using assms(1) fixed_flags_mem by (auto simp: allowed_subcommands_def)
  then have "assert_tokens ((sub # rest) @ []) = assert_tokens []"
    using assms(2) by (intro assert_tokens_append) simp
  with assms(1) show ?thesis by (simp add: AssertArgvAllowed_def)
qed

section \<open>Properties\<close>

text \<open>
  C7. An argument vector that passes \<open>AssertArgvAllowed\<close> starts with one of the five
  inspection subcommands and holds no empty token, no control rune and no denied global
  option in any position, neither as a token nor in its \<open>flag=value\<close> form.
\<close>

theorem AssertArgvAllowed_sound:
  assumes "AssertArgvAllowed argv = Inr ()"
  shows "argv \<noteq> [] \<and> hd argv \<in> set allowed_subcommands \<and>
    hd argv \<notin> set forbidden_subcommands \<and>
    (\<forall>a \<in> set argv. a \<noteq> [] \<and> \<not> has_control a \<and> a \<notin> set denied_global_flags \<and>
       \<not> list_ex (\<lambda>p. prefix p a) denied_global_flag_prefixes)"
proof -
  from assms obtain sub rest where argv: "argv = sub # rest"
    and sub: "sub \<in> set allowed_subcommands" and ok: "assert_tokens argv = Inr ()"
    by (auto simp: AssertArgvAllowed_def split: list.splits if_splits)
  have "a \<noteq> [] \<and> \<not> has_control a" if a: "a \<in> set argv" for a
  proof -
    have "a \<in> set (takeWhile (\<lambda>a. a \<noteq> ''--'') argv) \<or> a = ''--'' \<or>
        a \<in> set (drop 1 (dropWhile (\<lambda>a. a \<noteq> ''--'') argv))"
      using set_marker_split [OF a] .
    moreover have "\<not> has_control ''--''" by (simp add: has_control_ascii byte_def is_control_def)
    moreover have "list_all plain_token (takeWhile (\<lambda>a. a \<noteq> ''--'') argv)"
      and "list_all (\<lambda>a. a \<noteq> [] \<and> \<not> has_control a \<and> \<not> prefix ''-'' a)
        (drop 1 (dropWhile (\<lambda>a. a \<noteq> ''--'') argv))"
      using ok by (simp_all add: assert_tokens_Inr)
    ultimately show ?thesis unfolding list_all_iff plain_token_def by blast
  qed
  moreover have "sub \<notin> set forbidden_subcommands"
    using sub by (auto simp: allowed_subcommands_def forbidden_subcommands_def cmd_names)
  moreover have "\<not> denied_token a" if "a \<in> set argv" for a
    using assert_tokens_no_denied [OF ok that] .
  ultimately show ?thesis using argv sub by (simp add: denied_token_def)
qed

theorem AssertArgvAllowed_sound_witness:
  "AssertArgvAllowed [''ls'', ''--json'', ''deadbeef''] = Inr () \<and>
   ''ls'' \<in> set allowed_subcommands"
proof -
  have run: "AssertArgvAllowed [''ls'', ''--json'', ''deadbeef''] = Inr ()"
    by (simp add: AssertArgvAllowed_def allowed_subcommands_def cmd_names
        denied_global_flags_def denied_global_flag_prefixes_def has_control_ascii byte_def
        is_control_def)
  show ?thesis using run AssertArgvAllowed_sound [OF run] by simp
qed

lemma built_argv:
  assumes "BuildLSArgv lo = Inr argv \<or> BuildFindArgv fo = Inr argv \<or>
    BuildStatsArgv so = Inr argv \<or> BuildVersionArgv = argv"
  shows "AssertArgvAllowed argv = Inr ()"
  using assms
proof (elim disjE)
  assume ls: "BuildLSArgv lo = Inr argv"
  then have c: "concrete_id (lo_snapshot lo)"
    by (auto simp: BuildLSArgv_def concrete_id_def split: if_splits)
  from ls obtain cs where cs: "list_all2 (\<lambda>p c. CleanPath p = Inr c) (lo_dirs lo) cs"
    and argv: "argv = CmdLS # ''--json'' # lo_snapshot lo #
      (if lo_recursive lo then [''--recursive''] else []) @ cs"
    by (auto simp: BuildLSArgv_def add_paths_Inr Let_def split: if_splits)
  have "list_all (\<lambda>a. plain_token a \<and> a \<noteq> ''--'') cs"
    using cs CleanPath_plain by (induction rule: list_all2_induct) auto
  then show ?thesis
    using c concrete_id_plain fixed_flags_mem
    unfolding argv by (intro AssertArgvAllowed_plain) (auto simp: allowed_subcommands_def)
next
  assume "BuildStatsArgv so = Inr argv"
  then obtain mode where mode: "valid_stats_mode mode" and ids: "list_all concrete_id (sto_ids so)"
    and argv: "argv = CmdStats # ''--json'' # ''--mode'' # mode # sto_ids so"
    by (auto simp: BuildStatsArgv_def add_ids_Inr Let_def split: if_splits)
  have "list_all (\<lambda>a. plain_token a \<and> a \<noteq> ''--'') (sto_ids so)"
    using ids concrete_id_plain by (auto simp: list_all_iff)
  moreover have "plain_token mode \<and> mode \<noteq> ''--''"
    using mode fixed_flags_mem by (auto simp: valid_stats_mode_def)
  ultimately show ?thesis
    using fixed_flags_mem
    unfolding argv by (intro AssertArgvAllowed_plain) (auto simp: allowed_subcommands_def)
next
  assume find: "BuildFindArgv fo = Inr argv"
  let ?pre = "CmdFind # ''--json'' # (if fo_ignore_case fo then [''--ignore-case''] else []) @
    concat (map (\<lambda>i. [''--snapshot'', i]) (fo_ids fo))"
  from find have pat: "fo_pattern fo \<noteq> []" "\<not> prefix ''-'' (fo_pattern fo)"
      "\<not> has_control (fo_pattern fo)"
    and ids: "list_all concrete_id (fo_ids fo)"
    and argv: "argv = ?pre @ [''--'', fo_pattern fo]"
    by (auto simp: BuildFindArgv_def validate_find_pattern_def add_find_ids_Inr Let_def
        split: if_splits sum.splits)
  have "list_all (\<lambda>a. plain_token a \<and> a \<noteq> ''--'') ?pre"
    using ids concrete_id_plain fixed_flags_mem by (auto simp: list_all_iff)
  then have "assert_tokens argv = assert_tokens [''--'', fo_pattern fo]"
    unfolding argv by (rule assert_tokens_append)
  also have "\<dots> = Inr ()"
    using pat by (simp add: has_control_ascii byte_def is_control_def)
  finally show ?thesis
    by (simp add: AssertArgvAllowed_def argv allowed_subcommands_def)
next
  assume "BuildVersionArgv = argv"
  then have argv: "argv = CmdVersion # [''--json'']" by (simp add: BuildVersionArgv_def)
  show ?thesis
    using fixed_flags_mem
    unfolding argv by (intro AssertArgvAllowed_plain) (auto simp: allowed_subcommands_def)
qed

text \<open>
  Every vector the \<open>ls\<close>, \<open>find\<close>, \<open>stats\<close> and \<open>version\<close> builders return passes the
  last check, whatever the caller supplied: their arguments cannot smuggle in an option.
\<close>

theorem built_argv_allowed:
  assumes "BuildLSArgv lo = Inr argv \<or> BuildFindArgv fo = Inr argv \<or>
    BuildStatsArgv so = Inr argv \<or> BuildVersionArgv = argv"
  shows "AssertArgvAllowed argv = Inr ()"
  by (rule built_argv [OF assms])

theorem built_argv_allowed_witness:
  "AssertArgvAllowed [''find'', ''--json'', ''--'', ''*.db''] = Inr ()"
proof -
  have "BuildFindArgv \<lparr>fo_pattern = ''*.db'', fo_ids = [], fo_ignore_case = False\<rparr> =
      Inr [''find'', ''--json'', ''--'', ''*.db'']"
    by (simp add: BuildFindArgv_def validate_find_pattern_def CmdFind_def has_control_ascii
        byte_def is_control_def)
  then show ?thesis using built_argv_allowed by blast
qed

text \<open>
  A \<open>find\<close> vector is exactly the fixed flags, one \<open>--snapshot\<close> pair per concrete id
  and the pattern as the only positional after the end-of-flags marker, and it is built
  exactly for patterns of 1 to 256 bytes without regular-expression metacharacters,
  control runes or a leading dash.
\<close>

theorem BuildFindArgv_shape:
  "BuildFindArgv fo = Inr argv \<longleftrightarrow>
     fo_pattern fo \<noteq> [] \<and> length (fo_pattern fo) \<le> 256 \<and>
     set (fo_pattern fo) \<inter> set ''(){}|+^$'' = {} \<and> \<not> has_control (fo_pattern fo) \<and>
     hd (fo_pattern fo) \<noteq> CHR ''-'' \<and> list_all concrete_id (fo_ids fo) \<and>
     argv = [''find'', ''--json''] @ (if fo_ignore_case fo then [''--ignore-case''] else []) @
       concat (map (\<lambda>i. [''--snapshot'', i]) (fo_ids fo)) @ [''--'', fo_pattern fo]"
proof -
  have meta: "list_ex (\<lambda>c. c \<in> S) p \<longleftrightarrow> set p \<inter> S \<noteq> {}" for S and p :: string
    by (auto simp: list_ex_iff)
  have dash: "prefix ''-'' p \<longleftrightarrow> p \<noteq> [] \<and> hd p = CHR ''-''" for p :: string
    by (cases p) auto
  have ids: "(\<exists>a. add_find_ids ids argv0 = Inl a) \<longleftrightarrow> \<not> list_all concrete_id ids" for ids argv0
    using add_find_ids_Inr [of ids argv0] by (cases "add_find_ids ids argv0") auto
  show ?thesis
  proof (cases "validate_find_pattern (fo_pattern fo)")
    case (Inl e)
    then show ?thesis
      by (cases "fo_pattern fo")
        (auto simp: BuildFindArgv_def validate_find_pattern_def meta dash split: if_splits)
  next
    case (Inr u)
    have pat: "fo_pattern fo \<noteq> []" "hd (fo_pattern fo) \<noteq> CHR ''-''"
      "\<not> has_control (fo_pattern fo)"
      using Inr by (simp_all add: validate_find_pattern_def dash split: if_splits)
    let ?pre = "[CmdFind, ''--json''] @ (if fo_ignore_case fo then [''--ignore-case''] else [])"
    show ?thesis
    proof (cases "add_find_ids (fo_ids fo) ?pre")
      case (Inl e)
      then have "\<not> list_all concrete_id (fo_ids fo)" using ids by blast
      with Inl Inr show ?thesis
        by (cases "fo_ignore_case fo") (simp_all add: BuildFindArgv_def CmdFind_def Let_def)
    next
      case r: (Inr r)
      then have "list_all concrete_id (fo_ids fo)"
          "r = ?pre @ concat (map (\<lambda>i. [''--snapshot'', i]) (fo_ids fo))"
        unfolding add_find_ids_Inr by blast+
      moreover have "BuildFindArgv fo = (if length (fo_pattern fo) > 256
            then Inl (PlainErr ''pattern too long'')
          else if set (fo_pattern fo) \<inter> set ''(){}|+^$'' \<noteq> {}
            then Inl (PlainErr ''pattern contains unsupported characters'')
          else Inr (r @ [''--'', fo_pattern fo]))"
        using r Inr pat unfolding BuildFindArgv_def meta
        by (cases "fo_ignore_case fo") (simp_all add: CmdFind_def Let_def)
      ultimately show ?thesis using pat by (auto simp: CmdFind_def not_less)
    qed
  qed
qed

text \<open>
  A \<open>snapshots\<close> vector passes the last check exactly when none of the requested hosts
  and tags is itself a denied option; the builder alone does not rule that out.
\<close>

theorem BuildSnapshotsArgv_allowed_iff:
  assumes "BuildSnapshotsArgv opts = Inr argv"
    and "''--'' \<notin> set (so_hosts opts) \<union> set (so_tags opts)"
  shows "AssertArgvAllowed argv = Inr () \<longleftrightarrow>
    (\<forall>v \<in> set (so_hosts opts) \<union> set (so_tags opts). \<not> denied_token v)"
proof -
  from assms(1) obtain cs where
      hs: "list_all (\<lambda>h. h \<noteq> [] \<and> \<not> has_control h) (so_hosts opts)"
    and ts: "list_all (\<lambda>h. h \<noteq> [] \<and> \<not> has_control h) (so_tags opts)"
    and cs: "list_all2 (\<lambda>p c. CleanPath p = Inr c) (so_paths opts) cs"
    and ids: "list_all concrete_id (so_ids opts)"
    and argv: "argv = CmdSnapshots # ''--json'' #
      concat (map (\<lambda>h. [''--host'', h]) (so_hosts opts)) @
      concat (map (\<lambda>t. [''--tag'', t]) (so_tags opts)) @
      concat (map (\<lambda>p. [''--path'', p]) cs) @ so_ids opts"
    by (auto simp: BuildSnapshotsArgv_def add_values_Inr add_paths_Inr add_ids_Inr
        split: sum.splits)
  show ?thesis
  proof
    assume "AssertArgvAllowed argv = Inr ()"
    then have "assert_tokens argv = Inr ()" by (simp add: AssertArgvAllowed_def argv split: if_splits)
    then have "\<not> denied_token a" if "a \<in> set argv" for a
      using assert_tokens_no_denied that by blast
    moreover have "set (so_hosts opts) \<union> set (so_tags opts) \<subseteq> set argv"
      by (auto simp: argv)
    ultimately show "\<forall>v \<in> set (so_hosts opts) \<union> set (so_tags opts). \<not> denied_token v"
      by blast
  next
    assume nd: "\<forall>v \<in> set (so_hosts opts) \<union> set (so_tags opts). \<not> denied_token v"
    let ?ok = "\<lambda>a. plain_token a \<and> a \<noteq> ''--''"
    have "list_all ?ok cs"
      using cs CleanPath_plain by (induction rule: list_all2_induct) auto
    moreover have "list_all ?ok (so_hosts opts)" "list_all ?ok (so_tags opts)"
      using hs ts nd assms(2) unfolding list_all_iff plain_token_def by blast+
    moreover have "list_all ?ok (so_ids opts)"
      using ids concrete_id_plain by (simp add: list_all_iff)
    moreover have "?ok ''--json''" "?ok ''--host''" "?ok ''--tag''" "?ok ''--path''"
      using fixed_flags_mem by blast+
    ultimately have "list_all ?ok (tl argv)"
      unfolding argv list_all_iff by auto
    then show "AssertArgvAllowed argv = Inr ()"
      using AssertArgvAllowed_plain [of CmdSnapshots "tl argv"]
      by (simp add: argv allowed_subcommands_def)
  qed
qed

theorem BuildSnapshotsArgv_allowed_iff_witness:
  "BuildSnapshotsArgv (no_snapshots_opts\<lparr>so_hosts := [''-r'']\<rparr>) =
     Inr [''snapshots'', ''--json'', ''--host'', ''-r''] \<and>
   AssertArgvAllowed [''snapshots'', ''--json'', ''--host'', ''-r''] \<noteq> Inr ()"
proof -
  have run: "BuildSnapshotsArgv (no_snapshots_opts\<lparr>so_hosts := [''-r'']\<rparr>) =
     Inr [''snapshots'', ''--json'', ''--host'', ''-r'']"
    by (simp add: BuildSnapshotsArgv_def no_snapshots_opts_def CmdSnapshots_def
        has_control_ascii byte_def is_control_def)
  have "denied_token ''-r''" by (simp add: denied_token_def denied_global_flags_def)
  with run BuildSnapshotsArgv_allowed_iff [OF run] show ?thesis
    by (simp add: no_snapshots_opts_def)
qed

end
