(* ===== verification/GoNum.thy ===== *)
theory GoNum
  imports GoStrings
begin

text \<open>
  Decimal numerals as Go's standard library prints and reads them.
\<close>

definition is_digit :: "char \<Rightarrow> bool" where
  "is_digit c \<longleftrightarrow> 0x30 \<le> byte c \<and> byte c \<le> 0x39"

definition digit_val :: "char \<Rightarrow> nat" where
  "digit_val c = byte c - 0x30"

definition digit_char :: "nat \<Rightarrow> char" where
  "digit_char n = char_of (0x30 + n)"

fun dec_rev :: "nat \<Rightarrow> string" where
  "dec_rev n = digit_char (n mod 10) # (if n < 10 then [] else dec_rev (n div 10))"

declare dec_rev.simps [simp del]

definition dec :: "nat \<Rightarrow> string" where
  "dec n = rev (dec_rev n)"

definition dec_int :: "int \<Rightarrow> string" where
  "dec_int i = (if i < 0 then CHR ''-'' # dec (nat (- i)) else dec (nat i))"

definition pad :: "nat \<Rightarrow> nat \<Rightarrow> string" where
  "pad w n = replicate (w - length (dec n)) (CHR ''0'') @ dec n"

definition digits_val :: "string \<Rightarrow> nat" where
  "digits_val ds = foldl (\<lambda>n c. n * 10 + digit_val c) 0 ds"

lemma digit_char [simp]:
  "n < 10 \<Longrightarrow> digit_val (digit_char n) = n" "n < 10 \<Longrightarrow> is_digit (digit_char n)"
  by (simp_all add: digit_val_def digit_char_def is_digit_def byte_def)

lemma digit_char_ascii:
  "digit_char 0 = CHR ''0''" "digit_char (Suc 0) = CHR ''1''" "digit_char 2 = CHR ''2''"
  "digit_char 3 = CHR ''3''" "digit_char 4 = CHR ''4''" "digit_char 5 = CHR ''5''"
  "digit_char 6 = CHR ''6''" "digit_char 7 = CHR ''7''" "digit_char 8 = CHR ''8''"
  "digit_char 9 = CHR ''9''"
  by (simp_all add: digit_char_def char_of_eq_iff)

lemma digit_val_less: "is_digit c \<Longrightarrow> digit_val c < 10"
  by (auto simp: is_digit_def digit_val_def)

lemma zero_digit [simp]: "is_digit (CHR ''0'')" "digit_val (CHR ''0'') = 0"
  by (simp_all add: is_digit_def digit_val_def byte_def)

lemma dec_rev_digits: "list_all is_digit (dec_rev n)"
  by (induction n rule: dec_rev.induct) (subst dec_rev.simps, simp)

lemma dec_digits: "list_all is_digit (dec n)"
  using dec_rev_digits by (simp add: dec_def)

lemma dec_ne [simp]: "dec n \<noteq> []"
  by (simp add: dec_def) (subst dec_rev.simps, simp)

lemma digits_val_Nil [simp]: "digits_val [] = 0"
  by (simp add: digits_val_def)

lemma digits_val_snoc [simp]: "digits_val (ds @ [c]) = digits_val ds * 10 + digit_val c"
  by (simp add: digits_val_def)

lemma digits_val_dec [simp]: "digits_val (dec n) = n"
  unfolding dec_def
proof (induction n rule: dec_rev.induct)
  case (1 n)
  show ?case
    using 1 by (subst dec_rev.simps) (auto simp: digits_val_def)
qed

lemma digits_val_Cons: "digits_val (c # ds) = digit_val c * 10 ^ length ds + digits_val ds"
  by (induction ds rule: rev_induct) (simp_all add: digits_val_def algebra_simps)

lemma digits_val_zeros [simp]: "digits_val (replicate k (CHR ''0'') @ ds) = digits_val ds"
  by (induction k) (simp_all add: digits_val_Cons)

lemma pad_digits: "list_all is_digit (pad w n)"
  using dec_digits [of n] by (auto simp: pad_def list_all_iff)

lemma digits_val_pad [simp]: "digits_val (pad w n) = n"
  by (simp add: pad_def)

lemma length_dec_rev: "n < 10 ^ Suc k \<Longrightarrow> length (dec_rev n) \<le> Suc k"
proof (induction k arbitrary: n)
  case 0
  then show ?case by (subst dec_rev.simps) simp
next
  case (Suc k)
  have "n div 10 < 10 ^ Suc k" using Suc.prems by (simp add: less_mult_imp_div_less)
  then have "length (dec_rev (n div 10)) \<le> Suc k" by (rule Suc.IH)
  then show ?case by (subst dec_rev.simps) simp
qed

lemma length_pad: "0 < w \<Longrightarrow> n < 10 ^ w \<Longrightarrow> length (pad w n) = w"
  using length_dec_rev [of n "w - 1"] by (simp add: pad_def dec_def)

end
