(* ===== verification/GoTime.thy ===== *)
theory GoTime
  imports GoNum "HOL-Library.Monad_Syntax"
begin

text \<open>
  The instants of Go's \<open>time\<close> package as the program uses them: RFC 3339 parsing and
  formatting and the arithmetic of durations. An instant is its number of nanoseconds since
  the Unix epoch; after \<open>UTC()\<close> nothing else of a \<open>time.Time\<close> is observable.
\<close>

type_synonym instant = int

definition second_ns :: int where "second_ns = 1000000000"

text \<open>The zero \<open>time.Time\<close>, the first instant of year 1, which \<open>IsZero\<close> recognizes.\<close>

definition zero_time :: instant where
  "zero_time = - 62135596800 * 1000000000"

section \<open>The proleptic Gregorian calendar\<close>

definition is_leap :: "int \<Rightarrow> bool" where
  "is_leap y \<longleftrightarrow> y mod 4 = 0 \<and> (y mod 100 \<noteq> 0 \<or> y mod 400 = 0)"

definition month_days :: "int \<Rightarrow> nat \<Rightarrow> int" where
  "month_days y m =
     (if m = 2 then (if is_leap y then 29 else 28)
      else if m \<in> {4, 6, 9, 11} then 30 else 31)"

text \<open>Days before the first day of a month, and of a year counted from 0001-01-01.\<close>

definition days_before_month :: "int \<Rightarrow> nat \<Rightarrow> int" where
  "days_before_month y m = (\<Sum>k \<leftarrow> [1..<m]. month_days y k)"

definition days_before_year :: "int \<Rightarrow> int" where
  "days_before_year y =
     365 * (y - 1) + (y - 1) div 4 - (y - 1) div 100 + (y - 1) div 400"

definition epoch_days :: int where "epoch_days = 719162"

definition days_of_date :: "int \<Rightarrow> nat \<Rightarrow> int \<Rightarrow> int" where
  "days_of_date y m d = days_before_year y + days_before_month y m + (d - 1) - epoch_days"

text \<open>
  The date of a day number: whole 400-year, 100-year, 4-year and 1-year cycles are cut off,
  the last 100-year and 1-year cycles being a day longer.
\<close>

definition year_of_days :: "int \<Rightarrow> int \<times> int" where
  "year_of_days days =
     (let n = days + epoch_days;
          n400 = n div 146097; r400 = n mod 146097;
          n100 = min 3 (r400 div 36524); r100 = r400 - 36524 * n100;
          n4 = r100 div 1461; r4 = r100 mod 1461;
          n1 = min 3 (r4 div 365); yday = r4 - 365 * n1
      in (400 * n400 + 100 * n100 + 4 * n4 + n1 + 1, yday))"

fun month_of_yday :: "int \<Rightarrow> nat \<Rightarrow> nat list \<Rightarrow> int \<Rightarrow> nat \<times> int" where
  "month_of_yday y m [] yday = (m, yday + 1)"
| "month_of_yday y m (k # ks) yday =
     (if yday < month_days y m then (m, yday + 1)
      else month_of_yday y k ks (yday - month_days y m))"

definition date_of_days :: "int \<Rightarrow> int \<times> nat \<times> int" where
  "date_of_days days =
     (let (y, yday) = year_of_days days; (m, d) = month_of_yday y 1 [2..<13] yday in (y, m, d))"

section \<open>Formatting: time.RFC3339Nano in UTC\<close>

fun drop_zeros :: "string \<Rightarrow> string" where
  "drop_zeros (c # cs) = (if c = CHR ''0'' then drop_zeros cs else c # cs)"
| "drop_zeros [] = []"

definition format_fraction :: "nat \<Rightarrow> string" where
  "format_fraction ns =
     (let ds = rev (drop_zeros (rev (pad 9 ns))) in if ds = [] then [] else CHR ''.'' # ds)"

definition format_year :: "int \<Rightarrow> string" where
  "format_year y = (if y < 0 then CHR ''-'' # pad 4 (nat (- y)) else pad 4 (nat y))"

definition format_time :: "instant \<Rightarrow> string" where
  "format_time t =
     (let secs = t div second_ns; ns = nat (t mod second_ns);
          sod = nat (secs mod 86400); (y, m, d) = date_of_days (secs div 86400)
      in format_year y @ ''-'' @ pad 2 m @ ''-'' @ pad 2 (nat d) @ ''T'' @
         pad 2 (sod div 3600) @ '':'' @ pad 2 (sod div 60 mod 60) @ '':'' @ pad 2 (sod mod 60) @
         format_fraction ns @ ''Z'')"

section \<open>Parsing: time.Parse with time.RFC3339Nano\<close>

text \<open>
  The layout reader, which accepts more than RFC 3339: a one-digit hour, a comma before the
  fraction and an offset of up to 24 hours and 60 minutes.
\<close>

fun expect :: "char \<Rightarrow> string \<Rightarrow> string option" where
  "expect c (x # xs) = (if x = c then Some xs else None)"
| "expect c [] = None"

fun getnum :: "bool \<Rightarrow> string \<Rightarrow> (nat \<times> string) option" where
  "getnum fixed [] = None"
| "getnum fixed (c # cs) =
     (if \<not> is_digit c then None
      else case cs of
             d # ds \<Rightarrow>
               if is_digit d then Some (digit_val c * 10 + digit_val d, ds)
               else if fixed then None else Some (digit_val c, cs)
           | [] \<Rightarrow> if fixed then None else Some (digit_val c, []))"

definition check :: "bool \<Rightarrow> unit option" where
  "check b = (if b then Some () else None)"

definition get_year :: "string \<Rightarrow> (nat \<times> string) option" where
  "get_year s =
     (if length s < 4 \<or> \<not> list_all is_digit (take 4 s) then None
      else Some (digits_val (take 4 s), drop 4 s))"

definition get_fraction :: "string \<Rightarrow> nat \<times> string" where
  "get_fraction s =
     (if length s < 2 \<or> (s ! 0 \<noteq> CHR ''.'' \<and> s ! 0 \<noteq> CHR '','') \<or> \<not> is_digit (s ! 1) then (0, s)
      else let ds = takeWhile is_digit (tl s); kept = take 9 ds
           in (digits_val kept * 10 ^ (9 - length kept), drop (length ds) (tl s)))"

definition get_zone :: "string \<Rightarrow> (int \<times> string) option" where
  "get_zone s =
     (if s \<noteq> [] \<and> hd s = CHR ''Z'' then Some (0, tl s)
      else if length s < 6 \<or> s ! 3 \<noteq> CHR '':'' then None
      else do {
        (hr, _) \<leftarrow> getnum True (take 2 (drop 1 s));
        (mm, _) \<leftarrow> getnum True (take 2 (drop 4 s));
        check (hr \<le> 24 \<and> mm \<le> 60);
        let off = (int hr * 60 + int mm) * 60;
        if s ! 0 = CHR ''+'' then Some (off, drop 6 s)
        else if s ! 0 = CHR ''-'' then Some (- off, drop 6 s)
        else None
      })"

definition parse_time :: "string \<Rightarrow> instant option" where
  "parse_time s = do {
     (y, s) \<leftarrow> get_year s;
     s \<leftarrow> expect (CHR ''-'') s;
     (mo, s) \<leftarrow> getnum True s;
     check (1 \<le> mo \<and> mo \<le> 12);
     s \<leftarrow> expect (CHR ''-'') s;
     (d, s) \<leftarrow> getnum True s;
     s \<leftarrow> expect (CHR ''T'') s;
     (h, s) \<leftarrow> getnum False s;
     check (h < 24);
     s \<leftarrow> expect (CHR '':'') s;
     (mi, s) \<leftarrow> getnum True s;
     check (mi < 60);
     s \<leftarrow> expect (CHR '':'') s;
     (sec, s) \<leftarrow> getnum True s;
     check (sec < 60);
     let (ns, s) = get_fraction s;
     (off, s) \<leftarrow> get_zone s;
     check (s = []);
     check (1 \<le> d \<and> int d \<le> month_days (int y) mo);
     Some ((days_of_date (int y) mo (int d) * 86400 + int (h * 3600 + mi * 60 + sec) - off) *
       second_ns + int ns)
   }"

text \<open>The stricter reader behind \<open>Time.UnmarshalJSON\<close>, on the contents of the string.\<close>

definition parse_time_strict :: "string \<Rightarrow> instant option" where
  "parse_time_strict b = do {
     t \<leftarrow> parse_time b;
     check (b ! 12 \<noteq> CHR '':'' \<and> b ! 19 \<noteq> CHR '','');
     (if last b = CHR ''Z'' then Some t
      else do {
        check (digits_val (take 2 (drop (length b - 5) b)) < 24);
        check (digits_val (take 2 (drop (length b - 2) b)) < 60);
        Some t
      })
   }"

section \<open>Dates round-trip\<close>

lemma cycle_divs:
  fixes a b c d :: int
  assumes "0 \<le> b" "b \<le> 3" "0 \<le> c" "c \<le> 24" "0 \<le> d" "d \<le> 3"
  shows "(400 * a + 100 * b + 4 * c + d) div 4 = 100 * a + 25 * b + c"
    and "(400 * a + 100 * b + 4 * c + d) div 100 = 4 * a + b"
    and "(400 * a + 100 * b + 4 * c + d) div 400 = a"
  using assms int_div_pos_eq [of _ 4 _ d] int_div_pos_eq [of _ 100 _ "4 * c + d"]
    int_div_pos_eq [of _ 400 _ "100 * b + 4 * c + d"]
  by simp_all

lemma capped_div:
  fixes x k :: int
  assumes "0 \<le> x" and "x \<le> 4 * k" and "0 < k"
  defines "q \<equiv> min 3 (x div k)"
  shows "0 \<le> q \<and> q \<le> 3 \<and> 0 \<le> x - k * q \<and> x - k * q \<le> k \<and> (q < 3 \<longrightarrow> x - k * q < k)"
proof (cases "x div k \<le> 3")
  case True
  then have "q = x div k" by (simp add: q_def)
  moreover have "x - k * (x div k) = x mod k" by (simp add: minus_mult_div_eq_mod)
  ultimately show ?thesis
    using assms(1,3) True pos_mod_bound [of k x] by (simp add: pos_imp_zdiv_nonneg_iff less_imp_le)
next
  case False
  then have "4 \<le> x div k" and "q = 3" by (simp_all add: q_def)
  then have "k * 4 \<le> k * (x div k)" using assms(3) by (intro mult_left_mono) simp_all
  also have "\<dots> \<le> x" using assms(3) by (metis add_increasing2 mult_div_mod_eq order_refl pos_mod_sign)
  finally have "4 * k \<le> x" by simp
  with assms(2) \<open>q = 3\<close> assms(3) show ?thesis by simp
qed

lemma year_of_days_spec:
  assumes "year_of_days days = (y, yd)"
  shows "days_before_year y + yd = days + epoch_days" and "0 \<le> yd"
    and "yd < (if is_leap y then 366 else 365)"
proof -
  define n r4h where "n = days + epoch_days" and "r4h = n mod 146097"
  define b where "b = min 3 (r4h div 36524)"
  define r1h where "r1h = r4h - 36524 * b"
  define c r4 where "c = r1h div 1461" and "r4 = r1h mod 1461"
  define d where "d = min 3 (r4 div 365)"
  define a where "a = n div 146097"
  have y: "y = 400 * a + 100 * b + 4 * c + d + 1" and yd: "yd = r4 - 365 * d"
  proof -
    have "year_of_days days = (400 * a + 100 * b + 4 * c + d + 1, r4 - 365 * d)"
      unfolding year_of_days_def Let_def a_def b_def c_def d_def r4_def r1h_def r4h_def n_def
      by (rule refl)
    then show "y = 400 * a + 100 * b + 4 * c + d + 1" "yd = r4 - 365 * d" using assms by simp_all
  qed
  have r4h: "0 \<le> r4h" "r4h < 146097" and n: "n = 146097 * a + r4h"
    by (simp_all add: r4h_def a_def)
  have b: "0 \<le> b" "b \<le> 3" "0 \<le> r1h" "r1h \<le> 36524" "b < 3 \<Longrightarrow> r1h < 36524"
    using capped_div [of r4h 36524] r4h unfolding r1h_def b_def by simp_all
  have c: "0 \<le> c" "c \<le> 24" and r1h: "r1h = 1461 * c + r4"
    and r4: "0 \<le> r4" "r4 < 1461"
    using b(3,4) by (auto simp: c_def r4_def pos_imp_zdiv_nonneg_iff)
  have d: "0 \<le> d" "d \<le> 3" "0 \<le> yd" "yd \<le> 365" "d < 3 \<Longrightarrow> yd < 365"
    using capped_div [of r4 365] r4 unfolding yd d_def by simp_all
  show "0 \<le> yd" by (rule d(3))
  have "days_before_year y = 365 * (400 * a + 100 * b + 4 * c + d) + 97 * a + 24 * b + c"
    unfolding days_before_year_def y using cycle_divs [OF b(1,2) c d(1,2), of a] by simp
  then show "days_before_year y + yd = days + epoch_days"
    using n r1h unfolding yd n_def [symmetric] r1h_def by (simp add: algebra_simps)
  show "yd < (if is_leap y then 366 else 365)"
  proof (cases "yd = 365")
    case True
    then have "d = 3" using d by linarith
    then have "r4 = 1460" using True yd by simp
    then have "c = 24 \<Longrightarrow> b = 3" using b r1h by force
    then consider "y = 400 * (a + 1)" | "c < 24" "y = 100 * (4 * a + b) + 4 * (c + 1)"
      using y \<open>d = 3\<close> c by fastforce
    then have "is_leap y"
    proof cases
      case 1
      then show ?thesis by (simp add: is_leap_def)
    next
      case 2
      have "y mod 4 = 0" using y \<open>d = 3\<close> by presburger
      moreover have "y mod 100 = 4 * (c + 1)"
        using int_mod_pos_eq [OF 2(2)] 2(1) c(1) by simp
      ultimately show ?thesis using c by (simp add: is_leap_def)
    qed
    with True show ?thesis by simp
  qed (use d in auto)
qed

lemma month_days_pos: "28 \<le> month_days y m" "month_days y m \<le> 31"
  by (auto simp: month_days_def)

lemma month_of_yday_spec:
  assumes "0 \<le> yd" and "yd < (if is_leap y then 366 else 365)"
  obtains m d where "month_of_yday y 1 [2..<13] yd = (m, d)" and "1 \<le> m" and "m \<le> 12"
    and "1 \<le> d" and "d \<le> month_days y m" and "days_before_month y m + (d - 1) = yd"
proof -
  have "\<exists>m d. month_of_yday y k [Suc k..<13] (yd - days_before_month y k) = (m, d) \<and> 1 \<le> m \<and>
      m \<le> 12 \<and> 1 \<le> d \<and> d \<le> month_days y m \<and> days_before_month y m + (d - 1) = yd"
    if "1 \<le> k" "k \<le> 12" "days_before_month y k \<le> yd" for k
    using that
  proof (induction "12 - k" arbitrary: k)
    case 0
    then have k: "k = 12" by simp
    have "days_before_month y 12 + 31 = (if is_leap y then 366 else 365)"
      by (simp add: days_before_month_def month_days_def upt_rec)
    then show ?case
      using 0 assms(2) by (simp add: k) (simp add: month_days_def)
  next
    case (Suc x)
    then have k: "k < 12" and upt: "[Suc k..<13] = Suc k # [Suc (Suc k)..<13]"
      by (simp_all add: upt_rec)
    have next_: "days_before_month y (Suc k) = days_before_month y k + month_days y k"
      using Suc.prems(1) by (simp add: days_before_month_def)
    show ?case
    proof (cases "yd - days_before_month y k < month_days y k")
      case True
      with Suc.prems k show ?thesis by (simp add: upt)
    next
      case False
      with Suc.hyps(1) [of "Suc k"] Suc.hyps(2) k show ?thesis
        by (simp add: upt next_ algebra_simps)
    qed
  qed
  note start = this [of 1]
  have "days_before_month y 1 = 0" by (simp add: days_before_month_def)
  moreover have "[Suc 1..<13] = [2..<13::nat]" by (simp only: One_nat_def numeral_2_eq_2)
  ultimately show ?thesis
    using start assms(1) that by (metis diff_zero one_le_numeral order_refl)
qed

lemma date_of_days_spec:
  obtains y m d where "date_of_days days = (y, m, d)" and "1 \<le> m" and "m \<le> 12" and "1 \<le> d"
    and "d \<le> month_days y m" and "days_of_date y m d = days"
proof -
  obtain y yd where yd: "year_of_days days = (y, yd)" by force
  note spec = year_of_days_spec [OF yd]
  obtain m d where m: "month_of_yday y 1 [2..<13] yd = (m, d)" "1 \<le> m" "m \<le> 12" "1 \<le> d"
      "d \<le> month_days y m" "days_before_month y m + (d - 1) = yd"
    by (rule month_of_yday_spec [OF spec(2,3)])
  have "date_of_days days = (y, m, d)" by (simp only: date_of_days_def yd m(1) Let_def prod.case)
  moreover have "days_of_date y m d = days"
    using m(6) spec(1) by (simp add: days_of_date_def)
  ultimately show ?thesis using that m by blast
qed

section \<open>Parsing what was formatted\<close>

lemma getnum_two: "length ds = 2 \<Longrightarrow> list_all is_digit ds \<Longrightarrow> getnum b (ds @ s) = Some (digits_val ds, s)"
  by (auto simp: numeral_2_eq_2 length_Suc_conv digits_val_Cons)

lemma getnum_pad: "n < 100 \<Longrightarrow> getnum b (pad 2 n @ s) = Some (n, s)"
  using getnum_two [OF _ pad_digits, of 2 n b s] length_pad [of 2 n] by simp

lemma get_year_pad: "n < 10000 \<Longrightarrow> get_year (pad 4 n @ s) = Some (n, s)"
  using length_pad [of 4 n] pad_digits [of 4 n] by (simp add: get_year_def)

lemma expect_append [simp]: "expect c ([c] @ s) = Some s" "expect c (c # s) = Some s"
  by simp_all

lemma drop_zeros_split: "\<exists>k. ds = replicate k (CHR ''0'') @ drop_zeros ds"
proof (induction ds)
  case (Cons c cs)
  then obtain k where "cs = replicate k (CHR ''0'') @ drop_zeros cs" by blast
  then show ?case
    by (cases "c = CHR ''0''") (auto intro: exI [of _ "Suc k"] exI [of _ 0])
qed simp

lemma digits_val_trailing: "digits_val (ds @ replicate k (CHR ''0'')) = digits_val ds * 10 ^ k"
proof (induction k)
  case (Suc k)
  then show ?case
    using digits_val_snoc [of "ds @ replicate k (CHR ''0'')"]
    by (simp add: replicate_append_same [symmetric] del: replicate_append_same)
qed simp

lemma not_digit_Z [simp]: "\<not> is_digit (CHR ''Z'')"
  by (simp add: is_digit_def byte_def)

lemma get_fraction_format:
  assumes "n < 10 ^ 9"
  shows "get_fraction (format_fraction n @ ''Z'') = (n, ''Z'')"
proof -
  define ds where "ds = rev (drop_zeros (rev (pad 9 n)))"
  obtain k where "rev (pad 9 n) = replicate k (CHR ''0'') @ drop_zeros (rev (pad 9 n))"
    using drop_zeros_split by blast
  then have "rev (rev (pad 9 n)) = rev (replicate k (CHR ''0'') @ drop_zeros (rev (pad 9 n)))"
    by (rule arg_cong)
  then have pad: "pad 9 n = ds @ replicate k (CHR ''0'')" by (simp add: ds_def)
  have len: "length ds + k = 9" using length_pad [of 9 n] assms by (simp add: pad)
  have dig: "list_all is_digit ds" using pad_digits [of 9 n] by (simp add: pad)
  have val: "n = digits_val ds * 10 ^ k" using digits_val_pad [of 9 n] by (simp add: pad digits_val_trailing)
  show ?thesis
  proof (cases ds)
    case Nil
    then have "format_fraction n = []"
      by (simp only: format_fraction_def ds_def [symmetric] Let_def refl if_True)
    with val Nil show ?thesis by (simp add: get_fraction_def)
  next
    case (Cons c cs)
    have "takeWhile is_digit (ds @ ''Z'') = ds"
      using dig by (subst takeWhile_append2) (auto simp: list_all_iff)
    moreover have "is_digit c" using dig Cons by simp
    moreover have "9 - length ds = k" using len by simp
    moreover have "format_fraction n = CHR ''.'' # ds"
      unfolding format_fraction_def ds_def [symmetric] Let_def using Cons by simp
    ultimately show ?thesis
      using len val Cons by (simp add: get_fraction_def Let_def)
  qed
qed

definition in_years :: "instant \<Rightarrow> bool" where
  "in_years t \<longleftrightarrow> fst (date_of_days (t div second_ns div 86400)) \<in> {0..9999}"

lemma parse_format:
  assumes "in_years t"
  shows "parse_time (format_time t) = Some t"
proof -
  define secs ns where "secs = t div second_ns" and "ns = nat (t mod second_ns)"
  define sod where "sod = nat (secs mod 86400)"
  obtain y m d where date: "date_of_days (secs div 86400) = (y, m, d)" "1 \<le> m" "m \<le> 12" "1 \<le> d"
      "d \<le> month_days y m" "days_of_date y m d = secs div 86400"
    by (rule date_of_days_spec)
  have y: "0 \<le> y" "y \<le> 9999" using assms date(1) by (simp_all add: in_years_def secs_def)
  have d31: "d \<le> 31" using date(5) month_days_pos(2) [of y m] by linarith
  have sod: "sod < 86400" by (simp add: sod_def)
  have ns: "ns < 10 ^ 9" by (simp add: ns_def second_ns_def)
  have fmt: "format_time t = pad 4 (nat y) @ ''-'' @ pad 2 m @ ''-'' @ pad 2 (nat d) @ ''T'' @
      pad 2 (sod div 3600) @ '':'' @ pad 2 (sod div 60 mod 60) @ '':'' @ pad 2 (sod mod 60) @
      (format_fraction ns @ ''Z'')"
    using y by (simp add: format_time_def Let_def secs_def [symmetric] ns_def [symmetric]
        sod_def [symmetric] date(1) format_year_def)
  have hms: "sod div 3600 < 24" "sod div 60 mod 60 < 60" "sod mod 60 < 60"
    using sod by (simp_all add: less_mult_imp_div_less)
  have "sod div 3600 * 60 + sod div 60 mod 60 = sod div 60"
    using div_mult2_eq [of sod 60 60] by simp
  then have sod_eq: "sod div 3600 * 3600 + sod div 60 mod 60 * 60 + sod mod 60 = sod"
    using div_mult_mod_eq [of sod 60] by linarith
  have sod_int: "int (sod div 3600) * 3600 + int (sod div 60 mod 60) * 60 + int (sod mod 60) = int sod"
    using arg_cong [OF sod_eq, of int] by (simp only: of_nat_add of_nat_mult of_nat_numeral)
  have one: "Suc 0 \<le> nat d" using date(4) by simp
  have frac: "get_fraction (format_fraction ns @ ''Z'') = (ns, ''Z'')"
    using ns by (rule get_fraction_format)
  have "secs div 86400 * 86400 + int sod = secs" by (simp add: sod_def)
  moreover have "secs * second_ns + int ns = t" by (simp add: secs_def ns_def second_ns_def)
  ultimately have "(days_of_date y m d * 86400 + int sod) * second_ns + int ns = t"
    by (simp add: date(6))
  then show ?thesis
    unfolding fmt parse_time_def
    using y d31 date(2-5) hms one
    by (simp add: get_year_pad getnum_pad check_def frac get_zone_def sod_int del: append.simps)
qed

lemma length_dec_min: "10 ^ k \<le> n \<Longrightarrow> Suc k \<le> length (dec n)"
  unfolding dec_def length_rev
proof (induction k arbitrary: n)
  case 0
  then show ?case by (subst dec_rev.simps) simp
next
  case (Suc k)
  then have "10 ^ k \<le> n div 10" by (simp add: less_eq_div_iff_mult_less_eq mult.commute)
  then have "Suc k \<le> length (dec_rev (n div 10))" by (rule Suc.IH)
  moreover have "\<not> n < 10" using Suc.prems by (auto simp: not_less intro: order_trans [of 10 "10 ^ Suc k"])
  ultimately show ?case by (subst dec_rev.simps) simp
qed

lemma parse_format_outside:
  assumes "\<not> in_years t"
  shows "parse_time (format_time t) = None"
proof -
  obtain y m d where date: "date_of_days (t div second_ns div 86400) = (y, m, d)"
    by (metis prod_cases3)
  obtain rest where fmt: "format_time t = format_year y @ ''-'' @ rest"
    by (simp add: format_time_def Let_def date)
  consider "y < 0" | "9999 < y" using assms date by (force simp: in_years_def)
  then show ?thesis
  proof cases
    case 1
    then have "format_time t = CHR ''-'' # pad 4 (nat (- y)) @ ''-'' @ rest"
      by (simp add: fmt format_year_def)
    then show ?thesis by (simp add: parse_time_def get_year_def is_digit_def byte_def)
  next
    case 2
    then have len: "5 \<le> length (dec (nat y))" using length_dec_min [of 4 "nat y"] by simp
    then obtain a b c e f ds where ds: "dec (nat y) = a # b # c # e # f # ds"
      by (auto simp: numeral_eq_Suc Suc_le_length_iff)
    have "format_time t = dec (nat y) @ ''-'' @ rest" using 2 len by (simp add: fmt format_year_def pad_def)
    moreover have "is_digit f" using dec_digits [of "nat y"] by (simp add: ds)
    then have "f \<noteq> CHR ''-''" by (auto simp: is_digit_def byte_def)
    ultimately show ?thesis by (simp add: parse_time_def get_year_def ds)
  qed
qed

end
