(* ===== verification/Eviction.thy ===== *)
theory Eviction
  imports GoTime "HOL-Library.AList"
begin

text \<open>
  Bounded maps that make room by dropping their oldest entry: the loop that both the cursor
  store (\<open>internal/mcpserver/cursor.go\<close>) and the metadata cache
  (\<open>internal/repositories/metadata.go\<close>) run over a Go map, here an association list in the
  order the map happens to be iterated in.
\<close>

section \<open>The oldest entry of a map\<close>

text \<open>
  The loop by which the cursor store and the metadata cache choose the entry to evict. The
  empty string is the sentinel for no entry.
\<close>

fun oldest_loop :: "('v \<Rightarrow> int) \<Rightarrow> (string \<times> 'v) list \<Rightarrow> string \<Rightarrow> int \<Rightarrow> string" where
  "oldest_loop stamp [] oldest t = oldest"
| "oldest_loop stamp ((token, v) # es) oldest t =
     (if oldest = [] \<or> stamp v < t then oldest_loop stamp es token (stamp v)
      else oldest_loop stamp es oldest t)"

definition evict_oldest :: "('v \<Rightarrow> int) \<Rightarrow> (string \<times> 'v) list \<Rightarrow> (string \<times> 'v) list" where
  "evict_oldest stamp es =
     (let oldest = oldest_loop stamp es [] zero_time
      in if oldest \<noteq> [] then AList.delete oldest es else es)"

lemma oldest_loop_spec:
  assumes "\<forall>e \<in> set es. fst e \<noteq> []" and "oldest \<noteq> []"
  shows "(oldest_loop stamp es oldest t = oldest \<and> (\<forall>e \<in> set es. t \<le> stamp (snd e)) \<or>
    (\<exists>v. (oldest_loop stamp es oldest t, v) \<in> set es \<and> stamp v < t \<and>
      (\<forall>e \<in> set es. stamp v \<le> stamp (snd e)))) \<and> oldest_loop stamp es oldest t \<noteq> []"
  using assms
proof (induction es arbitrary: oldest t)
  case Nil
  then show ?case by simp
next
  case (Cons e es)
  obtain k v where e: "e = (k, v)" by (cases e)
  show ?case
  proof (cases "stamp v < t")
    case True
    have k: "k \<noteq> []" using Cons.prems e by simp
    then have "oldest_loop stamp (e # es) oldest t = oldest_loop stamp es k (stamp v)"
      using True by (simp add: e)
    with Cons.IH [of k "stamp v"] Cons.prems k True show ?thesis by (auto simp: e)
  next
    case False
    then have "oldest_loop stamp (e # es) oldest t = oldest_loop stamp es oldest t"
      using Cons.prems by (simp add: e)
    with Cons.IH [of oldest t] Cons.prems False show ?thesis by (auto simp: e)
  qed
qed

lemma oldest_loop_min:
  assumes "\<forall>e \<in> set es. fst e \<noteq> []" and "es \<noteq> []"
  obtains v where "(oldest_loop stamp es [] t, v) \<in> set es"
    and "\<forall>e \<in> set es. stamp v \<le> stamp (snd e)" and "oldest_loop stamp es [] t \<noteq> []"
proof -
  obtain k v rest where es: "es = (k, v) # rest" using assms(2) by (metis list.exhaust surj_pair)
  then have k: "k \<noteq> []" and rest: "\<forall>e \<in> set rest. fst e \<noteq> []" using assms(1) by auto
  have step: "oldest_loop stamp es [] t = oldest_loop stamp rest k (stamp v)" by (simp add: es)
  note spec = oldest_loop_spec [OF rest k, of stamp "stamp v", folded step]
  from spec consider "oldest_loop stamp es [] t = k" "\<forall>e \<in> set rest. stamp v \<le> stamp (snd e)"
    | w where "(oldest_loop stamp es [] t, w) \<in> set rest" "stamp w < stamp v"
        "\<forall>e \<in> set rest. stamp w \<le> stamp (snd e)"
    by blast
  then show ?thesis
  proof cases
    case 1
    show ?thesis
    proof (rule that)
      show "(oldest_loop stamp es [] t, v) \<in> set es" unfolding 1(1) by (simp add: es)
      show "\<forall>e \<in> set es. stamp v \<le> stamp (snd e)" unfolding es using 1(2) by simp
    qed (rule spec [THEN conjunct2])
  next
    case 2
    show ?thesis
    proof (rule that)
      show "(oldest_loop stamp es [] t, w) \<in> set es"
        unfolding es set_simps using 2(1) unfolding es by (rule insertI2)
      show "\<forall>e \<in> set es. stamp w \<le> stamp (snd e)" unfolding es using 2(2,3) by simp
    qed (rule spec [THEN conjunct2])
  qed
qed

lemma delete_subset: "set (AList.delete k es) = {e \<in> set es. fst e \<noteq> k}"
  unfolding AList.delete_eq by auto

lemma evict_oldest_set:
  assumes "\<forall>e \<in> set es. fst e \<noteq> []" and "es \<noteq> []" and "distinct (map fst es)"
  obtains e where "e \<in> set es" and "\<forall>e' \<in> set es. stamp (snd e) \<le> stamp (snd e')"
    and "set (evict_oldest stamp es) = set es - {e}"
    and "length (evict_oldest stamp es) < length es"
proof -
  let ?k = "oldest_loop stamp es [] zero_time"
  obtain v where v: "(?k, v) \<in> set es"
    and min: "\<forall>e \<in> set es. stamp v \<le> stamp (snd e)" and ne: "?k \<noteq> []"
    using oldest_loop_min [OF assms(1,2)] by metis
  have ev: "evict_oldest stamp es = filter (\<lambda>e. fst e \<noteq> ?k) es"
    using ne by (auto simp: evict_oldest_def Let_def AList.delete_eq case_prod_unfold
        intro: filter_cong)
  have "set (evict_oldest stamp es) = set es - {(?k, v)}"
    using v eq_key_imp_eq_value [OF assms(3)] by (auto simp: ev)
  moreover have "length (evict_oldest stamp es) < length es"
    unfolding ev using v by (intro length_filter_less) auto
  ultimately show ?thesis using that [of "(?k, v)"] v min by simp
qed

lemma evict_oldest_keys:
  "distinct (map fst es) \<Longrightarrow> distinct (map fst (evict_oldest stamp es))"
  by (simp add: evict_oldest_def Let_def distinct_delete)

lemma evict_oldest_subset: "set (evict_oldest stamp es) \<subseteq> set es"
  by (auto simp: evict_oldest_def Let_def delete_subset)

lemma evict_oldest_length: "length (evict_oldest stamp es) \<le> length es"
  by (simp add: evict_oldest_def Let_def length_delete_le)

lemma length_update_le: "length (AList.update k v es) \<le> Suc (length es)"
  by (induction es) auto

lemma set_update_le: "set (AList.update k v es) \<subseteq> insert (k, v) (set es)"
  by (induction es) auto

end
