(* ===== verification/Cursor.thy ===== *)
theory Cursor
  imports AppErr Eviction
begin

text \<open>
  The continuation cursors of \<open>internal/mcpserver/cursor.go\<close>: the state a cursor stands
  for, its random token, and the bounded store that hands tokens out and takes them back
  once. Instants are nanoseconds since the epoch. The store's Go map is an association list
  with distinct keys whose order stands for the order in which Go happens to range over the
  map; the run below reshuffles it between operations. The clock and the random bytes are
  arguments.
\<close>

section \<open>Cursor states and the store\<close>

record cursor_state =
  cs_version :: int
  cs_tool :: string
  cs_repository :: string
  cs_host :: string
  cs_tags :: "string list"
  cs_path :: string
  cs_after :: string
  cs_before :: string
  cs_pattern :: string
  cs_ignore_case :: bool
  cs_recursive :: bool
  cs_snapshot_ids :: "string list"
  cs_offset :: int
  cs_last_time :: int
  cs_last_id :: string
  cs_total :: int
  cs_expires :: int
  cs_created :: int

text \<open>Go's zero value, from which the handlers build the states they issue.\<close>

definition zero_cursor_state :: cursor_state where
  "zero_cursor_state =
     \<lparr>cs_version = 0, cs_tool = [], cs_repository = [], cs_host = [], cs_tags = [],
      cs_path = [], cs_after = [], cs_before = [], cs_pattern = [], cs_ignore_case = False,
      cs_recursive = False, cs_snapshot_ids = [], cs_offset = 0, cs_last_time = zero_time,
      cs_last_id = [], cs_total = 0, cs_expires = zero_time, cs_created = zero_time\<rparr>"

record cursor_store =
  st_entries :: "(string \<times> cursor_state) list"
  st_max :: int
  st_ttl :: int

definition cursorTokenBytes :: nat where "cursorTokenBytes = 24"
definition cursorMaxEntries :: int where "cursorMaxEntries = 256"
definition cursorDefaultTTL :: int where "cursorDefaultTTL = 5 * 60 * 1000000000"
definition cursorStateVersion :: int where "cursorStateVersion = 1"

definition newCursorStore :: cursor_store where
  "newCursorStore =
     \<lparr>st_entries = [], st_max = cursorMaxEntries, st_ttl = cursorDefaultTTL\<rparr>"

section \<open>Tokens\<close>

text \<open>Unpadded base64 with the URL alphabet, on byte values.\<close>

definition url_alphabet :: string where
  "url_alphabet = ''ABCDEFGHIJKLMNOPQRSTUVWXYZabcdefghijklmnopqrstuvwxyz0123456789-_''"

fun b64_digits :: "nat list \<Rightarrow> nat list" where
  "b64_digits [] = []"
| "b64_digits [a] = [a div 4, (a mod 4) * 16]"
| "b64_digits [a, b] = [a div 4, (a mod 4) * 16 + b div 16, (b mod 16) * 4]"
| "b64_digits (a # b # c # bs) =
     a div 4 # ((a mod 4) * 16 + b div 16) # ((b mod 16) * 4 + c div 64) # c mod 64 #
     b64_digits bs"

definition raw_url_encode :: "string \<Rightarrow> string" where
  "raw_url_encode raw = map (\<lambda>d. url_alphabet ! d) (b64_digits (map byte raw))"

text \<open>
  \<open>rand.Read\<close> either fails or fills the buffer of 24 bytes; the error or the random
  stream is the argument.
\<close>

definition newCursorToken :: "go_error + (nat \<Rightarrow> char) \<Rightarrow> string res" where
  "newCursorToken rand =
     (case rand of
        Inl err \<Rightarrow> Inl err
      | Inr stream \<Rightarrow> Inr (raw_url_encode (map stream [0..<cursorTokenBytes])))"

section \<open>Operations\<close>

definition pruneLocked :: "int \<Rightarrow> (string \<times> cursor_state) list \<Rightarrow> (string \<times> cursor_state) list" where
  "pruneLocked now es = filter (\<lambda>(token, state). \<not> \<not> now < cs_expires state) es"

definition evictOldestLocked :: "(string \<times> cursor_state) list \<Rightarrow> (string \<times> cursor_state) list" where
  "evictOldestLocked es = evict_oldest cs_created es"

definition stamped :: "cursor_store \<Rightarrow> int \<Rightarrow> cursor_state \<Rightarrow> cursor_state" where
  "stamped s now state =
     state\<lparr>cs_version := cursorStateVersion, cs_created := now, cs_expires := now + st_ttl s\<rparr>"

definition issue ::
    "go_error + (nat \<Rightarrow> char) \<Rightarrow> int \<Rightarrow> cursor_state \<Rightarrow> cursor_store \<Rightarrow> string res \<times> cursor_store" where
  "issue rand now state s =
     (case newCursorToken rand of
        Inl err \<Rightarrow>
          (Inl (with_cause (new_error InternalError ''failed to create continuation cursor'') err), s)
      | Inr token \<Rightarrow>
          let es = pruneLocked now (st_entries s);
              es' = (if int (length es) \<ge> st_max s then evictOldestLocked es else es)
          in (Inr token, s\<lparr>st_entries := AList.update token (stamped s now state) es'\<rparr>))"

definition take_cursor ::
    "string \<Rightarrow> string \<Rightarrow> string \<Rightarrow> int \<Rightarrow> cursor_store \<Rightarrow> cursor_state res \<times> cursor_store" where
  "take_cursor token tool repositoryID now s =
     (case map_of (st_entries s) token of
        None \<Rightarrow> (Inl (new_error CursorInvalid ''cursor is invalid or already used''), s)
      | Some state \<Rightarrow>
          let s' = s\<lparr>st_entries := AList.delete token (st_entries s)\<rparr>
          in if \<not> now < cs_expires state
               then (Inl (new_error CursorInvalid ''cursor has expired''), s')
             else if cs_version state \<noteq> cursorStateVersion \<or> cs_tool state \<noteq> tool \<or>
                     cs_repository state \<noteq> repositoryID
               then (Inl (new_error CursorInvalid
                       ''cursor does not match this repository or tool''), s')
             else (Inr state, s'))"

text \<open>
  A history of the store: requests in the order the mutex admits them, each with its clock
  reading, and reshuffles of the map's iteration order.
\<close>

datatype cursor_op =
    Issue "go_error + (nat \<Rightarrow> char)" int cursor_state
  | Take string string string int
  | Shuffle "(string \<times> cursor_state) list"

fun cursor_step :: "cursor_op \<Rightarrow> cursor_store \<Rightarrow> cursor_store" where
  "cursor_step (Issue rand now state) s = snd (issue rand now state s)"
| "cursor_step (Take token tool repo now) s = snd (take_cursor token tool repo now s)"
| "cursor_step (Shuffle es) s = (if mset es = mset (st_entries s) then s\<lparr>st_entries := es\<rparr> else s)"

definition cursor_run :: "cursor_op list \<Rightarrow> cursor_store \<Rightarrow> cursor_store" where
  "cursor_run ops s = fold cursor_step ops s"

text \<open>The request is a \<open>take\<close> of the token and succeeds.\<close>

fun redeems :: "string \<Rightarrow> cursor_op \<Rightarrow> cursor_store \<Rightarrow> bool" where
  "redeems tok (Take token tool repo now) s =
     (token = tok \<and> \<not> isl (fst (take_cursor token tool repo now s)))"
| "redeems tok _ s = False"

fun issues :: "string \<Rightarrow> cursor_op \<Rightarrow> bool" where
  "issues tok (Issue rand now state) = (newCursorToken rand = Inr tok)"
| "issues tok _ = False"

section \<open>Tokens are distinct\<close>

fun b64_bytes :: "nat list \<Rightarrow> nat list" where
  "b64_bytes (x # y # z # w # ds) =
     (x * 4 + y div 16) # ((y mod 16) * 16 + z div 4) # ((z mod 4) * 64 + w) # b64_bytes ds"
| "b64_bytes [x, y, z] = [x * 4 + y div 16, (y mod 16) * 16 + z div 4]"
| "b64_bytes [x, y] = [x * 4 + y div 16]"
| "b64_bytes _ = []"

lemma b64_bytes_digits: "list_all (\<lambda>b. b < 256) bs \<Longrightarrow> b64_bytes (b64_digits bs) = bs"
proof (induction bs rule: b64_digits.induct)
  case (4 a b c bs)
  have "(a mod 4 * 16 + b div 16) div 16 = a mod 4" "(b mod 16 * 4 + c div 64) div 4 = b mod 16"
    "(a mod 4 * 16 + b div 16) mod 16 = b div 16" "(b mod 16 * 4 + c div 64) mod 4 = c div 64"
    using 4(2) by auto
  with 4 show ?case by auto
qed auto

lemma b64_digits_bound: "list_all (\<lambda>b. b < 256) bs \<Longrightarrow> list_all (\<lambda>d. d < 64) (b64_digits bs)"
  by (induction bs rule: b64_digits.induct) auto

lemma url_alphabet_inj: "i < 64 \<Longrightarrow> j < 64 \<Longrightarrow> url_alphabet ! i = url_alphabet ! j \<longleftrightarrow> i = j"
  by (rule nth_eq_iff_index_eq) (simp_all add: url_alphabet_def)

lemma byte_bounds: "list_all (\<lambda>b. b < 256) (map byte cs)"
  by (simp add: list_all_iff byte_def)

lemma raw_url_encode_inj: "raw_url_encode a = raw_url_encode b \<longleftrightarrow> a = b"
proof
  assume eq: "raw_url_encode a = raw_url_encode b"
  have "b64_digits (map byte a) = b64_digits (map byte b)"
  proof (rule nth_equalityI)
    show len: "length (b64_digits (map byte a)) = length (b64_digits (map byte b))"
      using arg_cong [OF eq, of length] by (simp add: raw_url_encode_def)
    show "b64_digits (map byte a) ! i = b64_digits (map byte b) ! i"
      if i: "i < length (b64_digits (map byte a))" for i
      using arg_cong [OF eq, of "\<lambda>xs. xs ! i"] i len
        b64_digits_bound [OF byte_bounds, of a] b64_digits_bound [OF byte_bounds, of b]
      by (simp add: raw_url_encode_def url_alphabet_inj list_all_length)
  qed
  then have "map byte a = map byte b" by (metis b64_bytes_digits byte_bounds)
  then show "a = b" by (simp add: byte_def inj_map_eq_map inj_def)
qed simp

lemma length_b64_digits: "length (b64_digits bs) = (4 * length bs + 2) div 3"
  by (induction bs rule: b64_digits.induct) auto

lemma newCursorToken_Inr:
  "newCursorToken rand = Inr token \<longleftrightarrow>
     (\<exists>stream. rand = Inr stream \<and> token = raw_url_encode (map stream [0..<24]))"
  by (auto simp: newCursorToken_def cursorTokenBytes_def split: sum.splits)

lemma length_token: "newCursorToken rand = Inr token \<Longrightarrow> length token = 32"
  by (auto simp: newCursorToken_Inr raw_url_encode_def length_b64_digits simp del: upt_rec_numeral)

section \<open>The invariant of the store\<close>

definition cursor_store_ok :: "cursor_store \<Rightarrow> bool" where
  "cursor_store_ok s \<longleftrightarrow>
     0 < st_max s \<and> distinct (map fst (st_entries s)) \<and>
     int (length (st_entries s)) \<le> st_max s \<and>
     list_all (\<lambda>(token, st). token \<noteq> [] \<and> cs_version st = cursorStateVersion \<and>
       cs_expires st = cs_created st + st_ttl s) (st_entries s)"

lemma issue_entries:
  assumes "issue rand now state s = (Inr token, s')"
  obtains es where "st_entries s' = AList.update token (stamped s now state) es"
    and "es = (if int (length (pruneLocked now (st_entries s))) \<ge> st_max s
      then evictOldestLocked (pruneLocked now (st_entries s))
      else pruneLocked now (st_entries s))"
    and "newCursorToken rand = Inr token" and "st_max s' = st_max s" and "st_ttl s' = st_ttl s"
  using assms by (auto simp: issue_def Let_def split: sum.splits)

lemma prune_subset: "set (pruneLocked now es) \<subseteq> set es"
  by (auto simp: pruneLocked_def)

lemma prune_keys: "distinct (map fst es) \<Longrightarrow> distinct (map fst (pruneLocked now es))"
  by (simp add: pruneLocked_def distinct_map_filter)

lemma room_after_evict:
  assumes "distinct (map fst es)" and "\<forall>e \<in> set es. fst e \<noteq> []" and "int (length es) \<le> mx" and "0 < mx"
  shows "int (length (if int (length es) \<ge> mx then evictOldestLocked es else es)) < mx"
proof (cases "int (length es) \<ge> mx")
  case True
  then have "es \<noteq> []" using assms(4) by auto
  then have "length (evictOldestLocked es) < length es"
    using evict_oldest_set [OF assms(2) _ assms(1)] unfolding evictOldestLocked_def by metis
  with True assms(3) show ?thesis by simp
qed simp

lemma issue_ok:
  assumes ok: "cursor_store_ok s" and run: "issue rand now state s = (Inr token, s')"
  shows "cursor_store_ok s'"
proof -
  let ?p = "pruneLocked now (st_entries s)"
  from issue_entries [OF run] obtain es where
      ent: "st_entries s' = AList.update token (stamped s now state) es"
    and es: "es = (if int (length ?p) \<ge> st_max s then evictOldestLocked ?p else ?p)"
    and tok: "newCursorToken rand = Inr token" and same: "st_max s' = st_max s" "st_ttl s' = st_ttl s"
    by metis
  have p: "distinct (map fst ?p)" "\<forall>e \<in> set ?p. fst e \<noteq> []"
    using ok prune_subset [of now "st_entries s"]
    by (auto simp: cursor_store_ok_def prune_keys list_all_iff)
  have len: "int (length ?p) \<le> st_max s"
    using ok length_filter_le [of _ "st_entries s"] unfolding cursor_store_ok_def pruneLocked_def
    by (meson of_nat_mono order_trans)
  have "int (length es) < st_max s"
    unfolding es using p len ok by (intro room_after_evict) (auto simp: cursor_store_ok_def)
  then have "int (length (st_entries s')) \<le> st_max s"
    unfolding ent using length_update_le [of token "stamped s now state" es] by linarith
  moreover have "distinct (map fst es)"
    using p(1) evict_oldest_keys [OF p(1), of cs_created] unfolding es evictOldestLocked_def by simp
  moreover have "set es \<subseteq> set ?p"
    using evict_oldest_subset [of cs_created ?p] unfolding es evictOldestLocked_def by simp
  then have "set es \<subseteq> set (st_entries s)" using prune_subset by blast
  then have "set (st_entries s') \<subseteq> insert (token, stamped s now state) (set (st_entries s))"
    using set_update_le [of token "stamped s now state" es] unfolding ent by blast
  then have mem: "x = (token, stamped s now state) \<or> x \<in> set (st_entries s)"
    if "x \<in> set (st_entries s')" for x using that by blast
  have "token \<noteq> []" using length_token [OF tok] by auto
  then have "list_all (\<lambda>(token, st). token \<noteq> [] \<and> cs_version st = cursorStateVersion \<and>
       cs_expires st = cs_created st + st_ttl s) (st_entries s')"
    using ok unfolding list_all_iff cursor_store_ok_def
    by (auto dest!: mem simp: stamped_def)
  ultimately show ?thesis
    using ok unfolding cursor_store_ok_def same by (simp add: ent distinct_update)
qed

lemma take_ok: "cursor_store_ok s \<Longrightarrow> cursor_store_ok (snd (take_cursor token tool repo now s))"
  by (auto simp: cursor_store_ok_def take_cursor_def Let_def list_all_iff delete_subset
      distinct_delete split: option.splits
      intro: order_trans [OF of_nat_mono [OF length_delete_le]])

lemma cursor_step_ok: "cursor_store_ok s \<Longrightarrow> cursor_store_ok (cursor_step op s)"
proof (cases op)
  case (Issue rand now state)
  assume ok: "cursor_store_ok s"
  show ?thesis
  proof (cases "issue rand now state s")
    case (Pair r s')
    then show ?thesis
      using ok issue_ok [OF ok] by (cases r) (auto simp: Issue issue_def Let_def split: sum.splits)
  qed
next
  case (Shuffle es)
  assume ok: "cursor_store_ok s"
  have "distinct (map fst es)" "length es = length (st_entries s)" "set es = set (st_entries s)"
    if "mset es = mset (st_entries s)"
    using ok that mset_eq_setD size_mset mset_eq_imp_distinct_iff [of "map fst es" "map fst (st_entries s)"]
    by (auto simp: cursor_store_ok_def dest: mset_eq_length)
  with ok show ?thesis by (auto simp: Shuffle cursor_store_ok_def list_all_iff)
qed (simp add: take_ok)

lemma cursor_run_ok: "cursor_store_ok s \<Longrightarrow> cursor_store_ok (cursor_run ops s)"
  unfolding cursor_run_def by (induction ops arbitrary: s) (simp_all add: cursor_step_ok)

section \<open>A one-shot store\<close>

text \<open>How many requests of a history win, a request winning or not in the state it meets.\<close>

primrec count_wins :: "('op \<Rightarrow> 's \<Rightarrow> 's) \<Rightarrow> ('op \<Rightarrow> 's \<Rightarrow> bool) \<Rightarrow> 'op list \<Rightarrow> 's \<Rightarrow> nat" where
  "count_wins step wins [] s = 0"
| "count_wins step wins (op # ops) s =
     (if wins op s then 1 else 0) + count_wins step wins ops (step op s)"

text \<open>
  The contract the handlers rely on: only a live key can be redeemed, redeeming it kills it,
  and nothing but an issue of the key brings it to life.
\<close>

locale one_shot =
  fixes step :: "'op \<Rightarrow> 's \<Rightarrow> 's"
    and live :: "'k \<Rightarrow> 's \<Rightarrow> bool"
    and wins :: "'k \<Rightarrow> 'op \<Rightarrow> 's \<Rightarrow> bool"
    and adds :: "'k \<Rightarrow> 'op \<Rightarrow> bool"
    and ok :: "'s \<Rightarrow> bool"
  assumes wins_live: "wins k op s \<Longrightarrow> live k s"
    and wins_kills: "ok s \<Longrightarrow> wins k op s \<Longrightarrow> \<not> live k (step op s)"
    and only_issue: "live k (step op s) \<Longrightarrow> live k s \<or> adds k op"
    and step_ok: "ok s \<Longrightarrow> ok (step op s)"
begin

lemma wins_bounded:
  "ok s \<Longrightarrow> count_wins step (wins k) ops s \<le> (if live k s then 1 else 0) + length (filter (adds k) ops)"
proof (induction ops arbitrary: s)
  case (Cons op ops)
  have "count_wins step (wins k) ops (step op s)
      \<le> (if live k (step op s) then 1 else 0) + length (filter (adds k) ops)"
    using Cons step_ok by blast
  then show ?case
    using wins_live [of k op s] wins_kills [OF Cons.prems, of k op] only_issue [of k op s]
    by (cases "live k s"; cases "live k (step op s)"; cases "wins k op s"; cases "adds k op") simp_all
qed simp

lemma single_use:
  assumes "ok s" and "\<not> live k s" and "length (filter (adds k) ops) \<le> 1"
  shows "count_wins step (wins k) ops s \<le> 1"
  using wins_bounded [OF assms(1), of k ops] assms(2,3) by simp

end

definition live :: "string \<Rightarrow> cursor_store \<Rightarrow> bool" where
  "live token s \<longleftrightarrow> token \<in> fst ` set (st_entries s)"

lemma live_map_of: "live token s \<longleftrightarrow> map_of (st_entries s) token \<noteq> None"
  by (auto simp: live_def map_of_eq_None_iff)

lemma keys_update: "fst ` set (AList.update k v es) = insert k (fst ` set es)"
  by (induction es) auto

interpretation cs: one_shot cursor_step live redeems issues cursor_store_ok
proof
  fix k op s assume "redeems k op s"
  then show "live k s"
    by (cases op) (auto simp: take_cursor_def live_map_of split: option.splits)
next
  fix k op s assume "cursor_store_ok s" "redeems k op s"
  then show "\<not> live k (cursor_step op s)"
    by (cases op) (auto simp: take_cursor_def Let_def live_def delete_subset split: option.splits if_splits)
next
  fix k op s assume live: "live k (cursor_step op s)"
  show "live k s \<or> issues k op"
  proof (cases op)
    case (Issue rand now state)
    show ?thesis
    proof (cases "newCursorToken rand")
      case (Inl e)
      with live show ?thesis by (simp add: Issue issue_def)
    next
      case (Inr token)
      then obtain s' where run: "issue rand now state s = (Inr token, s')"
        by (simp add: issue_def Let_def)
      from issue_entries [OF run] obtain es where
          ent: "st_entries s' = AList.update token (stamped s now state) es"
        and "set es \<subseteq> set (st_entries s)"
        using evict_oldest_subset prune_subset unfolding evictOldestLocked_def
        by (metis (no_types, lifting) order_trans)
      with live Inr show ?thesis by (auto simp: Issue run live_def ent keys_update)
    qed
  next
    case (Take token tool repo now)
    with live show ?thesis
      by (auto simp: take_cursor_def Let_def live_def delete_subset split: option.splits if_splits)
  next
    case (Shuffle es)
    with live show ?thesis by (auto simp: live_def dest: mset_eq_setD split: if_splits)
  qed
qed (rule cursor_step_ok)

section \<open>A cursor outlives up to 255 newer ones\<close>

text \<open>
  Requests that neither name the token nor come from outside the span in which it is fresh.
\<close>

fun elsewhere :: "string \<Rightarrow> int \<Rightarrow> int \<Rightarrow> cursor_op \<Rightarrow> bool" where
  "elsewhere tok t0 t1 (Issue rand now state) \<longleftrightarrow>
     newCursorToken rand \<noteq> Inr tok \<and> t0 < now \<and> now < t1"
| "elsewhere tok t0 t1 (Take token tool repo now) \<longleftrightarrow> token \<noteq> tok"
| "elsewhere tok t0 t1 (Shuffle es) \<longleftrightarrow> True"

fun is_issue :: "cursor_op \<Rightarrow> bool" where
  "is_issue (Issue rand now state) = True"
| "is_issue _ = False"

definition newer :: "int \<Rightarrow> (string \<times> cursor_state) list \<Rightarrow> nat" where
  "newer t es = length (filter (\<lambda>e. t < cs_created (snd e)) es)"

definition holds_fresh :: "string \<Rightarrow> cursor_state \<Rightarrow> nat \<Rightarrow> cursor_store \<Rightarrow> bool" where
  "holds_fresh tok st m s \<longleftrightarrow>
     cursor_store_ok s \<and> (tok, st) \<in> set (st_entries s) \<and>
     (\<forall>e \<in> set (st_entries s). cs_created (snd e) = cs_created st \<longrightarrow> e = (tok, st)) \<and>
     newer (cs_created st) (st_entries s) \<le> m"

lemma newer_filter: "newer t (filter P es) \<le> newer t es"
  by (induction es) (auto simp: newer_def)

lemma newer_evict: "newer t (evict_oldest stamp es) \<le> newer t es"
  by (simp add: evict_oldest_def Let_def AList.delete_eq newer_filter)

lemma newer_update: "newer t (AList.update k v es) \<le> Suc (newer t es)"
  by (induction es) (auto simp: newer_def)

lemma update_keeps: "(a, b) \<in> set es \<Longrightarrow> a \<noteq> k \<Longrightarrow> (a, b) \<in> set (AList.update k v es)"
  by (induction es) auto

lemma newer_mset: "mset xs = mset ys \<Longrightarrow> newer t xs = newer t ys"
  unfolding newer_def by (metis mset_filter size_mset)

lemma evict_spares:
  assumes keys: "distinct (map fst es)" "\<forall>e \<in> set es. fst e \<noteq> []"
    and mem: "(tok, st) \<in> set es"
    and uniq: "\<forall>e \<in> set es. cs_created (snd e) = cs_created st \<longrightarrow> e = (tok, st)"
    and many: "newer (cs_created st) es + 1 < length es"
  shows "(tok, st) \<in> set (evictOldestLocked es)"
proof -
  let ?t = "cs_created st"
  have "\<exists>e \<in> set es. cs_created (snd e) < ?t"
  proof (rule ccontr)
    assume "\<not> ?thesis"
    then have "set (filter (\<lambda>e. \<not> ?t < cs_created (snd e)) es) \<subseteq> {(tok, st)}"
      using uniq by force
    moreover have "distinct (filter (\<lambda>e. \<not> ?t < cs_created (snd e)) es)"
      using keys(1) by (auto simp: distinct_map)
    ultimately have "length (filter (\<lambda>e. \<not> ?t < cs_created (snd e)) es) \<le> 1"
      using card_mono [of "{(tok, st)}"] by (simp add: distinct_card [symmetric])
    moreover have "length es = newer ?t es + length (filter (\<lambda>e. \<not> ?t < cs_created (snd e)) es)"
      unfolding newer_def using sum_length_filter_compl [of _ es] by metis
    ultimately show False using many by simp
  qed
  then obtain old where old: "old \<in> set es" "cs_created (snd old) < ?t" by blast
  have "es \<noteq> []" using mem by auto
  then obtain e where "\<forall>e' \<in> set es. cs_created (snd e) \<le> cs_created (snd e')"
    and gone: "set (evict_oldest cs_created es) = set es - {e}"
    using evict_oldest_set [OF keys(2) _ keys(1)] by metis
  with old have "e \<noteq> (tok, st)" by force
  with mem show ?thesis unfolding evictOldestLocked_def gone by simp
qed

lemma holds_fresh_sub:
  assumes "holds_fresh tok st m s" and "cursor_store_ok s'"
    and "set (st_entries s') \<subseteq> set (st_entries s)" and "(tok, st) \<in> set (st_entries s')"
    and "newer (cs_created st) (st_entries s') \<le> newer (cs_created st) (st_entries s)"
  shows "holds_fresh tok st m s'"
  using assms unfolding holds_fresh_def by (meson subsetD order_trans)

lemma holds_fresh_step:
  assumes inv: "holds_fresh tok st m s" and op: "elsewhere tok (cs_created st) (cs_expires st) op"
    and room: "is_issue op \<Longrightarrow> int m + 1 < st_max s"
  shows "holds_fresh tok st (if is_issue op then Suc m else m) (cursor_step op s)"
proof -
  have ok': "cursor_store_ok (cursor_step op s)"
    using inv cursor_step_ok by (simp add: holds_fresh_def)
  note inv' = inv [unfolded holds_fresh_def]
  show ?thesis
  proof (cases op)
    case (Issue rand now state)
    show ?thesis
    proof (cases "newCursorToken rand")
      case (Inl e)
      with inv' Issue show ?thesis by (simp add: issue_def holds_fresh_def)
    next
      case (Inr token)
      then obtain s' where run: "issue rand now state s = (Inr token, s')"
        by (simp add: issue_def Let_def)
      let ?p = "pruneLocked now (st_entries s)"
      from issue_entries [OF run] obtain es where
          ent: "st_entries s' = AList.update token (stamped s now state) es"
        and es: "es = (if int (length ?p) \<ge> st_max s then evictOldestLocked ?p else ?p)"
        by metis
      have p: "(tok, st) \<in> set ?p" "set ?p \<subseteq> set (st_entries s)"
        using inv' op by (simp_all add: Issue pruneLocked_def)
      have fewer: "newer (cs_created st) ?p \<le> m"
        using inv' newer_filter [of "cs_created st" _ "st_entries s"] unfolding pruneLocked_def
        by (meson order_trans)
      have "(tok, st) \<in> set es"
      proof (cases "int (length ?p) \<ge> st_max s")
        case True
        have "(tok, st) \<in> set (evictOldestLocked ?p)"
        proof (rule evict_spares)
          show "distinct (map fst ?p)"
            using inv' by (simp add: cursor_store_ok_def prune_keys)
          show "\<forall>e \<in> set ?p. fst e \<noteq> []"
            using inv' p(2) by (auto simp: cursor_store_ok_def list_all_iff)
          show "\<forall>e \<in> set ?p. cs_created (snd e) = cs_created st \<longrightarrow> e = (tok, st)"
            using inv' p(2) by blast
          show "newer (cs_created st) ?p + 1 < length ?p" using fewer True room Issue by simp
        qed (rule p(1))
        with True show ?thesis by (simp add: es)
      qed (use p in \<open>simp add: es\<close>)
      moreover have "tok \<noteq> token" using op Inr by (auto simp: Issue)
      moreover have sub: "set es \<subseteq> set (st_entries s)"
        using p(2) evict_oldest_subset [of cs_created ?p] unfolding es evictOldestLocked_def
        by (cases "int (length ?p) \<ge> st_max s") auto
      moreover have "newer (cs_created st) es \<le> m"
        using fewer newer_evict [of "cs_created st" cs_created ?p] by (simp add: es evictOldestLocked_def)
      then have "newer (cs_created st) (st_entries s') \<le> Suc m"
        using newer_update [of "cs_created st" token "stamped s now state" es] by (simp add: ent)
      moreover have "(tok, st) \<in> set (st_entries s')"
        using calculation(1,2) by (simp add: ent update_keeps)
      moreover have "e = (tok, st)"
        if e: "e \<in> set (st_entries s')" "cs_created (snd e) = cs_created st" for e
      proof -
        have "cs_created (snd (token, stamped s now state)) \<noteq> cs_created st"
          using op by (simp add: Issue stamped_def)
        then have "e \<noteq> (token, stamped s now state)" using e(2) by metis
        then have "e \<in> set (st_entries s)"
          using e(1) sub set_update_le [of token "stamped s now state" es] unfolding ent by blast
        then show ?thesis using inv' e(2) by blast
      qed
      then have "\<forall>e \<in> set (st_entries s'). cs_created (snd e) = cs_created st \<longrightarrow> e = (tok, st)"
        by blast
      moreover have "cursor_step op s = s'" "is_issue op" by (simp_all add: Issue run)
      ultimately show ?thesis using ok' unfolding holds_fresh_def by presburger
    qed
  next
    case (Take token tool repo now)
    have "cursor_step op s = s \<or> st_entries (cursor_step op s) = AList.delete token (st_entries s)"
      by (simp add: Take take_cursor_def Let_def split: option.split)
    then show ?thesis
    proof
      assume del: "st_entries (cursor_step op s) = AList.delete token (st_entries s)"
      have "(tok, st) \<in> set (AList.delete token (st_entries s))"
        using inv' op by (simp add: Take delete_subset)
      moreover have "newer t (AList.delete token (st_entries s)) \<le> newer t (st_entries s)" for t
        by (simp add: AList.delete_eq newer_filter)
      moreover have "set (AList.delete token (st_entries s)) \<subseteq> set (st_entries s)"
        by (simp add: delete_subset)
      ultimately have "holds_fresh tok st m (cursor_step op s)"
        using holds_fresh_sub [OF inv ok'] unfolding del by presburger
      then show ?thesis by (simp add: Take)
    qed (use inv in \<open>simp add: Take\<close>)
  next
    case (Shuffle es)
    have "st_entries (cursor_step op s) = st_entries s \<or>
        mset (st_entries (cursor_step op s)) = mset (st_entries s)"
      by (simp add: Shuffle)
    then have "mset (st_entries (cursor_step op s)) = mset (st_entries s)" by auto
    then have "set (st_entries (cursor_step op s)) = set (st_entries s)"
        "newer t (st_entries (cursor_step op s)) = newer t (st_entries s)" for t
      using mset_eq_setD newer_mset by blast+
    then have "holds_fresh tok st m (cursor_step op s)"
      using inv' by (intro holds_fresh_sub [OF inv ok']) simp_all
    then show ?thesis by (simp add: Shuffle)
  qed
qed

lemma holds_fresh_run:
  assumes "holds_fresh tok st m s" and "list_all (elsewhere tok (cs_created st) (cs_expires st)) ops"
    and "int (m + length (filter is_issue ops)) < st_max s"
  shows "holds_fresh tok st (m + length (filter is_issue ops)) (cursor_run ops s)"
  using assms unfolding cursor_run_def
proof (induction ops arbitrary: s m)
  case (Cons op ops)
  let ?m = "if is_issue op then Suc m else m"
  have same: "st_max (cursor_step op s) = st_max s"
    by (cases op) (auto simp: issue_def take_cursor_def Let_def split: sum.splits option.splits)
  have "holds_fresh tok st ?m (cursor_step op s)"
    using holds_fresh_step [of tok st m s op] Cons.prems by (cases "is_issue op") simp_all
  then show ?case
    using Cons.IH [of ?m "cursor_step op s"] Cons.prems same by (cases "is_issue op") simp_all
qed simp

section \<open>Properties\<close>

text \<open>
  C12. Whatever the interleaving of issues, redemptions and expiries, a token is redeemed at
  most once: in a store that does not hold it, its successful redemptions never exceed the
  number of times it is issued.
\<close>

theorem cursor_single_use:
  assumes "cursor_store_ok s" and "\<not> live token s"
  shows "count_wins cursor_step (redeems token) ops s \<le> length (filter (issues token) ops)"
  using cs.wins_bounded [OF assms(1), of token ops] assms(2) by simp

definition sample_stream :: "nat \<Rightarrow> char" where
  "sample_stream i = CHR ''m''"

definition sample_token :: string where
  "sample_token = raw_url_encode (replicate 24 (CHR ''m''))"

lemma newCursorStore_ok: "cursor_store_ok newCursorStore"
  by (simp add: cursor_store_ok_def newCursorStore_def cursorMaxEntries_def)

lemma sample_token_issued: "newCursorToken (Inr sample_stream) = Inr sample_token"
proof -
  have "map sample_stream [0..<24] = replicate 24 (CHR ''m'')"
    by (simp add: map_replicate_const sample_stream_def [abs_def])
  then show ?thesis by (simp add: newCursorToken_def cursorTokenBytes_def sample_token_def)
qed

theorem cursor_single_use_witness:
  "count_wins cursor_step (redeems sample_token)
     [Issue (Inr sample_stream) 7 (zero_cursor_state\<lparr>cs_tool := ''t'', cs_repository := ''r''\<rparr>),
      Take sample_token ''t'' ''r'' 8, Take sample_token ''t'' ''r'' 9] newCursorStore = 1 \<and>
   (1::nat) \<le> 1"
proof -
  have run: "count_wins cursor_step (redeems sample_token)
     [Issue (Inr sample_stream) 7 (zero_cursor_state\<lparr>cs_tool := ''t'', cs_repository := ''r''\<rparr>),
      Take sample_token ''t'' ''r'' 8, Take sample_token ''t'' ''r'' 9] newCursorStore = 1"
    by (simp add: issue_def sample_token_issued Let_def pruneLocked_def newCursorStore_def
        cursorMaxEntries_def take_cursor_def stamped_def cursorDefaultTTL_def)
  have "\<not> live sample_token newCursorStore" by (simp add: live_def newCursorStore_def)
  from run cursor_single_use [OF newCursorStore_ok this, of
    "[Issue (Inr sample_stream) 7 (zero_cursor_state\<lparr>cs_tool := ''t'', cs_repository := ''r''\<rparr>),
      Take sample_token ''t'' ''r'' 8, Take sample_token ''t'' ''r'' 9]"]
  show ?thesis by (simp add: sample_token_issued)
qed

text \<open>
  C23. Every history of a fresh store leaves at most 256 entries under distinct keys, each
  stamped with the current version and an expiry five minutes after its creation.
\<close>

theorem cursor_store_bounded:
  "length (st_entries (cursor_run ops newCursorStore)) \<le> 256 \<and>
   distinct (map fst (st_entries (cursor_run ops newCursorStore))) \<and>
   list_all (\<lambda>(token, st). cs_version st = 1 \<and> cs_expires st = cs_created st + 300 * 10 ^ 9)
     (st_entries (cursor_run ops newCursorStore))"
proof -
  have same: "st_max (cursor_run ops s) = st_max s \<and> st_ttl (cursor_run ops s) = st_ttl s" for s
    unfolding cursor_run_def
  proof (induction ops arbitrary: s)
    case (Cons op ops)
    have "st_max (cursor_step op s) = st_max s \<and> st_ttl (cursor_step op s) = st_ttl s"
      by (cases op) (auto simp: issue_def take_cursor_def Let_def split: sum.splits option.splits)
    with Cons show ?case by simp
  qed simp
  have "st_max (cursor_run ops newCursorStore) = 256"
      "st_ttl (cursor_run ops newCursorStore) = 300 * 10 ^ 9"
    using same [of newCursorStore]
    by (simp_all add: newCursorStore_def cursorMaxEntries_def cursorDefaultTTL_def)
  with cursor_run_ok [OF newCursorStore_ok, of ops] show ?thesis
    by (auto simp: cursor_store_ok_def cursorStateVersion_def list_all_iff)
qed

text \<open>
  The outcome of a redemption on every branch: it succeeds, with the stored state, exactly
  for a stored token of the same tool and repository before its expiry; every attempt on a
  stored token consumes it; and every failure carries the code CURSOR_INVALID.
\<close>

theorem take_cursor_spec:
  "take_cursor token tool repo now s =
     (case map_of (st_entries s) token of
        None \<Rightarrow> (Inl (new_error CursorInvalid ''cursor is invalid or already used''), s)
      | Some st \<Rightarrow> (fst (take_cursor token tool repo now s),
          s\<lparr>st_entries := AList.delete token (st_entries s)\<rparr>)) \<and>
   (fst (take_cursor token tool repo now s) = Inr st \<longleftrightarrow>
      map_of (st_entries s) token = Some st \<and> now < cs_expires st \<and>
      cs_version st = cursorStateVersion \<and> cs_tool st = tool \<and> cs_repository st = repo) \<and>
   (isl (fst (take_cursor token tool repo now s)) \<longleftrightarrow>
      fails_with (fst (take_cursor token tool repo now s)) CursorInvalid)"
  by (auto simp: take_cursor_def Let_def split: option.splits)

text \<open>
  Two tokens are equal only if the 24 random bytes behind them are, and every token is 32
  characters of the URL alphabet.
\<close>

theorem newCursorToken_distinct:
  "(newCursorToken (Inr f) = newCursorToken (Inr g) \<longleftrightarrow> map f [0..<24] = map g [0..<24]) \<and>
   (\<exists>token. newCursorToken (Inr f) = Inr token \<and> length token = 32 \<and>
      set token \<subseteq> set url_alphabet)"
proof
  show "newCursorToken (Inr f) = newCursorToken (Inr g) \<longleftrightarrow> map f [0..<24] = map g [0..<24]"
    by (simp add: newCursorToken_def raw_url_encode_inj cursorTokenBytes_def del: upt_rec_numeral)
  have "url_alphabet ! d \<in> set url_alphabet" if "d < 64" for d
    using that by (intro nth_mem) (simp add: url_alphabet_def)
  then have "set (raw_url_encode cs) \<subseteq> set url_alphabet" for cs
    using b64_digits_bound [OF byte_bounds, of cs] by (auto simp: raw_url_encode_def list_all_iff)
  then show "\<exists>token. newCursorToken (Inr f) = Inr token \<and> length token = 32 \<and>
      set token \<subseteq> set url_alphabet"
    using length_token [of "Inr f"] by (simp add: newCursorToken_def)
qed



end
