(* ===== verification/Window.thy ===== *)
theory Window
  imports AppErr GoTime
begin

text \<open>
  The half-open interval on snapshot creation times of \<open>internal/mcpserver/window.go\<close>.
\<close>

record time_window =
  tw_after :: "instant option"
  tw_before :: "instant option"

definition parse_bound :: "string \<Rightarrow> string \<Rightarrow> instant option res" where
  "parse_bound msg s =
     (if s = [] then Inr None
      else case parse_time s of
             None \<Rightarrow> Inl (new_error InvalidArgument msg)
           | Some t \<Rightarrow> Inr (Some t))"

definition parseTimeWindow :: "string \<Rightarrow> string \<Rightarrow> time_window res" where
  "parseTimeWindow after before =
     (case parse_bound ''after must be an RFC 3339 timestamp with a UTC offset'' after of
        Inl err \<Rightarrow> Inl err
      | Inr a \<Rightarrow>
        (case parse_bound ''before must be an RFC 3339 timestamp with a UTC offset'' before of
           Inl err \<Rightarrow> Inl err
         | Inr b \<Rightarrow>
             if a \<noteq> None \<and> b \<noteq> None \<and> \<not> the a < the b
             then Inl (new_error InvalidArgument
                    ''after must be earlier than before; the interval is [after, before)'')
             else Inr \<lparr>tw_after = a, tw_before = b\<rparr>))"

definition window_contains :: "time_window \<Rightarrow> instant \<Rightarrow> bool" where
  "window_contains w t =
     (if tw_after w \<noteq> None \<and> t < the (tw_after w) then False
      else if tw_before w \<noteq> None \<and> \<not> t < the (tw_before w) then False
      else True)"

definition format_bound :: "instant option \<Rightarrow> string" where
  "format_bound b = (case b of None \<Rightarrow> [] | Some t \<Rightarrow> format_time t)"

definition normalized :: "time_window \<Rightarrow> string \<times> string" where
  "normalized w = (format_bound (tw_after w), format_bound (tw_before w))"

lemma format_time_ne [simp]: "format_time t \<noteq> []"
  by (simp add: format_time_def Let_def split: prod.split)

lemma parse_format_bound:
  "parse_bound msg (format_bound b) =
     (if pred_option in_years b then Inr b else Inl (new_error InvalidArgument msg))"
  by (cases b) (simp_all add: parse_bound_def format_bound_def parse_format parse_format_outside)

section \<open>Properties\<close>

text \<open>
  C24. A cursor continues the window it was issued for: an accepted window, formatted into the
  cursor's state and parsed again, is the same window when its bounds lie in the years 0 to
  9999 in UTC, and is refused otherwise.
\<close>

theorem window_roundtrip:
  assumes "parseTimeWindow after before = Inr w"
  defines "again \<equiv> parseTimeWindow (fst (normalized w)) (snd (normalized w))"
  shows "if pred_option in_years (tw_after w) \<and> pred_option in_years (tw_before w)
    then again = Inr w else fails_with again InvalidArgument"
proof -
  have "\<not> (tw_after w \<noteq> None \<and> tw_before w \<noteq> None \<and> \<not> the (tw_after w) < the (tw_before w))"
    using assms(1) by (auto simp: parseTimeWindow_def split: sum.splits if_splits)
  then show ?thesis
    by (auto simp: again_def parseTimeWindow_def normalized_def parse_format_bound)
qed

theorem window_roundtrip_witness:
  "parseTimeWindow ''2024-02-29T23:59:59.5+02:00'' [] =
     Inr \<lparr>tw_after = Some 1709243999500000000, tw_before = None\<rparr> \<and>
   parseTimeWindow ''2024-02-29T21:59:59.5Z'' [] =
     Inr \<lparr>tw_after = Some 1709243999500000000, tw_before = None\<rparr>"
proof -
  have "days_of_date 2024 (Suc (Suc 0)) 29 = 19782" "month_days 2024 (Suc (Suc 0)) = 29" by code_simp+
  then have parse: "parse_time ''2024-02-29T23:59:59.5+02:00'' = Some 1709243999500000000"
    by (simp add: parse_time_def get_year_def getnum.simps is_digit_def digit_val_def byte_def
        digits_val_Cons check_def get_fraction_def get_zone_def Let_def second_ns_def)
  then have run: "parseTimeWindow ''2024-02-29T23:59:59.5+02:00'' [] =
      Inr \<lparr>tw_after = Some 1709243999500000000, tw_before = None\<rparr>"
    by (simp add: parseTimeWindow_def parse_bound_def)
  have date: "date_of_days 19782 = (2024, 2, 29)" by code_simp
  have years: "in_years 1709243999500000000"
    by (simp add: in_years_def second_ns_def date)
  have "format_time 1709243999500000000 = ''2024-02-29T21:59:59.5Z''"
    unfolding format_time_def second_ns_def Let_def
    by (simp add: date format_year_def)
      (simp add: pad_def dec_def dec_rev.simps format_fraction_def digit_char_ascii Let_def)
  then show ?thesis
    using run years window_roundtrip [OF run] by (simp add: normalized_def format_bound_def)
qed

text \<open>
  A bound at the edge of the calendar: accepted on the first page, refused on the next.
\<close>

lemma window_before_year_zero:
  "\<exists>w. parseTimeWindow ''0000-01-01T00:00:00+01:00'' [] = Inr w \<and>
     fails_with (parseTimeWindow (fst (normalized w)) (snd (normalized w))) InvalidArgument"
proof -
  have "parse_time ''0000-01-01T00:00:00+01:00'' = Some (-62167222800000000000)" by code_simp
  then have run: "parseTimeWindow ''0000-01-01T00:00:00+01:00'' [] =
      Inr \<lparr>tw_after = Some (-62167222800000000000), tw_before = None\<rparr>"
    by (simp add: parseTimeWindow_def parse_bound_def)
  have "date_of_days (-719529) = (-1, 12, 31)" by code_simp
  then have "\<not> in_years (-62167222800000000000)" by (simp add: in_years_def second_ns_def)
  then show ?thesis
    unfolding run by (simp add: normalized_def parseTimeWindow_def parse_format_bound format_bound_def [symmetric])
qed

text \<open>
  \<open>contains\<close> holds exactly for the instants of the half-open interval between the parsed
  bounds, and a window with two bounds is never empty.
\<close>

theorem window_contains_iff:
  assumes "parseTimeWindow after before = Inr w"
  shows "(window_contains w t \<longleftrightarrow>
      (after = [] \<or> the (parse_time after) \<le> t) \<and> (before = [] \<or> t < the (parse_time before))) \<and>
    (after = [] \<or> parse_time after \<noteq> None) \<and> (before = [] \<or> parse_time before \<noteq> None) \<and>
    (after = [] \<or> before = [] \<or> window_contains w (the (parse_time after)))"
proof -
  have bound: "parse_bound label s = Inr b \<longleftrightarrow>
      (if s = [] then b = None else parse_time s \<noteq> None \<and> b = parse_time s)" for label s b
    by (auto simp: parse_bound_def split: option.splits)
  from assms obtain l l' a b where "parse_bound l after = Inr a" "parse_bound l' before = Inr b"
    and w: "w = \<lparr>tw_after = a, tw_before = b\<rparr>" "\<not> (a \<noteq> None \<and> b \<noteq> None \<and> \<not> the a < the b)"
    unfolding parseTimeWindow_def by (auto split: sum.splits if_splits)
  then show ?thesis
    unfolding bound by (auto simp: window_contains_def split: option.splits if_splits)
qed

theorem window_contains_iff_witness:
  "window_contains \<lparr>tw_after = None, tw_before = None\<rparr> 7"
  using window_contains_iff [of "[]" "[]" "\<lparr>tw_after = None, tw_before = None\<rparr>" 7]
  by (simp add: parseTimeWindow_def parse_bound_def)

end
