(* ===== verification/GoJson.thy ===== *)
theory GoJson
  imports Redaction GoTime AppErr "HOL-Library.Word"
begin

text \<open>
  Go's \<open>encoding/json\<close> as the program uses it: the scanner, \<open>Unmarshal\<close> into structs and the
  token interface of \<open>Decoder\<close>. Input is a byte string; the end of the input either is the
  end of the stream or the place where the caller's byte budget cuts it off. At the end of
  the stream the scanner behaves as if one more space followed, which is how \<open>stream\<close>
  presents it.
\<close>

section \<open>Scanner\<close>

datatype 'a lex = Got 'a string | Bad | Short

fun map_lex :: "('a \<Rightarrow> 'b) \<Rightarrow> 'a lex \<Rightarrow> 'b lex" where
  "map_lex f (Got a rest) = Got (f a) rest"
| "map_lex f Bad = Bad"
| "map_lex f Short = Short"

text \<open>
  Strings and numbers keep their literal text: what a string decodes to is \<open>unquote\<close>, and
  \<open>time.Time\<close> reads the text without decoding it.
\<close>

datatype json =
    JNull
  | JBool bool
  | JNum string
  | JStr string
  | JArr "json list"
  | JObj "(string \<times> json) list"

definition json_space :: "char \<Rightarrow> bool" where
  "json_space c \<longleftrightarrow> c \<in> set [CHR '' '', CHR 0x09, CHR 0x0D, CHR 0x0A]"

definition skip_space :: "string \<Rightarrow> string" where
  "skip_space s = dropWhile json_space s"

definition hex_digit :: "char \<Rightarrow> bool" where
  "hex_digit c \<longleftrightarrow> byte_in 0x30 0x39 c \<or> byte_in 0x41 0x46 c \<or> byte_in 0x61 0x66 c"

datatype string_state = InString | InEscape | InHex nat

fun scan_string :: "string_state \<Rightarrow> string \<Rightarrow> string lex" where
  "scan_string st [] = Short"
| "scan_string InString (c # cs) =
     (if c = CHR 0x22 then Got [] cs
      else if c = CHR 0x5C then map_lex ((#) c) (scan_string InEscape cs)
      else if byte c < 0x20 then Bad
      else map_lex ((#) c) (scan_string InString cs))"
| "scan_string InEscape (c # cs) =
     (if c \<in> set [CHR ''b'', CHR ''f'', CHR ''n'', CHR ''r'', CHR ''t'', CHR 0x5C, CHR ''/'', CHR 0x22]
        then map_lex ((#) c) (scan_string InString cs)
      else if c = CHR ''u'' then map_lex ((#) c) (scan_string (InHex 3) cs)
      else Bad)"
| "scan_string (InHex n) (c # cs) =
     (if \<not> hex_digit c then Bad
      else map_lex ((#) c) (scan_string (case n of 0 \<Rightarrow> InString | Suc k \<Rightarrow> InHex k) cs))"

datatype number_state = NNeg | NZero | NInt | NDot | NFrac | NE | NESign | NExp

fun number_step :: "number_state \<Rightarrow> char \<Rightarrow> number_state option option" where
  "number_step NNeg c =
     Some (if c = CHR ''0'' then Some NZero else if is_digit c then Some NInt else None)"
| "number_step NInt c =
     (if is_digit c then Some (Some NInt)
      else if c = CHR ''.'' then Some (Some NDot)
      else if c = CHR ''e'' \<or> c = CHR ''E'' then Some (Some NE) else None)"
| "number_step NZero c =
     (if c = CHR ''.'' then Some (Some NDot)
      else if c = CHR ''e'' \<or> c = CHR ''E'' then Some (Some NE) else None)"
| "number_step NDot c = Some (if is_digit c then Some NFrac else None)"
| "number_step NFrac c =
     (if is_digit c then Some (Some NFrac)
      else if c = CHR ''e'' \<or> c = CHR ''E'' then Some (Some NE) else None)"
| "number_step NE c =
     Some (if c = CHR ''+'' \<or> c = CHR ''-'' then Some NESign
           else if is_digit c then Some NExp else None)"
| "number_step NESign c = Some (if is_digit c then Some NExp else None)"
| "number_step NExp c = (if is_digit c then Some (Some NExp) else None)"

text \<open>
  \<open>number_step\<close> is \<open>None\<close> where the number ends before the byte and \<open>Some None\<close> where the byte
  is an error.
\<close>

fun scan_number :: "number_state \<Rightarrow> string \<Rightarrow> string lex" where
  "scan_number st [] = Short"
| "scan_number st (c # cs) =
     (case number_step st c of
        None \<Rightarrow> Got [] (c # cs)
      | Some None \<Rightarrow> Bad
      | Some (Some st') \<Rightarrow> map_lex ((#) c) (scan_number st' cs))"

fun scan_word :: "string \<Rightarrow> string \<Rightarrow> unit lex" where
  "scan_word [] s = Got () s"
| "scan_word (x # xs) [] = Short"
| "scan_word (x # xs) (c # cs) = (if c = x then scan_word xs cs else Bad)"

datatype token = TPunct char | TScalar json

text \<open>A scalar is complete only once the byte after it has been seen.\<close>

definition terminated :: "token lex \<Rightarrow> token lex" where
  "terminated r = (case r of Got t [] \<Rightarrow> Short | _ \<Rightarrow> r)"

definition next_token :: "string \<Rightarrow> token lex" where
  "next_token s =
     (case skip_space s of
        [] \<Rightarrow> Short
      | c # cs \<Rightarrow>
          if c \<in> set ''[]{}:,'' then Got (TPunct c) cs
          else if c = CHR 0x22 then terminated (map_lex (TScalar \<circ> JStr) (scan_string InString cs))
          else if c = CHR ''t'' then terminated (map_lex (\<lambda>_. TScalar (JBool True)) (scan_word ''rue'' cs))
          else if c = CHR ''f'' then terminated (map_lex (\<lambda>_. TScalar (JBool False)) (scan_word ''alse'' cs))
          else if c = CHR ''n'' then terminated (map_lex (\<lambda>_. TScalar JNull) (scan_word ''ull'' cs))
          else if c = CHR ''-'' then map_lex (TScalar \<circ> JNum \<circ> (#) c) (scan_number NNeg cs)
          else if c = CHR ''0'' then map_lex (TScalar \<circ> JNum \<circ> (#) c) (scan_number NZero cs)
          else if is_digit c then map_lex (TScalar \<circ> JNum \<circ> (#) c) (scan_number NInt cs)
          else Bad)"

lemma map_lex_Got: "map_lex f r = Got b rest \<longleftrightarrow> (\<exists>a. r = Got a rest \<and> b = f a)"
  by (cases r) auto

lemma scan_string_shorter: "scan_string st s = Got a rest \<Longrightarrow> length rest < length s"
proof (induction st s arbitrary: a rule: scan_string.induct)
qed (force simp: map_lex_Got split: if_splits string_state.splits nat.splits)+

lemma scan_number_shorter: "scan_number st s = Got a rest \<Longrightarrow> length rest \<le> length s"
  by (induction st s arbitrary: a rule: scan_number.induct)
    (fastforce simp: map_lex_Got split: option.splits)+

lemma scan_word_shorter: "scan_word w s = Got a rest \<Longrightarrow> length rest \<le> length s"
  by (induction w s rule: scan_word.induct) (fastforce split: if_splits)+

lemma skip_space_length: "length (skip_space s) \<le> length s"
  by (simp add: skip_space_def length_dropWhile_le)

lemma terminated_Got: "terminated r = Got t rest \<Longrightarrow> r = Got t rest"
  by (cases r) (auto simp: terminated_def split: list.splits)

lemma next_token_shorter:
  assumes "next_token s = Got t rest"
  shows "length rest < length s"
proof -
  obtain c cs where s: "skip_space s = c # cs"
    using assms by (cases "skip_space s") (simp_all add: next_token_def)
  have "length rest \<le> length cs"
    using assms unfolding next_token_def s
    by (auto split: if_splits simp: map_lex_Got dest!: terminated_Got scan_string_shorter
        scan_number_shorter scan_word_shorter)
  then show ?thesis using skip_space_length [of s] s by simp
qed

section \<open>String contents\<close>

definition hex_val :: "char \<Rightarrow> nat" where
  "hex_val c =
     (if byte_in 0x30 0x39 c then byte c - 0x30
      else if byte_in 0x41 0x46 c then byte c - 0x37 else byte c - 0x57)"

text \<open>The code unit of a \<open>\u\<close> escape at the front of the text.\<close>

definition getu4 :: "string \<Rightarrow> nat option" where
  "getu4 s =
     (if length s < 6 \<or> s ! 0 \<noteq> CHR 0x5C \<or> s ! 1 \<noteq> CHR ''u'' \<or> \<not> list_all hex_digit (take 4 (drop 2 s))
      then None
      else Some (foldl (\<lambda>n c. n * 16 + hex_val c) 0 (take 4 (drop 2 s))))"

definition utf16_pair :: "nat \<Rightarrow> nat \<Rightarrow> nat" where
  "utf16_pair hi lo =
     (if 0xD800 \<le> hi \<and> hi < 0xDC00 \<and> 0xDC00 \<le> lo \<and> lo < 0xE000
      then (hi - 0xD800) * 1024 + (lo - 0xDC00) + 0x10000 else rune_error)"

definition unescape :: "char \<Rightarrow> char" where
  "unescape c =
     (if c = CHR ''b'' then CHR 0x08 else if c = CHR ''f'' then CHR 0x0C
      else if c = CHR ''n'' then CHR 0x0A else if c = CHR ''r'' then CHR 0x0D
      else if c = CHR ''t'' then CHR 0x09 else c)"

text \<open>What the front of the literal stands for, and the number of bytes it takes.\<close>

definition unquote_head :: "string \<Rightarrow> string \<times> nat" where
  "unquote_head s =
     (if hd s = CHR 0x5C then
        (case getu4 s of
           None \<Rightarrow> (if length s < 2 then [] else [unescape (s ! 1)], 2)
         | Some r \<Rightarrow>
             if 0xD800 \<le> r \<and> r < 0xE000 then
               (case getu4 (drop 6 s) of
                  None \<Rightarrow> (encode_rune rune_error, 6)
                | Some r2 \<Rightarrow>
                    if utf16_pair r r2 \<noteq> rune_error then (encode_rune (utf16_pair r r2), 12)
                    else (encode_rune rune_error, 6))
             else (encode_rune r, 6))
      else if byte (hd s) < 0x80 then ([hd s], 1)
      else (encode_rune (fst (decode_rune s)), snd (decode_rune s)))"

lemma unquote_head_pos: "s \<noteq> [] \<Longrightarrow> 0 < snd (unquote_head s)"
  using decode_rune_width [of s] by (simp add: unquote_head_def split: option.split)

function unquote :: "string \<Rightarrow> string" where
  "unquote s =
     (if s = [] then [] else let (out, n) = unquote_head s in out @ unquote (drop n s))"
  by pat_completeness auto

termination
proof (relation "measure length")
  fix s :: string and x out n
  assume "s \<noteq> []" and "x = unquote_head s" and "(out, n) = x"
  then have "0 < n" using unquote_head_pos [of s] by (metis snd_conv)
  then show "(drop n s, s) \<in> measure length" using \<open>s \<noteq> []\<close> by simp
qed simp

declare unquote.simps [simp del]

section \<open>Values\<close>

datatype frame = FArr "json list" | FObj "(string \<times> json) list" "string option"

datatype expecting = EValue | EFirst | EKeyFirst | EKey | EColon | EComma

datatype step = Done json | Cont "frame list" expecting | Err

definition max_nesting :: nat where "max_nesting = 10000"

fun complete :: "frame list \<Rightarrow> json \<Rightarrow> step" where
  "complete [] v = Done v"
| "complete (FArr vs # st) v = Cont (FArr (vs @ [v]) # st) EComma"
| "complete (FObj ms (Some k) # st) v = Cont (FObj (ms @ [(k, v)]) None # st) EComma"
| "complete (FObj ms None # st) v = Err"

definition enter :: "frame list \<Rightarrow> frame \<Rightarrow> expecting \<Rightarrow> step" where
  "enter st f ex = (if length st < max_nesting then Cont (f # st) ex else Err)"

definition punct :: "frame list \<Rightarrow> expecting \<Rightarrow> char \<Rightarrow> step" where
  "punct st ex c =
     (if c = CHR ''['' then if ex \<in> {EValue, EFirst} then enter st (FArr []) EFirst else Err
      else if c = CHR ''{'' then if ex \<in> {EValue, EFirst} then enter st (FObj [] None) EKeyFirst else Err
      else case st of
        FArr vs # st' \<Rightarrow>
          if c = CHR '']'' \<and> ex \<in> {EFirst, EComma} then complete st' (JArr vs)
          else if c = CHR '','' \<and> ex = EComma then Cont st EValue else Err
      | FObj ms k # st' \<Rightarrow>
          if c = CHR ''}'' \<and> ex \<in> {EKeyFirst, EComma} then complete st' (JObj ms)
          else if c = CHR '','' \<and> ex = EComma then Cont st EKey
          else if c = CHR '':'' \<and> ex = EColon then Cont st EValue else Err
      | [] \<Rightarrow> Err)"

definition scalar :: "frame list \<Rightarrow> expecting \<Rightarrow> json \<Rightarrow> step" where
  "scalar st ex v =
     (if ex \<in> {EValue, EFirst} then complete st v
      else case (st, v) of
             (FObj ms None # st', JStr raw) \<Rightarrow>
               if ex \<in> {EKeyFirst, EKey} then Cont (FObj ms (Some (unquote raw)) # st') EColon else Err
           | _ \<Rightarrow> Err)"

fun json_step :: "frame list \<Rightarrow> expecting \<Rightarrow> token \<Rightarrow> step" where
  "json_step st ex (TPunct c) = punct st ex c"
| "json_step st ex (TScalar v) = scalar st ex v"

function scan_value :: "frame list \<Rightarrow> expecting \<Rightarrow> string \<Rightarrow> json lex" where
  "scan_value st ex s =
     (case next_token s of
        Bad \<Rightarrow> Bad
      | Short \<Rightarrow> Short
      | Got t rest \<Rightarrow>
          (case json_step st ex t of
             Err \<Rightarrow> Bad
           | Done v \<Rightarrow> Got v rest
           | Cont st' ex' \<Rightarrow> scan_value st' ex' rest))"
  by pat_completeness auto

termination
  by (relation "measure (\<lambda>(st, ex, s). length s)") (auto dest: next_token_shorter)

declare scan_value.simps [simp del]

lemma scan_value_shorter: "scan_value st ex s = Got v rest \<Longrightarrow> length rest < length s"
proof (induction st ex s rule: scan_value.induct)
  case (1 st ex s)
  from "1.prems" obtain t r where t: "next_token s = Got t r"
    by (subst (asm) scan_value.simps) (auto split: lex.splits)
  have r: "length r < length s" by (rule next_token_shorter [OF t])
  show ?case
  proof (cases "json_step st ex t")
    case (Cont st' ex')
    with "1.IH" [OF t Cont] "1.prems" t r show ?thesis
      by (subst (asm) (2) scan_value.simps) simp
  qed (use "1.prems" t r in \<open>(subst (asm) scan_value.simps, simp)+\<close>)
qed

section \<open>Unmarshal\<close>

text \<open>The text of the library's own errors is never observable; they are one value here.\<close>

definition json_error :: go_error where
  "json_error = PlainErr ''encoding/json error''"

definition json_unmarshal :: "string \<Rightarrow> json option" where
  "json_unmarshal data =
     (case scan_value [] EValue (data @ '' '') of
        Got v rest \<Rightarrow> if skip_space rest = [] then Some v else None
      | _ \<Rightarrow> None)"

text \<open>
  Decoding into a Go value: \<open>null\<close> leaves the value as it is, any other mismatch makes the
  whole call fail. A struct takes the members in order, a field from every member whose name
  equals the field's up to case.
\<close>

definition dec_string :: "json \<Rightarrow> string \<Rightarrow> string option" where
  "dec_string v old =
     (case v of JNull \<Rightarrow> Some old | JStr raw \<Rightarrow> Some (unquote raw) | _ \<Rightarrow> None)"

definition dec_uint64 :: "json \<Rightarrow> 64 word \<Rightarrow> 64 word option" where
  "dec_uint64 v old =
     (case v of
        JNull \<Rightarrow> Some old
      | JNum lit \<Rightarrow>
          if list_all is_digit lit \<and> digits_val lit < 2 ^ 64
          then Some (of_nat (digits_val lit)) else None
      | _ \<Rightarrow> None)"

definition dec_time :: "json \<Rightarrow> instant \<Rightarrow> instant option" where
  "dec_time v old =
     (case v of JNull \<Rightarrow> Some old | JStr raw \<Rightarrow> parse_time_strict raw | _ \<Rightarrow> None)"

text \<open>A slice keeps its earlier elements where the new array has \<open>null\<close>.\<close>

fun dec_slice :: "('a \<Rightarrow> json \<Rightarrow> 'a option) \<Rightarrow> 'a \<Rightarrow> json list \<Rightarrow> 'a list \<Rightarrow> 'a list option" where
  "dec_slice f zero [] olds = Some []"
| "dec_slice f zero (v # vs) olds =
     (case f (case olds of [] \<Rightarrow> zero | x # _ \<Rightarrow> x) v of
        None \<Rightarrow> None
      | Some x \<Rightarrow> map_option ((#) x) (dec_slice f zero vs (drop 1 olds)))"

definition dec_list :: "('a \<Rightarrow> json \<Rightarrow> 'a option) \<Rightarrow> 'a \<Rightarrow> json \<Rightarrow> 'a list \<Rightarrow> 'a list option" where
  "dec_list f zero v old =
     (case v of JNull \<Rightarrow> Some [] | JArr vs \<Rightarrow> dec_slice f zero vs old | _ \<Rightarrow> None)"

fun dec_members ::
    "(string \<Rightarrow> json \<Rightarrow> 'r \<Rightarrow> 'r option) \<Rightarrow> (string \<times> json) list \<Rightarrow> 'r \<Rightarrow> 'r option" where
  "dec_members field [] r = Some r"
| "dec_members field ((k, v) # ms) r =
     (case field k v r of None \<Rightarrow> None | Some r' \<Rightarrow> dec_members field ms r')"

definition dec_struct :: "(string \<Rightarrow> json \<Rightarrow> 'r \<Rightarrow> 'r option) \<Rightarrow> 'r \<Rightarrow> json \<Rightarrow> 'r option" where
  "dec_struct field old v =
     (case v of JNull \<Rightarrow> Some old | JObj ms \<Rightarrow> dec_members field ms old | _ \<Rightarrow> None)"

text \<open>
  The fold under which the library compares names also identifies the Kelvin sign with k and
  the long s with s.
\<close>

fun fold_bytes :: "string \<Rightarrow> string" where
  "fold_bytes (a # b # c # cs) =
     (if a = CHR 0xE2 \<and> b = CHR 0x84 \<and> c = CHR 0xAA then CHR ''k'' # fold_bytes cs
      else if a = CHR 0xC5 \<and> b = CHR 0xBF then CHR ''s'' # fold_bytes (c # cs)
      else lower_char a # fold_bytes (b # c # cs))"
| "fold_bytes [a, b] =
     (if a = CHR 0xC5 \<and> b = CHR 0xBF then ''s'' else [lower_char a, lower_char b])"
| "fold_bytes [a] = [lower_char a]"
| "fold_bytes [] = []"

definition field_is :: "string \<Rightarrow> string \<Rightarrow> bool" where
  "field_is name key \<longleftrightarrow> key = name \<or> fold_bytes key = fold_bytes name"

section \<open>The token interface of json.Decoder\<close>

datatype token_state =
    TopValue | ArrayStart | ArrayValue | ArrayComma | ObjectStart | ObjectKey | ObjectColon
  | ObjectValue | ObjectComma

text \<open>
  \<open>dc_cut\<close>: the stream goes on after \<open>dc_rest\<close>, but the byte budget ends there.
\<close>

record decoder =
  dc_rest :: string
  dc_cut :: bool
  dc_state :: token_state
  dc_stack :: "token_state list"

definition stream :: "bool \<Rightarrow> string \<Rightarrow> string" where
  "stream ended s = (if ended then s else s @ '' '')"

definition new_decoder :: "bool \<Rightarrow> string \<Rightarrow> decoder" where
  "new_decoder ended s =
     \<lparr>dc_rest = stream ended s, dc_cut = ended, dc_state = TopValue, dc_stack = []\<rparr>"

datatype read_error = AtEOF | Budget | Syntax

datatype jtok = Delim char | TokString string | TokValue json

text \<open>The next byte that is not white space.\<close>

definition peek :: "decoder \<Rightarrow> read_error + char \<times> decoder" where
  "peek d =
     (case skip_space (dc_rest d) of
        [] \<Rightarrow> Inl (if dc_cut d then Budget else AtEOF)
      | c # cs \<Rightarrow> Inr (c, d\<lparr>dc_rest := c # cs\<rparr>))"

definition has_more :: "decoder \<Rightarrow> bool" where
  "has_more d = (case peek d of Inl _ \<Rightarrow> False | Inr (c, _) \<Rightarrow> c \<noteq> CHR '']'' \<and> c \<noteq> CHR ''}'')"

definition value_allowed :: "token_state \<Rightarrow> bool" where
  "value_allowed st \<longleftrightarrow> st \<in> {TopValue, ArrayStart, ArrayValue, ObjectValue}"

fun value_end :: "token_state \<Rightarrow> token_state" where
  "value_end ArrayStart = ArrayComma"
| "value_end ArrayValue = ArrayComma"
| "value_end ObjectValue = ObjectComma"
| "value_end st = st"

text \<open>Read one value where one may stand.\<close>

definition read_value :: "decoder \<Rightarrow> read_error + json \<times> decoder" where
  "read_value d =
     (case scan_value [] EValue (dc_rest d) of
        Bad \<Rightarrow> Inl Syntax
      | Short \<Rightarrow> Inl (if dc_cut d then Budget else Syntax)
      | Got v rest \<Rightarrow> Inr (v, d\<lparr>dc_rest := rest\<rparr>))"

definition separator :: "char \<Rightarrow> token_state \<Rightarrow> decoder \<Rightarrow> read_error + decoder" where
  "separator c st d =
     (case peek d of
        Inl e \<Rightarrow> Inl e
      | Inr (x, d') \<Rightarrow>
          if x \<noteq> c then Inl Syntax else Inr (d'\<lparr>dc_rest := tl (dc_rest d'), dc_state := st\<rparr>))"

definition prepare :: "decoder \<Rightarrow> read_error + decoder" where
  "prepare d =
     (case dc_state d of
        ArrayComma \<Rightarrow> separator (CHR '','') ArrayValue d
      | ObjectColon \<Rightarrow> separator (CHR '':'') ObjectValue d
      | _ \<Rightarrow> Inr d)"

text \<open>\<open>Decode\<close> up to the conversion into the Go value.\<close>

definition decode :: "decoder \<Rightarrow> read_error + json \<times> decoder" where
  "decode d =
     (case prepare d of
        Inl e \<Rightarrow> Inl e
      | Inr d1 \<Rightarrow>
          if \<not> value_allowed (dc_state d1) then Inl Syntax
          else case read_value d1 of
                 Inl e \<Rightarrow> Inl e
               | Inr (v, d2) \<Rightarrow> Inr (v, d2\<lparr>dc_state := value_end (dc_state d2)\<rparr>))"

definition advance :: "decoder \<Rightarrow> decoder" where
  "advance d = d\<lparr>dc_rest := tl (dc_rest d)\<rparr>"

definition open_delim :: "char \<Rightarrow> token_state \<Rightarrow> decoder \<Rightarrow> read_error + jtok \<times> decoder" where
  "open_delim c st d =
     (if \<not> value_allowed (dc_state d) then Inl Syntax
      else Inr (Delim c, (advance d)\<lparr>dc_stack := dc_state d # dc_stack d, dc_state := st\<rparr>))"

definition close_delim :: "char \<Rightarrow> token_state set \<Rightarrow> decoder \<Rightarrow> read_error + jtok \<times> decoder" where
  "close_delim c sts d =
     (if dc_state d \<notin> sts then Inl Syntax
      else Inr (Delim c,
        (advance d)\<lparr>dc_state := value_end (hd (dc_stack d)), dc_stack := tl (dc_stack d)\<rparr>))"

definition key_or_value :: "char \<Rightarrow> decoder \<Rightarrow> read_error + jtok \<times> decoder" where
  "key_or_value c d =
     (if c = CHR 0x22 \<and> dc_state d \<in> {ObjectStart, ObjectKey} then
        (case read_value d of
           Inl e \<Rightarrow> Inl e
         | Inr (v, d') \<Rightarrow>
             (case dec_string v [] of
                None \<Rightarrow> Inl Syntax
              | Some x \<Rightarrow> Inr (TokString x, d'\<lparr>dc_state := ObjectColon\<rparr>)))
      else if \<not> value_allowed (dc_state d) then Inl Syntax
      else (case decode d of Inl e \<Rightarrow> Inl e | Inr (v, d') \<Rightarrow> Inr (TokValue v, d')))"

lemma peek_shorter: "peek d = Inr (c, d') \<Longrightarrow> length (dc_rest d') \<le> length (dc_rest d)"
  using skip_space_length [of "dc_rest d"] by (auto simp: peek_def split: list.splits)

lemma peek_rest: "peek d = Inr (c, d') \<Longrightarrow> dc_rest d' = c # tl (dc_rest d') \<and> dc_rest d' \<noteq> []"
  by (auto simp: peek_def split: list.splits)

lemma advance_shorter:
  assumes "peek d = Inr (c, d')"
  shows "length (dc_rest (advance d')) < length (dc_rest d)"
  using peek_shorter [OF assms] peek_rest [OF assms]
  by (cases "dc_rest d'") (simp_all add: advance_def)

function next_tok :: "decoder \<Rightarrow> read_error + jtok \<times> decoder" where
  "next_tok d =
     (case peek d of
        Inl e \<Rightarrow> Inl e
      | Inr (c, d1) \<Rightarrow>
          if c = CHR ''['' then open_delim c ArrayStart d1
          else if c = CHR '']'' then close_delim c {ArrayStart, ArrayComma} d1
          else if c = CHR ''{'' then open_delim c ObjectStart d1
          else if c = CHR ''}'' then close_delim c {ObjectStart, ObjectComma} d1
          else if c = CHR '':'' then
            (if dc_state d1 \<noteq> ObjectColon then Inl Syntax
             else next_tok ((advance d1)\<lparr>dc_state := ObjectValue\<rparr>))
          else if c = CHR '','' then
            (if dc_state d1 = ArrayComma then next_tok ((advance d1)\<lparr>dc_state := ArrayValue\<rparr>)
             else if dc_state d1 = ObjectComma then next_tok ((advance d1)\<lparr>dc_state := ObjectKey\<rparr>)
             else Inl Syntax)
          else key_or_value c d1)"
  by pat_completeness auto

termination
  by (relation "measure (length \<circ> dc_rest)") (auto dest!: advance_shorter)

declare next_tok.simps [simp del]

text \<open>Every token and every value shortens the input.\<close>

lemma read_value_shorter:
  "read_value d = Inr (v, d') \<Longrightarrow> length (dc_rest d') < length (dc_rest d)"
  by (auto simp: read_value_def dest: scan_value_shorter split: lex.splits)

lemma separator_shorter: "separator c st d = Inr d' \<Longrightarrow> length (dc_rest d') \<le> length (dc_rest d)"
  by (auto simp: separator_def dest!: peek_shorter split: sum.splits if_splits)

lemma prepare_shorter: "prepare d = Inr d' \<Longrightarrow> length (dc_rest d') \<le> length (dc_rest d)"
  by (auto simp: prepare_def dest: separator_shorter split: token_state.splits)

lemma decode_shorter: "decode d = Inr (v, d') \<Longrightarrow> length (dc_rest d') < length (dc_rest d)"
  by (auto simp: decode_def dest!: prepare_shorter read_value_shorter split: sum.splits if_splits)

lemma key_or_value_shorter:
  "key_or_value c d = Inr (t, d') \<Longrightarrow> length (dc_rest d') < length (dc_rest d)"
  by (auto simp: key_or_value_def dest!: read_value_shorter decode_shorter
      split: sum.splits if_splits option.splits)

lemma open_delim_rest: "open_delim c st d = Inr (t, d') \<Longrightarrow> dc_rest d' = dc_rest (advance d)"
  by (auto simp: open_delim_def split: if_splits)

lemma close_delim_rest: "close_delim c sts d = Inr (t, d') \<Longrightarrow> dc_rest d' = dc_rest (advance d)"
  by (auto simp: close_delim_def split: if_splits)

lemma next_tok_shorter: "next_tok d = Inr (t, d') \<Longrightarrow> length (dc_rest d') < length (dc_rest d)"
proof (induction "length (dc_rest d)" arbitrary: d t d' rule: less_induct)
  case less
  from less.prems obtain c d1 where pk: "peek d = Inr (c, d1)"
    by (subst (asm) next_tok.simps) (auto split: sum.splits)
  note adv = advance_shorter [OF pk] and pks = peek_shorter [OF pk]
  have rec: "length (dc_rest d') < length (dc_rest d)"
    if "next_tok (advance d1\<lparr>dc_state := st\<rparr>) = Inr (t, d')" for st
    using less.hyps [OF _ that] adv by simp
  from less.prems pk adv pks show ?case
    by (subst (asm) next_tok.simps)
      (auto split: if_splits dest!: open_delim_rest close_delim_rest
        dest: rec key_or_value_shorter order_less_trans order_less_le_trans)
qed

text \<open>What evaluates the scanner and the decoders on a concrete document.\<close>

lemmas scan_simps =
  scan_value.simps next_token_def skip_space_def json_space_def terminated_def hex_digit_def
  byte_def is_digit_def punct_def scalar_def enter_def max_nesting_def unquote.simps
  unquote_head_def getu4_def

lemmas dec_simps =
  dec_list_def dec_struct_def dec_string_def field_is_def lower_char_def byte_in_def byte_def

end
