(* ===== verification/Snapshots.thy ===== *)
theory Snapshots
  imports Policy Commands GoJson
begin

text \<open>
  The snapshot metadata of \<open>internal/restic/parse.go\<close>: the records, their decoding from
  restic's JSON, the normalization of a snapshot, the newest-first order, and the comparison
  of restic versions.
\<close>

section \<open>Records\<close>

record snapshot_summary =
  sm_backup_start :: instant
  sm_backup_end :: instant
  sm_files_new :: "64 word"
  sm_files_changed :: "64 word"
  sm_files_unmodified :: "64 word"
  sm_dirs_new :: "64 word"
  sm_dirs_changed :: "64 word"
  sm_dirs_unmodified :: "64 word"
  sm_data_added :: "64 word"
  sm_data_added_packed :: "64 word"
  sm_total_files_processed :: "64 word"
  sm_total_bytes_processed :: "64 word"

record snapshot =
  sn_time :: instant
  sn_parent :: string
  sn_tree :: string
  sn_paths :: "string list"
  sn_hostname :: string
  sn_username :: string
  sn_tags :: "string list"
  sn_id :: string
  sn_program_version :: string
  sn_summary :: "snapshot_summary option"

record raw_snapshot =
  rs_time :: instant
  rs_parent :: string
  rs_tree :: string
  rs_paths :: "string list"
  rs_hostname :: string
  rs_username :: string
  rs_tags :: "string list"
  rs_id :: string
  rs_short_id :: string
  rs_program_version :: string
  rs_summary :: "snapshot_summary option"

record version_info =
  vi_message_type :: string
  vi_version :: string
  vi_go_version :: string
  vi_go_os :: string
  vi_go_arch :: string

section \<open>Decoding\<close>

definition zero_summary :: snapshot_summary where
  "zero_summary =
     \<lparr>sm_backup_start = zero_time, sm_backup_end = zero_time, sm_files_new = 0,
      sm_files_changed = 0, sm_files_unmodified = 0, sm_dirs_new = 0, sm_dirs_changed = 0,
      sm_dirs_unmodified = 0, sm_data_added = 0, sm_data_added_packed = 0,
      sm_total_files_processed = 0, sm_total_bytes_processed = 0\<rparr>"

definition zero_raw_snapshot :: raw_snapshot where
  "zero_raw_snapshot =
     \<lparr>rs_time = zero_time, rs_parent = [], rs_tree = [], rs_paths = [], rs_hostname = [],
      rs_username = [], rs_tags = [], rs_id = [], rs_short_id = [], rs_program_version = [],
      rs_summary = None\<rparr>"

definition summary_field :: "string \<Rightarrow> json \<Rightarrow> snapshot_summary \<Rightarrow> snapshot_summary option" where
  "summary_field key v r =
     (if field_is ''backup_start'' key
        then map_option (\<lambda>x. r\<lparr>sm_backup_start := x\<rparr>) (dec_time v (sm_backup_start r))
      else if field_is ''backup_end'' key
        then map_option (\<lambda>x. r\<lparr>sm_backup_end := x\<rparr>) (dec_time v (sm_backup_end r))
      else if field_is ''files_new'' key
        then map_option (\<lambda>x. r\<lparr>sm_files_new := x\<rparr>) (dec_uint64 v (sm_files_new r))
      else if field_is ''files_changed'' key
        then map_option (\<lambda>x. r\<lparr>sm_files_changed := x\<rparr>) (dec_uint64 v (sm_files_changed r))
      else if field_is ''files_unmodified'' key
        then map_option (\<lambda>x. r\<lparr>sm_files_unmodified := x\<rparr>) (dec_uint64 v (sm_files_unmodified r))
      else if field_is ''dirs_new'' key
        then map_option (\<lambda>x. r\<lparr>sm_dirs_new := x\<rparr>) (dec_uint64 v (sm_dirs_new r))
      else if field_is ''dirs_changed'' key
        then map_option (\<lambda>x. r\<lparr>sm_dirs_changed := x\<rparr>) (dec_uint64 v (sm_dirs_changed r))
      else if field_is ''dirs_unmodified'' key
        then map_option (\<lambda>x. r\<lparr>sm_dirs_unmodified := x\<rparr>) (dec_uint64 v (sm_dirs_unmodified r))
      else if field_is ''data_added'' key
        then map_option (\<lambda>x. r\<lparr>sm_data_added := x\<rparr>) (dec_uint64 v (sm_data_added r))
      else if field_is ''data_added_packed'' key
        then map_option (\<lambda>x. r\<lparr>sm_data_added_packed := x\<rparr>) (dec_uint64 v (sm_data_added_packed r))
      else if field_is ''total_files_processed'' key
        then map_option (\<lambda>x. r\<lparr>sm_total_files_processed := x\<rparr>)
               (dec_uint64 v (sm_total_files_processed r))
      else if field_is ''total_bytes_processed'' key
        then map_option (\<lambda>x. r\<lparr>sm_total_bytes_processed := x\<rparr>)
               (dec_uint64 v (sm_total_bytes_processed r))
      else Some r)"

text \<open>A pointer: \<open>null\<close> clears it, anything else is decoded into what it points to.\<close>

definition dec_summary :: "json \<Rightarrow> snapshot_summary option \<Rightarrow> snapshot_summary option option" where
  "dec_summary v old =
     (case v of
        JNull \<Rightarrow> Some None
      | _ \<Rightarrow> map_option Some
               (dec_struct summary_field (case old of None \<Rightarrow> zero_summary | Some s \<Rightarrow> s) v))"

definition dec_strings :: "json \<Rightarrow> string list \<Rightarrow> string list option" where
  "dec_strings = dec_list (\<lambda>old v. dec_string v old) []"

definition raw_snapshot_field :: "string \<Rightarrow> json \<Rightarrow> raw_snapshot \<Rightarrow> raw_snapshot option" where
  "raw_snapshot_field key v r =
     (if field_is ''time'' key
        then map_option (\<lambda>x. r\<lparr>rs_time := x\<rparr>) (dec_time v (rs_time r))
      else if field_is ''parent'' key
        then map_option (\<lambda>x. r\<lparr>rs_parent := x\<rparr>) (dec_string v (rs_parent r))
      else if field_is ''tree'' key
        then map_option (\<lambda>x. r\<lparr>rs_tree := x\<rparr>) (dec_string v (rs_tree r))
      else if field_is ''paths'' key
        then map_option (\<lambda>x. r\<lparr>rs_paths := x\<rparr>) (dec_strings v (rs_paths r))
      else if field_is ''hostname'' key
        then map_option (\<lambda>x. r\<lparr>rs_hostname := x\<rparr>) (dec_string v (rs_hostname r))
      else if field_is ''username'' key
        then map_option (\<lambda>x. r\<lparr>rs_username := x\<rparr>) (dec_string v (rs_username r))
      else if field_is ''tags'' key
        then map_option (\<lambda>x. r\<lparr>rs_tags := x\<rparr>) (dec_strings v (rs_tags r))
      else if field_is ''id'' key
        then map_option (\<lambda>x. r\<lparr>rs_id := x\<rparr>) (dec_string v (rs_id r))
      else if field_is ''short_id'' key
        then map_option (\<lambda>x. r\<lparr>rs_short_id := x\<rparr>) (dec_string v (rs_short_id r))
      else if field_is ''program_version'' key
        then map_option (\<lambda>x. r\<lparr>rs_program_version := x\<rparr>) (dec_string v (rs_program_version r))
      else if field_is ''summary'' key
        then map_option (\<lambda>x. r\<lparr>rs_summary := x\<rparr>) (dec_summary v (rs_summary r))
      else Some r)"

definition dec_raw_snapshots :: "json \<Rightarrow> raw_snapshot list option" where
  "dec_raw_snapshots v =
     dec_list (\<lambda>old v. dec_struct raw_snapshot_field old v) zero_raw_snapshot v []"

definition version_field :: "string \<Rightarrow> json \<Rightarrow> version_info \<Rightarrow> version_info option" where
  "version_field key v r =
     (if field_is ''message_type'' key
        then map_option (\<lambda>x. r\<lparr>vi_message_type := x\<rparr>) (dec_string v (vi_message_type r))
      else if field_is ''version'' key
        then map_option (\<lambda>x. r\<lparr>vi_version := x\<rparr>) (dec_string v (vi_version r))
      else if field_is ''go_version'' key
        then map_option (\<lambda>x. r\<lparr>vi_go_version := x\<rparr>) (dec_string v (vi_go_version r))
      else if field_is ''go_os'' key
        then map_option (\<lambda>x. r\<lparr>vi_go_os := x\<rparr>) (dec_string v (vi_go_os r))
      else if field_is ''go_arch'' key
        then map_option (\<lambda>x. r\<lparr>vi_go_arch := x\<rparr>) (dec_string v (vi_go_arch r))
      else Some r)"

definition ParseVersion :: "string \<Rightarrow> version_info res" where
  "ParseVersion bytes =
     (let data = trim_space bytes in
      if data = [] then Inl (new_error ProtocolError ''empty version output'')
      else case json_unmarshal data of
             None \<Rightarrow> Inl (with_cause (new_error ProtocolError ''invalid version JSON'') json_error)
           | Some v \<Rightarrow>
               (case dec_struct version_field
                       \<lparr>vi_message_type = [], vi_version = [], vi_go_version = [], vi_go_os = [],
                        vi_go_arch = []\<rparr> v of
                  None \<Rightarrow> Inl (with_cause (new_error ProtocolError ''invalid version JSON'') json_error)
                | Some vi \<Rightarrow>
                    if vi_version vi = [] then Inl (new_error ProtocolError ''version field missing'')
                    else Inr (vi\<lparr>vi_version := SanitizeString (vi_version vi)\<rparr>)))"

section \<open>Normalization\<close>

definition clean_snapshot_paths :: "string list \<Rightarrow> string list res" where
  "clean_snapshot_paths ps =
     map_res (\<lambda>p. case CleanSnapshotPath p of
         Inl err \<Rightarrow> Inl (with_cause (new_error ProtocolError ''snapshot has invalid path'') err)
       | Inr cleaned \<Rightarrow> Inr cleaned) ps"

definition check_snapshot_tags :: "string list \<Rightarrow> string list res" where
  "check_snapshot_tags ts =
     map_res (\<lambda>t. if t = [] \<or> length t > 128 \<or> SanitizeString t \<noteq> t
       then Inl (new_error ProtocolError ''snapshot has invalid tag'') else Inr t) ts"

text \<open>
  The \<open>UTC()\<close> calls on the times leave the instant as it is.
\<close>

definition normalizeSnapshot :: "raw_snapshot \<Rightarrow> snapshot res" where
  "normalizeSnapshot r =
     (let sid = (if rs_id r = [] then rs_short_id r else rs_id r) in
      if sid = [] then Inl (new_error ProtocolError ''snapshot missing id'')
      else if SanitizeString sid \<noteq> sid \<or> \<not> valid_snapshot_id sid \<or> sid = ''latest''
        then Inl (new_error ProtocolError ''snapshot has invalid id'')
      else if length (rs_hostname r) > 253 \<or> SanitizeString (rs_hostname r) \<noteq> rs_hostname r
        then Inl (new_error ProtocolError ''snapshot has invalid hostname'')
      else if length (rs_paths r) > 256
        then Inl (new_error ProtocolError ''snapshot has too many paths'')
      else case clean_snapshot_paths (rs_paths r) of
        Inl err \<Rightarrow> Inl err
      | Inr paths \<Rightarrow>
          if length (rs_tags r) > 256
            then Inl (new_error ProtocolError ''snapshot has too many tags'')
          else case check_snapshot_tags (rs_tags r) of
            Inl err \<Rightarrow> Inl err
          | Inr tags \<Rightarrow>
              Inr \<lparr>sn_time = rs_time r, sn_parent = SanitizeString (rs_parent r),
                   sn_tree = SanitizeString (rs_tree r), sn_paths = paths,
                   sn_hostname = rs_hostname r, sn_username = SanitizeString (rs_username r),
                   sn_tags = sort tags, sn_id = sid,
                   sn_program_version = SanitizeString (rs_program_version r),
                   sn_summary = rs_summary r\<rparr>)"

definition snapshot_before :: "snapshot \<Rightarrow> snapshot \<Rightarrow> bool" where
  "snapshot_before a b =
     (if sn_time a = sn_time b then sn_id a < sn_id b else sn_time b < sn_time a)"

definition ParseSnapshots :: "string \<Rightarrow> snapshot list res" where
  "ParseSnapshots bytes =
     (let data = trim_space bytes in
      if data = [] then Inr []
      else case Option.bind (json_unmarshal data) dec_raw_snapshots of
        None \<Rightarrow> Inl (with_cause (new_error ProtocolError ''invalid snapshots JSON'') json_error)
      | Some raw \<Rightarrow>
          (case map_res (\<lambda>r. case normalizeSnapshot r of
                    Inl err \<Rightarrow> Inl (with_cause (new_error ProtocolError ''invalid snapshot entry'') err)
                  | Inr s \<Rightarrow> Inr s) raw of
             Inl err \<Rightarrow> Inl err
           | Inr out \<Rightarrow> Inr (sort_by snapshot_before out)))"

section \<open>Versions\<close>

text \<open>Go's 64-bit \<open>int\<close>, with its wrap-around.\<close>

definition wrap64 :: "int \<Rightarrow> int" where
  "wrap64 x = (x + 2 ^ 63) mod 2 ^ 64 - 2 ^ 63"

definition component_val :: "string \<Rightarrow> int" where
  "component_val s = foldl (\<lambda>n c. wrap64 (n * 10 + int (digit_val c))) 0 (takeWhile is_digit s)"

definition parseVer :: "string \<Rightarrow> int list" where
  "parseVer v0 =
     (let v = (if prefix ''v'' v0 then tl v0 else v0);
          core = takeWhile (\<lambda>c. c \<noteq> CHR ''-'' \<and> c \<noteq> CHR ''+'') v;
          parts = map component_val (take 3 (split_on (CHR ''.'') core))
      in take 3 (parts @ replicate 3 0))"

fun compare_loop :: "int list \<Rightarrow> int list \<Rightarrow> int" where
  "compare_loop (x # xs) (y # ys) = (if x < y then -1 else if x > y then 1 else compare_loop xs ys)"
| "compare_loop _ _ = 0"

definition CompareVersion :: "string \<Rightarrow> string \<Rightarrow> int" where
  "CompareVersion a b = compare_loop (parseVer a) (parseVer b)"

definition MinResticVersion :: string where
  "MinResticVersion = ''0.17.1''"

section \<open>The order of snapshots\<close>

interpretation snap: weak_order snapshot_before
  by unfold_locales (auto simp: snapshot_before_def split: if_splits)

section \<open>What a normalized snapshot satisfies\<close>

definition snapshot_ok :: "snapshot \<Rightarrow> bool" where
  "snapshot_ok s \<longleftrightarrow>
     concrete_id (sn_id s) \<and>
     length (sn_hostname s) \<le> 253 \<and> SanitizeString (sn_hostname s) = sn_hostname s \<and>
     length (sn_paths s) \<le> 256 \<and> list_all canonical (sn_paths s) \<and>
     length (sn_tags s) \<le> 256 \<and> sorted (sn_tags s) \<and>
     list_all (\<lambda>t. t \<noteq> [] \<and> length t \<le> 128 \<and> SanitizeString t = t) (sn_tags s)"

lemma clean_snapshot_paths_Inr:
  "clean_snapshot_paths ps = Inr cs \<longleftrightarrow> list_all2 (\<lambda>p c. CleanSnapshotPath p = Inr c) ps cs"
proof -
  have "(case CleanSnapshotPath p of
       Inl err \<Rightarrow> Inl (with_cause (new_error ProtocolError ''snapshot has invalid path'') err)
     | Inr cleaned \<Rightarrow> Inr cleaned) = Inr c \<longleftrightarrow> CleanSnapshotPath p = Inr c" for p c
    by (simp split: sum.split)
  then show ?thesis by (simp add: clean_snapshot_paths_def map_res_Inr)
qed

lemma check_snapshot_tags_Inr:
  "check_snapshot_tags ts = Inr us \<longleftrightarrow>
     us = ts \<and> list_all (\<lambda>t. t \<noteq> [] \<and> length t \<le> 128 \<and> SanitizeString t = t) ts"
proof -
  have "list_all2 (\<lambda>t u. (if t = [] \<or> length t > 128 \<or> SanitizeString t \<noteq> t
      then Inl (new_error ProtocolError ''snapshot has invalid tag'') else Inr t) = Inr u) ts us \<longleftrightarrow>
    us = ts \<and> list_all (\<lambda>t. t \<noteq> [] \<and> length t \<le> 128 \<and> SanitizeString t = t) ts"
    by (induction ts arbitrary: us) (auto simp: list_all2_Cons1)
  then show ?thesis by (simp add: check_snapshot_tags_def map_res_Inr)
qed

lemma normalizeSnapshot_Inr:
  assumes "normalizeSnapshot r = Inr s"
  obtains ps where "clean_snapshot_paths (rs_paths r) = Inr ps" and "sn_paths s = ps"
    and "sn_id s = (if rs_id r = [] then rs_short_id r else rs_id r)" and "concrete_id (sn_id s)"
    and "length (rs_hostname r) \<le> 253" and "SanitizeString (rs_hostname r) = rs_hostname r"
    and "length (rs_paths r) \<le> 256" and "length (rs_tags r) \<le> 256"
    and "check_snapshot_tags (rs_tags r) = Inr (rs_tags r)"
    and "sn_hostname s = rs_hostname r" and "sn_tags s = sort (rs_tags r)"
    and "sn_time s = rs_time r"
  using assms
  by (auto simp: normalizeSnapshot_def Let_def concrete_id_def check_snapshot_tags_Inr
      split: if_splits sum.splits)

lemma normalizeSnapshot_ok: "normalizeSnapshot r = Inr s \<Longrightarrow> snapshot_ok s"
proof (erule normalizeSnapshot_Inr)
  fix ps
  assume a: "clean_snapshot_paths (rs_paths r) = Inr ps" "sn_paths s = ps" "concrete_id (sn_id s)"
    "length (rs_hostname r) \<le> 253" "SanitizeString (rs_hostname r) = rs_hostname r"
    "length (rs_paths r) \<le> 256" "length (rs_tags r) \<le> 256"
    "check_snapshot_tags (rs_tags r) = Inr (rs_tags r)" "sn_hostname s = rs_hostname r"
    "sn_tags s = sort (rs_tags r)"
  have ps: "list_all2 (\<lambda>p c. CleanSnapshotPath p = Inr c) (rs_paths r) ps"
    using a(1) by (simp add: clean_snapshot_paths_Inr)
  then have "list_all canonical ps"
    by (induction rule: list_all2_induct) (auto dest: CleanSnapshotPath_canonical)
  moreover have "length ps = length (rs_paths r)" using ps by (simp add: list_all2_lengthD)
  ultimately show "snapshot_ok s"
    using a by (simp add: snapshot_ok_def check_snapshot_tags_Inr list_all_iff)
qed

lemma ParseSnapshots_Inr:
  assumes "ParseSnapshots bytes = Inr ss"
  obtains raws out where "list_all2 (\<lambda>r s. normalizeSnapshot r = Inr s) raws out"
    and "ss = sort_by snapshot_before out"
    and "raws = [] \<or> Option.bind (json_unmarshal (trim_space bytes)) dec_raw_snapshots = Some raws"
proof (cases "trim_space bytes = []")
  case True
  then show ?thesis using assms that [of "[]" "[]"] by (simp add: ParseSnapshots_def)
next
  case False
  have conv: "(case normalizeSnapshot r of
      Inl err \<Rightarrow> Inl (with_cause (new_error ProtocolError ''invalid snapshot entry'') err)
    | Inr s \<Rightarrow> Inr s) = Inr s \<longleftrightarrow> normalizeSnapshot r = Inr s" for r s
    by (simp split: sum.split)
  show ?thesis
    using assms False that
    by (auto simp: ParseSnapshots_def Let_def map_res_Inr conv split: option.splits sum.splits)
qed

section \<open>Version components\<close>

lemma wrap64_id: "0 \<le> x \<Longrightarrow> x < 2 ^ 63 \<Longrightarrow> wrap64 x = x"
  by (simp add: wrap64_def)

lemma component_val_digits:
  "list_all is_digit ds \<Longrightarrow> digits_val ds < 2 ^ 63 \<Longrightarrow> component_val ds = int (digits_val ds)"
proof (induction ds rule: rev_induct)
  case Nil
  then show ?case by (simp add: component_val_def)
next
  case (snoc d ds)
  have tw: "takeWhile is_digit (ds @ [d]) = ds @ [d]" "takeWhile is_digit ds = ds"
    using snoc.prems(1) by (auto simp: list_all_iff takeWhile_eq_all_conv)
  have "component_val ds = int (digits_val ds)" using snoc by simp
  then show ?case
    using snoc.prems(2) tw by (simp add: component_val_def wrap64_id)
qed

definition version_string :: "nat \<Rightarrow> nat \<Rightarrow> nat \<Rightarrow> string" where
  "version_string a b c = dec a @ ''.'' @ dec b @ ''.'' @ dec c"

lemma digit_chars: "is_digit x \<Longrightarrow> x \<noteq> CHR ''.'' \<and> x \<noteq> CHR ''-'' \<and> x \<noteq> CHR ''+'' \<and> x \<noteq> CHR ''v''"
  by (auto simp: is_digit_def byte_def)

lemma parseVer_version:
  assumes "a < 2 ^ 63" "b < 2 ^ 63" "c < 2 ^ 63"
    and "suf = [] \<or> hd suf = CHR ''-'' \<or> hd suf = CHR ''+''"
    and "pre = [] \<or> pre = ''v''"
  shows "parseVer (pre @ version_string a b c @ suf) = [int a, int b, int c]"
proof -
  let ?p = "\<lambda>x. x \<noteq> CHR ''-'' \<and> x \<noteq> CHR ''+''"
  have dig: "list_all is_digit (dec n)" for n by (rule dec_digits)
  have all: "\<forall>x \<in> set (version_string a b c). ?p x"
    using dig [of a] dig [of b] dig [of c] digit_chars
    by (auto simp: version_string_def list_all_iff)
  have core: "takeWhile ?p (version_string a b c @ suf) = version_string a b c"
    using all assms(4) by (cases suf) (auto simp: takeWhile_append2 takeWhile_tail)
  have nodot: "CHR ''.'' \<notin> set (dec n)" for n
    using dig [of n] digit_chars by (auto simp: list_all_iff)
  have split: "split_on (CHR ''.'') (version_string a b c) = [dec a, dec b, dec c]"
    using nodot by (simp add: version_string_def split_on_append split_on_single)
  have strip: "(if prefix ''v'' (pre @ version_string a b c @ suf)
      then tl (pre @ version_string a b c @ suf) else pre @ version_string a b c @ suf) =
      version_string a b c @ suf"
  proof -
    obtain x xs where "dec a = x # xs" by (meson dec_ne list.exhaust)
    then have "\<not> prefix ''v'' (version_string a b c @ suf)"
      using dig [of a] digit_chars by (auto simp: version_string_def)
    then show ?thesis using assms(5) by auto
  qed
  have "component_val (dec n) = int n" if "n < 2 ^ 63" for n
    using component_val_digits [OF dig] that by simp
  then show ?thesis
    using assms(1-3) unfolding parseVer_def strip Let_def core split by simp
qed

section \<open>Properties\<close>



text \<open>
  On versions \<open>a.b.c\<close>, with or without a leading \<open>v\<close> and a pre-release or build suffix,
  \<open>CompareVersion\<close> is the lexicographic comparison of the three numbers, as long as they
  fit Go's 64-bit \<open>int\<close>.
\<close>

theorem CompareVersion_lex:
  assumes "list_all (\<lambda>n. n < 2 ^ 63) [a, b, c, a', b', c']"
    and "list_all (\<lambda>s. s = [] \<or> hd s = CHR ''-'' \<or> hd s = CHR ''+'') [suf, suf']"
    and "list_all (\<lambda>p. p = [] \<or> p = ''v'') [pre, pre']"
  shows "CompareVersion (pre @ version_string a b c @ suf) (pre' @ version_string a' b' c' @ suf') =
    (if [a, b, c] = [a', b', c'] then 0 else if [a, b, c] < [a', b', c'] then -1 else 1)"
  using assms by (simp add: CompareVersion_def parseVer_version)

theorem CompareVersion_lex_witness:
  "CompareVersion ''v0.18.0-dev'' MinResticVersion = 1"
proof -
  have "version_string 0 18 0 = ''0.18.0''" "version_string 0 17 1 = ''0.17.1''"
    by (simp_all add: version_string_def dec_def dec_rev.simps digit_char_ascii)
  then show ?thesis
    using CompareVersion_lex [of 0 18 0 0 17 1 "''-dev''" "[]" "''v''" "[]"]
    by (simp add: MinResticVersion_def)
qed

text \<open>Beyond 64 bits the component wraps around, and a larger version compares as older.\<close>

lemma component_wraps: "component_val ''18446744073709551616'' = 0"
  by (simp add: component_val_def digit_val_def is_digit_def byte_def wrap64_def)

end
