(* ===== verification/Nodes.thy ===== *)
theory Nodes
  imports Snapshots
begin

text \<open>
  Directory entries, search hits and statistics of \<open>internal/restic/parse.go\<close>: the records,
  their decoding, and the buffered parsers. Lines are those of a \<open>bufio.Scanner\<close> with a
  one-megabyte buffer.
\<close>

section \<open>Records\<close>

record node =
  nd_name :: string
  nd_type :: string
  nd_path :: string
  nd_size :: "64 word"
  nd_mode :: string
  nd_mtime :: instant

record raw_ls =
  rl_message_type :: string
  rl_struct_type :: string
  rl_name :: string
  rl_type :: string
  rl_path :: string
  rl_size :: "64 word"
  rl_permissions :: string
  rl_mtime :: instant
  rl_id :: string

record find_match =
  fm_path :: string
  fm_name :: string
  fm_type :: string
  fm_size :: "64 word"
  fm_mtime :: instant

record find_group =
  fg_hits :: "64 word"
  fg_snapshot :: string
  fg_matches :: "find_match list"

text \<open>The floating-point ratios are only passed on; they are their JSON literals here.\<close>

record stats_result =
  st_total_size :: "64 word"
  st_total_file_count :: "64 word"
  st_total_blob_count :: "64 word"
  st_snapshots_count :: "64 word"
  st_total_uncompressed_size :: "64 word"
  st_compression_ratio :: string
  st_compression_progress :: string
  st_compression_space_saving :: string

section \<open>Decoding\<close>

definition zero_raw_ls :: raw_ls where
  "zero_raw_ls =
     \<lparr>rl_message_type = [], rl_struct_type = [], rl_name = [], rl_type = [], rl_path = [],
      rl_size = 0, rl_permissions = [], rl_mtime = zero_time, rl_id = []\<rparr>"

definition raw_ls_field :: "string \<Rightarrow> json \<Rightarrow> raw_ls \<Rightarrow> raw_ls option" where
  "raw_ls_field key v r =
     (if field_is ''message_type'' key
        then map_option (\<lambda>x. r\<lparr>rl_message_type := x\<rparr>) (dec_string v (rl_message_type r))
      else if field_is ''struct_type'' key
        then map_option (\<lambda>x. r\<lparr>rl_struct_type := x\<rparr>) (dec_string v (rl_struct_type r))
      else if field_is ''name'' key
        then map_option (\<lambda>x. r\<lparr>rl_name := x\<rparr>) (dec_string v (rl_name r))
      else if field_is ''type'' key
        then map_option (\<lambda>x. r\<lparr>rl_type := x\<rparr>) (dec_string v (rl_type r))
      else if field_is ''path'' key
        then map_option (\<lambda>x. r\<lparr>rl_path := x\<rparr>) (dec_string v (rl_path r))
      else if field_is ''size'' key
        then map_option (\<lambda>x. r\<lparr>rl_size := x\<rparr>) (dec_uint64 v (rl_size r))
      else if field_is ''permissions'' key
        then map_option (\<lambda>x. r\<lparr>rl_permissions := x\<rparr>) (dec_string v (rl_permissions r))
      else if field_is ''mtime'' key
        then map_option (\<lambda>x. r\<lparr>rl_mtime := x\<rparr>) (dec_time v (rl_mtime r))
      else if field_is ''id'' key
        then map_option (\<lambda>x. r\<lparr>rl_id := x\<rparr>) (dec_string v (rl_id r))
      else Some r)"

definition dec_raw_ls :: "json \<Rightarrow> raw_ls option" where
  "dec_raw_ls v = dec_struct raw_ls_field zero_raw_ls v"

definition zero_match :: find_match where
  "zero_match = \<lparr>fm_path = [], fm_name = [], fm_type = [], fm_size = 0, fm_mtime = zero_time\<rparr>"

definition match_field :: "string \<Rightarrow> json \<Rightarrow> find_match \<Rightarrow> find_match option" where
  "match_field key v r =
     (if field_is ''path'' key
        then map_option (\<lambda>x. r\<lparr>fm_path := x\<rparr>) (dec_string v (fm_path r))
      else if field_is ''name'' key
        then map_option (\<lambda>x. r\<lparr>fm_name := x\<rparr>) (dec_string v (fm_name r))
      else if field_is ''type'' key
        then map_option (\<lambda>x. r\<lparr>fm_type := x\<rparr>) (dec_string v (fm_type r))
      else if field_is ''size'' key
        then map_option (\<lambda>x. r\<lparr>fm_size := x\<rparr>) (dec_uint64 v (fm_size r))
      else if field_is ''mtime'' key
        then map_option (\<lambda>x. r\<lparr>fm_mtime := x\<rparr>) (dec_time v (fm_mtime r))
      else Some r)"

definition dec_match :: "json \<Rightarrow> find_match option" where
  "dec_match v = dec_struct match_field zero_match v"

definition zero_group :: find_group where
  "zero_group = \<lparr>fg_hits = 0, fg_snapshot = [], fg_matches = []\<rparr>"

definition group_field :: "string \<Rightarrow> json \<Rightarrow> find_group \<Rightarrow> find_group option" where
  "group_field key v r =
     (if field_is ''hits'' key
        then map_option (\<lambda>x. r\<lparr>fg_hits := x\<rparr>) (dec_uint64 v (fg_hits r))
      else if field_is ''snapshot'' key
        then map_option (\<lambda>x. r\<lparr>fg_snapshot := x\<rparr>) (dec_string v (fg_snapshot r))
      else if field_is ''matches'' key
        then map_option (\<lambda>x. r\<lparr>fg_matches := x\<rparr>)
               (dec_list (dec_struct match_field) zero_match v (fg_matches r))
      else Some r)"

definition dec_groups :: "json \<Rightarrow> find_group list option" where
  "dec_groups v = dec_list (dec_struct group_field) zero_group v []"

text \<open>A number literal is a \<open>float64\<close> unless it rounds beyond the largest finite one.\<close>

definition float_exponent :: "string \<Rightarrow> int" where
  "float_exponent s =
     (case dropWhile (\<lambda>c. c \<noteq> CHR ''e'' \<and> c \<noteq> CHR ''E'') s of
        [] \<Rightarrow> 0
      | _ # ds \<Rightarrow>
          if prefix ''-'' ds then - int (digits_val (tl ds))
          else if prefix ''+'' ds then int (digits_val (tl ds))
          else int (digits_val ds))"

definition float_fits :: "string \<Rightarrow> bool" where
  "float_fits lit =
     (let s = (if prefix ''-'' lit then tl lit else lit);
          whole = takeWhile is_digit s; rest = dropWhile is_digit s;
          frac = (if prefix ''.'' rest then takeWhile is_digit (tl rest) else []);
          m = digits_val (whole @ frac); e = float_exponent s - int (length frac);
          bound = 2 ^ 1024 - 2 ^ 970
      in if e \<ge> 0 then m * 10 ^ nat e < bound else m < bound * 10 ^ nat (- e))"

definition dec_float :: "json \<Rightarrow> string \<Rightarrow> string option" where
  "dec_float v old =
     (case v of JNull \<Rightarrow> Some old | JNum lit \<Rightarrow> if float_fits lit then Some lit else None | _ \<Rightarrow> None)"

definition zero_stats :: stats_result where
  "zero_stats =
     \<lparr>st_total_size = 0, st_total_file_count = 0, st_total_blob_count = 0,
      st_snapshots_count = 0, st_total_uncompressed_size = 0, st_compression_ratio = ''0'',
      st_compression_progress = ''0'', st_compression_space_saving = ''0''\<rparr>"

definition stats_field :: "string \<Rightarrow> json \<Rightarrow> stats_result \<Rightarrow> stats_result option" where
  "stats_field key v r =
     (if field_is ''total_size'' key
        then map_option (\<lambda>x. r\<lparr>st_total_size := x\<rparr>) (dec_uint64 v (st_total_size r))
      else if field_is ''total_file_count'' key
        then map_option (\<lambda>x. r\<lparr>st_total_file_count := x\<rparr>) (dec_uint64 v (st_total_file_count r))
      else if field_is ''total_blob_count'' key
        then map_option (\<lambda>x. r\<lparr>st_total_blob_count := x\<rparr>) (dec_uint64 v (st_total_blob_count r))
      else if field_is ''snapshots_count'' key
        then map_option (\<lambda>x. r\<lparr>st_snapshots_count := x\<rparr>) (dec_uint64 v (st_snapshots_count r))
      else if field_is ''total_uncompressed_size'' key
        then map_option (\<lambda>x. r\<lparr>st_total_uncompressed_size := x\<rparr>)
               (dec_uint64 v (st_total_uncompressed_size r))
      else if field_is ''compression_ratio'' key
        then map_option (\<lambda>x. r\<lparr>st_compression_ratio := x\<rparr>) (dec_float v (st_compression_ratio r))
      else if field_is ''compression_progress'' key
        then map_option (\<lambda>x. r\<lparr>st_compression_progress := x\<rparr>)
               (dec_float v (st_compression_progress r))
      else if field_is ''compression_space_saving'' key
        then map_option (\<lambda>x. r\<lparr>st_compression_space_saving := x\<rparr>)
               (dec_float v (st_compression_space_saving r))
      else Some r)"

section \<open>Lines\<close>

definition max_line :: nat where "max_line = 1048576"

definition drop_cr :: "string \<Rightarrow> string" where
  "drop_cr s = (if s \<noteq> [] \<and> last s = CHR 0x0D then butlast s else s)"

text \<open>
  The lines a scanner hands out, and whether it stopped at a line that does not fit its
  buffer. The last piece is not terminated by a newline; an empty one is not a line.
\<close>

fun deliver_lines :: "string list \<Rightarrow> string list \<times> bool" where
  "deliver_lines [] = ([], False)"
| "deliver_lines [l] =
     (if l = [] then ([], False) else if length l \<ge> max_line then ([], True) else ([drop_cr l], False))"
| "deliver_lines (l # ls) =
     (if length l \<ge> max_line then ([], True)
      else let (out, long) = deliver_lines ls in (drop_cr l # out, long))"

definition scan_lines :: "string \<Rightarrow> string list \<times> bool" where
  "scan_lines data = deliver_lines (split_on (CHR 0x0A) data)"

definition too_long :: go_error where
  "too_long = PlainErr ''bufio.Scanner: token too long''"

section \<open>Nodes\<close>

definition ls_message_type :: "raw_ls \<Rightarrow> string" where
  "ls_message_type msg =
     (if rl_message_type msg = [] then rl_struct_type msg else rl_message_type msg)"

definition node_of :: "raw_ls \<Rightarrow> string \<Rightarrow> node" where
  "node_of msg cleaned =
     \<lparr>nd_name = SanitizeString (rl_name msg), nd_type = SanitizeString (rl_type msg),
      nd_path = cleaned, nd_size = rl_size msg, nd_mode = SanitizeString (rl_permissions msg),
      nd_mtime = rl_mtime msg\<rparr>"

text \<open>What a line means: nothing, a node, or the end of the parse.\<close>

definition decode_line :: "string \<Rightarrow> raw_ls option" where
  "decode_line line = Option.bind (json_unmarshal line) dec_raw_ls"

definition ls_node :: "raw_ls \<Rightarrow> node res" where
  "ls_node msg =
     (if rl_path msg = [] then Inl (new_error ProtocolError ''ls node missing path'')
      else case CleanPath (rl_path msg) of
             Inl err \<Rightarrow> Inl (with_cause (new_error ProtocolError ''ls node has invalid path'') err)
           | Inr cleaned \<Rightarrow> Inr (node_of msg cleaned))"

fun parse_ls_loop :: "string list \<Rightarrow> nat \<Rightarrow> node list \<Rightarrow> (node list \<times> bool) res" where
  "parse_ls_loop [] mx nodes = Inr (nodes, False)"
| "parse_ls_loop (raw # ls) mx nodes =
     (let line = trim_space raw in
      if line = [] then parse_ls_loop ls mx nodes
      else case decode_line line of
        None \<Rightarrow> Inl (with_cause (new_error ProtocolError ''invalid ls JSON line'') json_error)
      | Some msg \<Rightarrow>
          if ls_message_type msg \<noteq> ''node'' then parse_ls_loop ls mx nodes
          else case ls_node msg of
            Inl err \<Rightarrow> Inl err
          | Inr n \<Rightarrow>
              if nd_path n = [] then parse_ls_loop ls mx nodes
              else if length nodes \<ge> mx then Inr (nodes, True)
              else parse_ls_loop ls mx (nodes @ [n]))"

definition node_before :: "node \<Rightarrow> node \<Rightarrow> bool" where
  "node_before a b \<longleftrightarrow> nd_path a < nd_path b"

text \<open>
  The scanner's own error is looked at only when the loop ran to its end, not when it broke
  off at the node limit.
\<close>

definition ParseLS :: "string \<Rightarrow> int \<Rightarrow> (node list \<times> bool) res" where
  "ParseLS data maxNodes =
     (let mx = (if maxNodes \<le> 0 then 500 else nat maxNodes); (ls, long) = scan_lines data in
      case parse_ls_loop ls mx [] of
        Inl err \<Rightarrow> Inl err
      | Inr (nodes, truncated) \<Rightarrow>
          if long \<and> \<not> truncated
          then Inl (with_cause (new_error ProtocolError ''failed reading ls output'') too_long)
          else Inr (sort_by node_before nodes, truncated))"

section \<open>Search hits\<close>

definition match_of :: "find_match \<Rightarrow> string \<Rightarrow> find_match" where
  "match_of m cleaned =
     (let name = (if fm_name m = [] then path_base cleaned else fm_name m) in
      \<lparr>fm_path = cleaned, fm_name = SanitizeString name, fm_type = SanitizeString (fm_type m),
       fm_size = fm_size m, fm_mtime = fm_mtime m\<rparr>)"

definition clean_match :: "find_match \<Rightarrow> string res" where
  "clean_match m =
     (if fm_path m = [] then Inl (new_error ProtocolError ''find match missing path'')
      else case CleanPath (fm_path m) of
             Inl err \<Rightarrow> Inl (with_cause (new_error ProtocolError ''find match has invalid path'') err)
           | Inr cleaned \<Rightarrow> Inr cleaned)"

fun parse_matches :: "find_match list \<Rightarrow> nat \<Rightarrow> nat \<Rightarrow> find_match list \<Rightarrow> (find_match list \<times> bool) res" where
  "parse_matches [] n mx out = Inr (out, False)"
| "parse_matches (m # ms) n mx out =
     (case clean_match m of
        Inl err \<Rightarrow> Inl err
      | Inr cleaned \<Rightarrow>
          if n \<ge> mx then Inr (out, True)
          else parse_matches ms (Suc n) mx (out @ [match_of m cleaned]))"

fun parse_groups ::
    "find_group list \<Rightarrow> nat \<Rightarrow> nat \<Rightarrow> find_group list \<Rightarrow> (find_group list \<times> nat \<times> bool) res" where
  "parse_groups [] n mx out = Inr (out, n, False)"
| "parse_groups (g # gs) n mx out =
     (if \<not> valid_snapshot_id (fg_snapshot g) \<or> fg_snapshot g = ''latest''
        then Inl (new_error ProtocolError ''find group has invalid snapshot id'')
      else case parse_matches (fg_matches g) n mx [] of
        Inl err \<Rightarrow> Inl err
      | Inr (ms, truncated) \<Rightarrow>
          let fg = \<lparr>fg_hits = fg_hits g, fg_snapshot = SanitizeString (fg_snapshot g), fg_matches = ms\<rparr>;
              out' = (if ms \<noteq> [] \<or> fg_hits g > 0 then out @ [fg] else out);
              n' = n + length ms
          in if truncated then Inr (out', n', True) else parse_groups gs n' mx out')"

definition ParseFind :: "string \<Rightarrow> int \<Rightarrow> (find_group list \<times> nat \<times> bool) res" where
  "ParseFind bytes maxResults =
     (let mx = (if maxResults \<le> 0 then 200 else nat maxResults); data = trim_space bytes in
      if data = [] then Inr ([], 0, False)
      else case Option.bind (json_unmarshal data) dec_groups of
        None \<Rightarrow> Inl (with_cause (new_error ProtocolError ''invalid find JSON'') json_error)
      | Some raw \<Rightarrow> parse_groups raw 0 mx [])"

section \<open>Statistics\<close>

definition stats_error :: go_error where
  "stats_error = with_cause (new_error ProtocolError ''invalid stats JSON'') json_error"

definition ParseStats :: "string \<Rightarrow> stats_result res" where
  "ParseStats bytes =
     (let data = trim_space bytes in
      if data = [] then Inl (new_error ProtocolError ''empty stats output'')
      else case json_unmarshal data of
        None \<Rightarrow> Inl stats_error
      | Some v \<Rightarrow>
          (case (case v of JObj ms \<Rightarrow> Some ms | JNull \<Rightarrow> Some [] | _ \<Rightarrow> None) of
             None \<Rightarrow> Inl stats_error
           | Some members \<Rightarrow>
               if map_of (rev members) ''total_size'' \<in> {None, Some JNull}
               then Inl (new_error ProtocolError ''stats total_size missing'')
               else case dec_struct stats_field zero_stats v of
                      None \<Rightarrow> Inl stats_error
                    | Some s \<Rightarrow> Inr s))"

section \<open>Every node of a listing\<close>

text \<open>
  The reference the bounded readers are compared with: all nodes of all lines, or the first
  error.
\<close>

fun ls_nodes :: "string list \<Rightarrow> node list res" where
  "ls_nodes [] = Inr []"
| "ls_nodes (raw # ls) =
     (let line = trim_space raw in
      if line = [] then ls_nodes ls
      else case decode_line line of
        None \<Rightarrow> Inl (with_cause (new_error ProtocolError ''invalid ls JSON line'') json_error)
      | Some msg \<Rightarrow>
          if ls_message_type msg \<noteq> ''node'' then ls_nodes ls
          else case ls_node msg of
            Inl err \<Rightarrow> Inl err
          | Inr n \<Rightarrow> (case ls_nodes ls of Inl err \<Rightarrow> Inl err | Inr ns \<Rightarrow> Inr (n # ns)))"

lemma ls_node_canonical: "ls_node msg = Inr n \<Longrightarrow> canonical (nd_path n)"
  by (auto simp: ls_node_def node_of_def dest: CleanPath_canonical split: if_splits sum.splits)

lemma ls_node_path: "ls_node msg = Inr n \<Longrightarrow> nd_path n \<noteq> []"
  using ls_node_canonical canonical_ne by blast

lemma ls_nodes_canonical: "ls_nodes ls = Inr ns \<Longrightarrow> list_all (\<lambda>n. canonical (nd_path n)) ns"
  by (induction ls arbitrary: ns)
    (auto simp: Let_def ls_node_canonical split: if_splits option.splits sum.splits)

text \<open>
  The kinds of line: blank, not a node, undecodable or invalid, and a node. Every loop over
  the lines is analysed along these cases.
\<close>

datatype line_kind = Skipped | Failing go_error | NodeLine node

definition classify :: "string \<Rightarrow> line_kind" where
  "classify raw =
     (let line = trim_space raw in
      if line = [] then Skipped
      else case decode_line line of
        None \<Rightarrow> Failing (with_cause (new_error ProtocolError ''invalid ls JSON line'') json_error)
      | Some msg \<Rightarrow>
          if ls_message_type msg \<noteq> ''node'' then Skipped
          else case ls_node msg of Inl err \<Rightarrow> Failing err | Inr n \<Rightarrow> NodeLine n)"

lemma ls_nodes_classify:
  "ls_nodes (raw # ls) =
     (case classify raw of
        Skipped \<Rightarrow> ls_nodes ls
      | Failing err \<Rightarrow> Inl err
      | NodeLine n \<Rightarrow> (case ls_nodes ls of Inl err \<Rightarrow> Inl err | Inr ns \<Rightarrow> Inr (n # ns)))"
  by (simp add: classify_def Let_def split: option.split sum.split)

lemma classify_node: "classify raw = NodeLine n \<Longrightarrow> canonical (nd_path n) \<and> nd_path n \<noteq> []"
  using ls_node_canonical ls_node_path
  by (auto simp: classify_def Let_def split: if_splits option.splits sum.splits)

lemma parse_ls_loop_classify:
  "parse_ls_loop (raw # ls) mx nodes =
     (case classify raw of
        Skipped \<Rightarrow> parse_ls_loop ls mx nodes
      | Failing err \<Rightarrow> Inl err
      | NodeLine n \<Rightarrow>
          if length nodes \<ge> mx then Inr (nodes, True) else parse_ls_loop ls mx (nodes @ [n]))"
  by (auto simp: classify_def Let_def dest: ls_node_path split: option.split sum.split)

declare ls_nodes.simps(2) [simp del] parse_ls_loop.simps(2) [simp del]

lemma parse_ls_loop_spec:
  "ls_nodes ls = Inr ns \<Longrightarrow> length nodes \<le> mx \<Longrightarrow>
   parse_ls_loop ls mx nodes =
     Inr (take mx (nodes @ ns), mx < length nodes + length ns)"
proof (induction ls arbitrary: ns nodes)
  case (Cons raw ls)
  show ?case
  proof (cases "classify raw")
    case (NodeLine n)
    then obtain ms where ms: "ls_nodes ls = Inr ms" "ns = n # ms"
      using Cons.prems(1) by (auto simp: ls_nodes_classify split: sum.splits)
    then show ?thesis
      using Cons.IH [OF ms(1), of "nodes @ [n]"] Cons.prems(2) NodeLine
      by (auto simp: parse_ls_loop_classify)
  qed (use Cons in \<open>simp_all add: ls_nodes_classify parse_ls_loop_classify\<close>)
qed simp

interpretation nodes: weak_order node_before
  unfolding node_before_def by (rule weak_order_key)

section \<open>A listing of two nodes\<close>

definition sample_listing :: string where
  "sample_listing =
     ''{\"message_type\":\"node\",\"path\":\"/b\"}'' @ [CHR 0x0A] @
     ''{\"message_type\":\"node\",\"path\":\"/a\"}'' @ [CHR 0x0A]"

definition sample_node :: "string \<Rightarrow> node" where
  "sample_node p = node_of (zero_raw_ls\<lparr>rl_message_type := ''node'', rl_path := p\<rparr>) p"

lemma CleanPath_samples: "CleanPath ''/a'' = Inr ''/a''" "CleanPath ''/b'' = Inr ''/b''"
  by (simp_all add: CleanPath_Inr max_path_bytes_def has_control_ascii byte_def is_control_def
      path_clean_def prefix_def)

lemma classify_sample:
  "classify ''{\"message_type\":\"node\",\"path\":\"/b\"}'' = NodeLine (sample_node ''/b'')"
  "classify ''{\"message_type\":\"node\",\"path\":\"/a\"}'' = NodeLine (sample_node ''/a'')"
proof -
  have trim: "trim_space ''{\"message_type\":\"node\",\"path\":\"/b\"}'' =
      ''{\"message_type\":\"node\",\"path\":\"/b\"}''"
    "trim_space ''{\"message_type\":\"node\",\"path\":\"/a\"}'' =
      ''{\"message_type\":\"node\",\"path\":\"/a\"}''"
    by (simp_all add: trim_space_def rune_chunks_ascii byte_def is_space_def)
  have json: "json_unmarshal ''{\"message_type\":\"node\",\"path\":\"/b\"}'' =
      Some (JObj [(''message_type'', JStr ''node''), (''path'', JStr ''/b'')])"
    "json_unmarshal ''{\"message_type\":\"node\",\"path\":\"/a\"}'' =
      Some (JObj [(''message_type'', JStr ''node''), (''path'', JStr ''/a'')])"
    by (simp_all add: json_unmarshal_def scan_simps)
  show "classify ''{\"message_type\":\"node\",\"path\":\"/b\"}'' = NodeLine (sample_node ''/b'')"
    "classify ''{\"message_type\":\"node\",\"path\":\"/a\"}'' = NodeLine (sample_node ''/a'')"
    unfolding classify_def trim Let_def decode_line_def json
    by (simp_all add: dec_raw_ls_def raw_ls_field_def dec_simps unquote.simps unquote_head_def
        ls_message_type_def ls_node_def CleanPath_samples sample_node_def zero_raw_ls_def)
qed

lemma sample_lines:
  "scan_lines sample_listing =
     ([''{\"message_type\":\"node\",\"path\":\"/b\"}'', ''{\"message_type\":\"node\",\"path\":\"/a\"}''], False)"
  by (simp add: sample_listing_def scan_lines_def max_line_def drop_cr_def)

lemma sample_nodes:
  "ls_nodes (fst (scan_lines sample_listing)) = Inr [sample_node ''/b'', sample_node ''/a'']"
  by (simp add: sample_lines ls_nodes_classify classify_sample)

section \<open>Properties\<close>

text \<open>
  \<open>ParseLS\<close> against the reference: on a listing all of whose lines decode and fit the
  line buffer, it returns the first nodes up to the limit, sorted by path, and reports
  truncation exactly when there are more. Every path is canonical.
\<close>

theorem ParseLS_page:
  fixes m :: int
  assumes "scan_lines data = (ls, False)" and "ls_nodes ls = Inr ns"
  defines "mx \<equiv> if m \<le> 0 then 500 else nat m"
  shows "ParseLS data m = Inr (sort_by node_before (take mx ns), mx < length ns) \<and>
    list_all (\<lambda>n. canonical (nd_path n)) ns \<and>
    sorted_wrt (\<lambda>a b. nd_path a \<le> nd_path b) (sort_by node_before (take mx ns))"
proof -
  have "parse_ls_loop ls mx [] = Inr (take mx ns, mx < length ns)"
    using parse_ls_loop_spec [OF assms(2), of "[]" mx] by simp
  moreover have "sorted_wrt (\<lambda>a b. nd_path a \<le> nd_path b) (sort_by node_before xs)" for xs
    using nodes.sorted_sort_by [of xs] by (simp add: node_before_def not_less)
  ultimately show ?thesis
    using assms(1) ls_nodes_canonical [OF assms(2)] by (simp add: ParseLS_def Let_def mx_def)
qed

theorem ParseLS_page_witness:
  "ParseLS sample_listing 1 = Inr ([sample_node ''/b''], True)"
  using ParseLS_page [of sample_listing _ "[sample_node ''/b'', sample_node ''/a'']" 1]
    sample_nodes sample_lines
  by simp

lemma parse_matches_bound:
  assumes "parse_matches ms n mx out = Inr (out', tr)" and "n \<le> mx"
    and "list_all (\<lambda>m. canonical (fm_path m)) out"
  shows "length out \<le> length out' \<and> n + (length out' - length out) \<le> mx \<and>
    list_all (\<lambda>m. canonical (fm_path m)) out'"
  using assms
proof (induction ms n mx out rule: parse_matches.induct)
  case (2 m ms n mx out)
  then obtain cleaned where c: "clean_match m = Inr cleaned" by (auto split: sum.splits)
  then have "canonical cleaned"
    by (auto simp: clean_match_def dest: CleanPath_canonical split: if_splits sum.splits)
  then have "canonical (fm_path (match_of m cleaned))" by (simp add: match_of_def Let_def)
  with 2 c show ?case by (auto split: if_splits)
qed simp

lemma parse_groups_bound:
  assumes "parse_groups gs n mx out = Inr (out', n', tr)" and "n \<le> mx"
    and "n = sum_list (map (\<lambda>g. length (fg_matches g)) out)"
    and "list_all (\<lambda>g. list_all (\<lambda>m. canonical (fm_path m)) (fg_matches g)) out"
  shows "n' = sum_list (map (\<lambda>g. length (fg_matches g)) out') \<and> n' \<le> mx \<and>
    list_all (\<lambda>g. list_all (\<lambda>m. canonical (fm_path m)) (fg_matches g)) out'"
  using assms
proof (induction gs n mx out rule: parse_groups.induct)
  case (2 g gs n mx out)
  then obtain ms trm where ms: "parse_matches (fg_matches g) n mx [] = Inr (ms, trm)"
      and valid: "valid_snapshot_id (fg_snapshot g)" "fg_snapshot g \<noteq> ''latest''"
    by (auto split: if_splits sum.splits)
  have b: "n + length ms \<le> mx" "list_all (\<lambda>m. canonical (fm_path m)) ms"
    using parse_matches_bound [OF ms "2.prems"(2)] by simp_all
  let ?out = "if ms \<noteq> [] \<or> fg_hits g > 0
    then out @ [\<lparr>fg_hits = fg_hits g, fg_snapshot = SanitizeString (fg_snapshot g), fg_matches = ms\<rparr>]
    else out"
  have out: "n + length ms = sum_list (map (\<lambda>g. length (fg_matches g)) ?out)"
    "list_all (\<lambda>g. list_all (\<lambda>m. canonical (fm_path m)) (fg_matches g)) ?out"
    using "2.prems"(3,4) b by (auto simp: list_all_iff)
  show ?case
  proof (cases trm)
    case True
    have "out' = ?out \<and> n' = n + length ms"
      using "2.prems"(1) ms valid True by (auto simp: Let_def)
    then show ?thesis using out b(1) by presburger
  next
    case False
    have "parse_groups gs (n + length ms) mx ?out = Inr (out', n', tr)"
      using "2.prems"(1) ms valid False by (simp add: Let_def)
    moreover have "\<not> (\<not> valid_snapshot_id (fg_snapshot g) \<or> fg_snapshot g = ''latest'')"
      using valid by blast
    ultimately show ?thesis
      using "2.IH" [OF _ ms refl refl refl refl] False out b by blast
  qed
qed simp

text \<open>
  \<open>ParseFind\<close> returns at most the requested number of matches over all groups, reports
  their exact number, and every match it returns has a canonical path.
\<close>

theorem ParseFind_bounds:
  assumes "ParseFind bytes m = Inr (groups, n, truncated)"
  shows "n = sum_list (map (\<lambda>g. length (fg_matches g)) groups) \<and>
    n \<le> (if m \<le> 0 then 200 else nat m) \<and>
    list_all (\<lambda>g. list_all (\<lambda>m. canonical (fm_path m)) (fg_matches g)) groups"
  using assms parse_groups_bound [of _ 0 _ "[]" groups n truncated]
  by (auto simp: ParseFind_def Let_def split: if_splits option.splits)

theorem ParseFind_bounds_witness:
  "ParseFind ''[]'' 3 = Inr ([], 0, False) \<and> (0::nat) \<le> 3"
proof -
  have "trim_space ''[]'' = ''[]''" by (simp add: trim_space_def rune_chunks_ascii byte_def is_space_def)
  moreover have "json_unmarshal ''[]'' = Some (JArr [])" by (simp add: json_unmarshal_def scan_simps)
  ultimately have run: "ParseFind ''[]'' 3 = Inr ([], 0, False)"
    by (simp add: ParseFind_def Let_def dec_groups_def dec_list_def)
  then show ?thesis using ParseFind_bounds [OF run] by simp
qed

end
