(* ===== verification/Scan.thy ===== *)
theory Scan
  imports Nodes
begin

text \<open>
  The bounded listing scan of \<open>internal/restic/scan.go\<close>. The reader's byte budget is a small
  state machine of its own; the scan then works on the bytes that machine lets through and
  on the fact whether it cut the stream. \<open>RawBytes\<close>, which only counts how far the reader
  happened to read ahead and which no handler looks at, is left out of the statistics.
\<close>

section \<open>The byte budget\<close>

record budget_reader =
  br_rest :: string
  br_limit :: int
  br_consumed :: int
  br_exceeded :: bool

definition newBudgetReader :: "string \<Rightarrow> int \<Rightarrow> budget_reader" where
  "newBudgetReader data lim =
     \<lparr>br_rest = data, br_limit = lim, br_consumed = 0, br_exceeded = False\<rparr>"

text \<open>
  One \<open>Read\<close> into a buffer of \<open>len\<close> bytes. The underlying reader delivers the next
  \<open>k\<close> bytes at most, and reports the end of the stream once nothing is left.
\<close>

definition read_under :: "nat \<Rightarrow> nat \<Rightarrow> string \<Rightarrow> string \<times> read_error option" where
  "read_under k len rest =
     (if rest = [] then ([], Some AtEOF) else (take (min len (max 1 k)) rest, None))"

definition budget_read ::
    "nat \<Rightarrow> nat \<Rightarrow> budget_reader \<Rightarrow> (string \<times> read_error option) \<times> budget_reader" where
  "budget_read k len b =
     (if br_exceeded b then (([], Some Budget), b)
      else if br_limit b > 0 \<and> br_consumed b \<ge> br_limit b then
        (case read_under k 1 (br_rest b) of
           (probe, err) \<Rightarrow>
             if length probe > 0
             then (([], Some Budget), b\<lparr>br_rest := drop (length probe) (br_rest b), br_exceeded := True\<rparr>)
             else (([], err), b))
      else
        let room = (if br_limit b > 0 then min len (nat (br_limit b - br_consumed b)) else len)
        in (case read_under k room (br_rest b) of
              (out, err) \<Rightarrow>
                ((out, err), b\<lparr>br_rest := drop (length out) (br_rest b),
                               br_consumed := br_consumed b + int (length out)\<rparr>)))"

text \<open>A sequence of reads: what they delivered, and the last error seen.\<close>

fun budget_reads :: "(nat \<times> nat) list \<Rightarrow> budget_reader \<Rightarrow> string \<times> read_error option \<times> budget_reader" where
  "budget_reads [] b = ([], None, b)"
| "budget_reads ((k, len) # rs) b =
     (case budget_read k len b of
        ((out, err), b') \<Rightarrow>
          (case budget_reads rs b' of
             (outs, err', b'') \<Rightarrow> (out @ outs, if err' = None then err else err', b'')))"

section \<open>Limits, statistics and results\<close>

record scan_limits =
  sl_max_bytes :: int
  sl_max_decoded :: int

record scan_stats =
  ss_decoded :: nat
  ss_accepted :: nat
  ss_page :: nat
  ss_complete :: bool
  ss_more :: bool
  ss_stopped_early :: bool
  ss_budget_exhausted :: bool

definition zero_scan_stats :: scan_stats where
  "zero_scan_stats =
     \<lparr>ss_decoded = 0, ss_accepted = 0, ss_page = 0, ss_complete = False, ss_more = False,
      ss_stopped_early = False, ss_budget_exhausted = False\<rparr>"

record ls_result =
  lr_nodes :: "node list"
  lr_stats :: scan_stats

definition zero_ls_result :: ls_result where
  "zero_ls_result = \<lparr>lr_nodes = [], lr_stats = zero_scan_stats\<rparr>"

definition scanLimitsOrDefault :: "scan_limits \<Rightarrow> scan_limits" where
  "scanLimitsOrDefault limits =
     \<lparr>sl_max_bytes = (if sl_max_bytes limits \<le> 0 then 16777216 else sl_max_bytes limits),
      sl_max_decoded = (if sl_max_decoded limits \<le> 0 then 50000 else sl_max_decoded limits)\<rparr>"

definition pageMayHaveMore :: "nat \<Rightarrow> nat \<Rightarrow> bool" where
  "pageMayHaveMore pageEntries limit \<longleftrightarrow> limit > 0 \<and> pageEntries \<ge> limit"

definition exhausted :: "nat \<Rightarrow> scan_stats \<Rightarrow> scan_stats" where
  "exhausted limit st =
     st\<lparr>ss_budget_exhausted := True, ss_stopped_early := True,
        ss_more := pageMayHaveMore (ss_page st) limit\<rparr>"

section \<open>Scanning a listing\<close>

text \<open>
  The loop over the lines. \<open>tail_cut\<close>: the byte budget cut the last of the lines short.
  The result is paired with whether the loop returned from inside.
\<close>

fun ls_loop ::
    "bool \<Rightarrow> nat \<Rightarrow> nat \<Rightarrow> (node \<Rightarrow> bool) \<Rightarrow> string list \<Rightarrow> nat \<Rightarrow> ls_result \<Rightarrow> (ls_result \<times> bool) res" where
  "ls_loop tail_cut mx limit acc [] skip r = Inr (r, False)"
| "ls_loop tail_cut mx limit acc (raw # ls) skip r =
     (let line = trim_space raw; st = lr_stats r in
      if line = [] then ls_loop tail_cut mx limit acc ls skip r
      else if ss_decoded st \<ge> mx then Inr (r\<lparr>lr_stats := exhausted limit st\<rparr>, True)
      else case decode_line line of
        None \<Rightarrow>
          if tail_cut \<and> ls = [] then Inr (r\<lparr>lr_stats := exhausted limit st\<rparr>, True)
          else Inl (with_cause (new_error ProtocolError ''invalid ls JSON line'') json_error)
      | Some msg \<Rightarrow>
          if ls_message_type msg \<noteq> ''node'' then ls_loop tail_cut mx limit acc ls skip r
          else
            let st1 = st\<lparr>ss_decoded := ss_decoded st + 1\<rparr>; r1 = r\<lparr>lr_stats := st1\<rparr> in
            case ls_node msg of
              Inl err \<Rightarrow> Inl err
            | Inr n \<Rightarrow>
                if nd_path n = [] then ls_loop tail_cut mx limit acc ls skip r1
                else if \<not> acc n then ls_loop tail_cut mx limit acc ls skip r1
                else
                  let st2 = st1\<lparr>ss_accepted := ss_accepted st1 + 1\<rparr>; r2 = r\<lparr>lr_stats := st2\<rparr> in
                  if skip > 0 then ls_loop tail_cut mx limit acc ls (skip - 1) r2
                  else if length (lr_nodes r) < limit then
                    ls_loop tail_cut mx limit acc ls skip
                      \<lparr>lr_nodes = lr_nodes r @ [n],
                       lr_stats = st2\<lparr>ss_page := length (lr_nodes r @ [n])\<rparr>\<rparr>
                  else Inr (r\<lparr>lr_stats := st2\<lparr>ss_more := True, ss_stopped_early := True\<rparr>\<rparr>, True))"

definition ScanLS ::
    "string \<Rightarrow> scan_limits \<Rightarrow> int \<Rightarrow> int \<Rightarrow> (node \<Rightarrow> bool) \<Rightarrow> ls_result res" where
  "ScanLS data limits0 skip limit acc =
     (let limits = scanLimitsOrDefault limits0;
          avail = take (nat (sl_max_bytes limits)) data;
          over = length data > nat (sl_max_bytes limits);
          (ls, long) = scan_lines avail;
          tail_cut = (over \<and> \<not> long \<and> last (split_on (CHR 0x0A) avail) \<noteq> [])
      in case ls_loop tail_cut (nat (sl_max_decoded limits)) (nat (max 0 limit)) acc ls
                (nat (max 0 skip)) zero_ls_result of
           Inl err \<Rightarrow> Inl err
         | Inr (r, True) \<Rightarrow> Inr r
         | Inr (r, False) \<Rightarrow>
             if long
               then Inl (with_cause (new_error ProtocolError ''failed reading ls output'') too_long)
             else if over then Inr (r\<lparr>lr_stats := exhausted (nat (max 0 limit)) (lr_stats r)\<rparr>)
             else Inr (r\<lparr>lr_stats := (lr_stats r)\<lparr>ss_complete := True\<rparr>\<rparr>))"

section \<open>The loop, line kind by line kind\<close>

text \<open>What a node does to the state of the scan, and whether the scan stops at it.\<close>

definition see_node :: "nat \<Rightarrow> (node \<Rightarrow> bool) \<Rightarrow> node \<Rightarrow> nat \<Rightarrow> ls_result \<Rightarrow> nat \<times> ls_result \<times> bool" where
  "see_node limit acc n skip r =
     (let st = lr_stats r; st1 = st\<lparr>ss_decoded := ss_decoded st + 1\<rparr>;
          st2 = st1\<lparr>ss_accepted := ss_accepted st + 1\<rparr>
      in if \<not> acc n then (skip, r\<lparr>lr_stats := st1\<rparr>, False)
         else if skip > 0 then (skip - 1, r\<lparr>lr_stats := st2\<rparr>, False)
         else if length (lr_nodes r) < limit then
           (skip, \<lparr>lr_nodes = lr_nodes r @ [n], lr_stats = st2\<lparr>ss_page := length (lr_nodes r) + 1\<rparr>\<rparr>, False)
         else (skip, r\<lparr>lr_stats := st2\<lparr>ss_more := True, ss_stopped_early := True\<rparr>\<rparr>, True))"

lemma ls_loop_line:
  "ls_loop tail_cut mx limit acc (raw # ls) skip r =
     (if trim_space raw = [] then ls_loop tail_cut mx limit acc ls skip r
      else if ss_decoded (lr_stats r) \<ge> mx
        then Inr (r\<lparr>lr_stats := exhausted limit (lr_stats r)\<rparr>, True)
      else case classify raw of
        Skipped \<Rightarrow> ls_loop tail_cut mx limit acc ls skip r
      | Failing err \<Rightarrow>
          if decode_line (trim_space raw) = None \<and> tail_cut \<and> ls = []
          then Inr (r\<lparr>lr_stats := exhausted limit (lr_stats r)\<rparr>, True) else Inl err
      | NodeLine n \<Rightarrow>
          (case see_node limit acc n skip r of
             (skip', r', stop) \<Rightarrow>
               if stop then Inr (r', True) else ls_loop tail_cut mx limit acc ls skip' r'))"
  by (auto simp: classify_def see_node_def Let_def dest: ls_node_path
      split: option.split sum.split)

declare ls_loop.simps(2) [simp del]

lemma classify_blank: "trim_space raw = [] \<Longrightarrow> classify raw = Skipped"
  by (simp add: classify_def)

lemma see_node_cases:
  assumes "see_node limit acc n skip r = (skip', r', stop)"
  obtains (hidden) "\<not> acc n" "skip' = skip" "lr_nodes r' = lr_nodes r" "\<not> stop"
      "lr_stats r' = (lr_stats r)\<lparr>ss_decoded := ss_decoded (lr_stats r) + 1\<rparr>"
    | (skipped) "acc n" "skip = Suc skip'" "lr_nodes r' = lr_nodes r" "\<not> stop"
      "lr_stats r' = (lr_stats r)\<lparr>ss_decoded := ss_decoded (lr_stats r) + 1,
         ss_accepted := ss_accepted (lr_stats r) + 1\<rparr>"
    | (kept) "acc n" "skip = 0" "skip' = 0" "length (lr_nodes r) < limit"
      "lr_nodes r' = lr_nodes r @ [n]" "\<not> stop"
      "lr_stats r' = (lr_stats r)\<lparr>ss_decoded := ss_decoded (lr_stats r) + 1,
         ss_accepted := ss_accepted (lr_stats r) + 1, ss_page := length (lr_nodes r) + 1\<rparr>"
    | (full) "acc n" "skip = 0" "limit \<le> length (lr_nodes r)" "lr_nodes r' = lr_nodes r" "stop"
      "lr_stats r' = (lr_stats r)\<lparr>ss_decoded := ss_decoded (lr_stats r) + 1,
         ss_accepted := ss_accepted (lr_stats r) + 1, ss_more := True, ss_stopped_early := True\<rparr>"
  using assms by (cases skip) (auto simp: see_node_def Let_def split: if_splits)

text \<open>The page the loop ends with when the whole listing, within the limit, decodes to \<open>ns\<close>.\<close>

definition paged ::
    "nat \<Rightarrow> (node \<Rightarrow> bool) \<Rightarrow> node list \<Rightarrow> nat \<Rightarrow> ls_result \<Rightarrow> ls_result \<Rightarrow> bool \<Rightarrow> bool" where
  "paged limit acc ns skip r r' stop \<longleftrightarrow>
     lr_nodes r' = lr_nodes r @ take (limit - length (lr_nodes r)) (drop skip (filter acc ns)) \<and>
     ss_page (lr_stats r') = length (lr_nodes r') \<and>
     stop = (skip + (limit - length (lr_nodes r)) < length (filter acc ns)) \<and>
     ss_accepted (lr_stats r') = ss_accepted (lr_stats r) +
       (if stop then Suc (skip + (limit - length (lr_nodes r))) else length (filter acc ns)) \<and>
     ss_more (lr_stats r') = (ss_more (lr_stats r) \<or> stop) \<and>
     ss_stopped_early (lr_stats r') = (ss_stopped_early (lr_stats r) \<or> stop) \<and>
     ss_complete (lr_stats r') = ss_complete (lr_stats r) \<and>
     ss_budget_exhausted (lr_stats r') = ss_budget_exhausted (lr_stats r)"

lemma paged_node:
  assumes "paged limit acc ns skip1 r1 r' stop"
    and "see_node limit acc n skip r = (skip1, r1, False)"
  shows "paged limit acc (n # ns) skip r r' stop"
  using assms(2)
proof (cases rule: see_node_cases)
  case hidden
  with assms(1) show ?thesis by (simp add: paged_def)
next
  case skipped
  with assms(1) show ?thesis by (auto simp: paged_def)
next
  case kept
  then obtain d where d: "limit - length (lr_nodes r) = Suc d" "limit - length (lr_nodes r1) = d"
    by (cases "limit - length (lr_nodes r)") auto
  from kept assms(1) show ?thesis unfolding paged_def d by auto
next
  case full
  then show ?thesis by simp
qed

lemma ls_loop_spec:
  assumes "ls_nodes ls = Inr ns" and "ss_decoded (lr_stats r) + length ns < mx"
    and "ss_page (lr_stats r) = length (lr_nodes r)" and "length (lr_nodes r) \<le> limit"
    and "skip = 0 \<or> lr_nodes r = []"
  shows "\<exists>r' stop. ls_loop tail_cut mx limit acc ls skip r = Inr (r', stop) \<and>
    paged limit acc ns skip r r' stop"
  using assms
proof (induction ls arbitrary: ns skip r)
  case (Cons raw ls)
  have room: "\<not> ss_decoded (lr_stats r) \<ge> mx" using Cons.prems(2) by simp
  show ?case
  proof (cases "classify raw")
    case Skipped
    then have ns: "ls_nodes ls = Inr ns" using Cons.prems(1) by (simp add: ls_nodes_classify)
    have "ls_loop tail_cut mx limit acc (raw # ls) skip r = ls_loop tail_cut mx limit acc ls skip r"
      using room Skipped by (simp add: ls_loop_line)
    then show ?thesis using Cons.IH [OF ns Cons.prems(2-5)] by simp
  next
    case (Failing e)
    with Cons.prems(1) show ?thesis by (simp add: ls_nodes_classify)
  next
    case (NodeLine n)
    then obtain ms where ms: "ls_nodes ls = Inr ms" "ns = n # ms"
      using Cons.prems(1) by (auto simp: ls_nodes_classify split: sum.splits)
    obtain skip' r' stop where see: "see_node limit acc n skip r = (skip', r', stop)"
      by (metis prod_cases3)
    have "trim_space raw \<noteq> []" using NodeLine classify_blank by force
    then have loop: "ls_loop tail_cut mx limit acc (raw # ls) skip r =
        (if stop then Inr (r', True) else ls_loop tail_cut mx limit acc ls skip' r')"
      using room NodeLine see by (simp add: ls_loop_line)
    show ?thesis
    proof (cases stop)
      case True
      with see Cons.prems(3-5) have "paged limit acc (n # ms) skip r r' True"
        by (auto simp: see_node_def Let_def paged_def split: if_splits)
      moreover have "ls_loop tail_cut mx limit acc (raw # ls) skip r = Inr (r', True)"
        using loop True by simp
      ultimately show ?thesis unfolding ms(2) by blast
    next
      case False
      have "ss_decoded (lr_stats r') + length ms < mx"
        "ss_page (lr_stats r') = length (lr_nodes r')" "length (lr_nodes r') \<le> limit"
        "skip' = 0 \<or> lr_nodes r' = []"
        using see False Cons.prems(2-5) ms(2)
        by (auto simp: see_node_def Let_def split: if_splits)
      from Cons.IH [OF ms(1) this] obtain r2 stop2 where
        "ls_loop tail_cut mx limit acc ls skip' r' = Inr (r2, stop2)" "paged limit acc ms skip' r' r2 stop2"
        by blast
      moreover have "see_node limit acc n skip r = (skip', r', False)" using see False by simp
      ultimately have "paged limit acc (n # ms) skip r r2 stop2"
        "ls_loop tail_cut mx limit acc (raw # ls) skip r = Inr (r2, stop2)"
        using loop False by (simp_all add: paged_node)
      then show ?thesis unfolding ms(2) by blast
    qed
  qed
qed (auto simp: paged_def)

text \<open>
  What holds of the loop on any input whatever: it has decoded some nodes, within the limit,
  and holds the requested page of the accepted ones among them; if it ran to the end of the
  lines, those are all nodes of the listing.
\<close>

definition scanned ::
    "nat \<Rightarrow> nat \<Rightarrow> (node \<Rightarrow> bool) \<Rightarrow> string list \<Rightarrow> nat \<Rightarrow> ls_result \<Rightarrow> ls_result \<Rightarrow> bool \<Rightarrow> node list \<Rightarrow> bool" where
  "scanned mx limit acc ls skip r r' stop ns \<longleftrightarrow>
     lr_nodes r' = lr_nodes r @ take (limit - length (lr_nodes r)) (drop skip (filter acc ns)) \<and>
     list_all (\<lambda>n. canonical (nd_path n)) ns \<and>
     ss_decoded (lr_stats r') = ss_decoded (lr_stats r) + length ns \<and>
     ss_decoded (lr_stats r') \<le> mx \<and> ss_page (lr_stats r') = length (lr_nodes r') \<and>
     ss_complete (lr_stats r') = ss_complete (lr_stats r) \<and>
     (stop \<or> ls_nodes ls = Inr ns \<and> length (filter acc ns) \<le> skip + (limit - length (lr_nodes r)) \<and>
        ss_accepted (lr_stats r') = ss_accepted (lr_stats r) + length (filter acc ns) \<and>
        ss_more (lr_stats r') = ss_more (lr_stats r) \<and>
        ss_budget_exhausted (lr_stats r') = ss_budget_exhausted (lr_stats r))"

lemma scanned_node:
  assumes "scanned mx limit acc ls skip1 r1 r' stop ns"
    and "see_node limit acc n skip r = (skip1, r1, False)"
    and "classify raw = NodeLine n"
  shows "scanned mx limit acc (raw # ls) skip r r' stop (n # ns)"
proof -
  have ref: "ls_nodes (raw # ls) = (case ls_nodes ls of Inl err \<Rightarrow> Inl err | Inr ns \<Rightarrow> Inr (n # ns))"
    using assms(3) by (simp add: ls_nodes_classify)
  have canon: "canonical (nd_path n)" using classify_node [OF assms(3)] by simp
  from assms(2) show ?thesis
  proof (cases rule: see_node_cases)
    case hidden
    with assms(1) canon ref show ?thesis by (auto simp: scanned_def)
  next
    case skipped
    with assms(1) canon ref show ?thesis by (auto simp: scanned_def)
  next
    case kept
    then obtain d where d: "limit - length (lr_nodes r) = Suc d" "limit - length (lr_nodes r1) = d"
      by (cases "limit - length (lr_nodes r)") auto
    from kept assms(1) canon ref show ?thesis unfolding scanned_def d by auto
  next
    case full
    then show ?thesis by simp
  qed
qed

lemma ls_loop_inv:
  assumes "ls_loop tail_cut mx limit acc ls skip r = Inr (r', stop)"
    and "ss_page (lr_stats r) = length (lr_nodes r)" and "length (lr_nodes r) \<le> limit"
    and "skip = 0 \<or> lr_nodes r = []" and "ss_decoded (lr_stats r) \<le> mx"
  shows "\<exists>ns. scanned mx limit acc ls skip r r' stop ns"
  using assms
proof (induction ls arbitrary: skip r)
  case Nil
  then show ?case by (intro exI [of _ "[]"]) (auto simp: scanned_def)
next
  case (Cons raw ls)
  have out_of_budget: ?case if "r' = r\<lparr>lr_stats := exhausted limit (lr_stats r)\<rparr>" "stop"
    using that Cons.prems by (intro exI [of _ "[]"]) (simp add: exhausted_def scanned_def)
  have skipping: ?case if "ls_loop tail_cut mx limit acc ls skip r = Inr (r', stop)" "classify raw = Skipped"
  proof -
    have "ls_nodes (raw # ls) = ls_nodes ls" using that by (simp add: ls_nodes_classify)
    with Cons.IH [OF that(1) Cons.prems(2-)] show ?thesis by (simp add: scanned_def)
  qed
  note run = Cons.prems(1) [unfolded ls_loop_line]
  show ?case
  proof (cases "trim_space raw = []")
    case True
    with run show ?thesis by (intro skipping) (simp_all add: classify_blank)
  next
    case False
    show ?thesis
    proof (cases "ss_decoded (lr_stats r) \<ge> mx")
      case True
      with run False have "r' = r\<lparr>lr_stats := exhausted limit (lr_stats r)\<rparr>" "stop" by simp_all
      then show ?thesis by (rule out_of_budget)
    next
      case room: False
      show ?thesis
      proof (cases "classify raw")
        case Skipped
        with False room run show ?thesis by (intro skipping) simp_all
      next
        case (Failing e)
        with run False room have "r' = r\<lparr>lr_stats := exhausted limit (lr_stats r)\<rparr>" "stop"
          by (auto split: if_splits)
        then show ?thesis by (rule out_of_budget)
      next
        case (NodeLine n)
        obtain skip1 r1 stop1 where see: "see_node limit acc n skip r = (skip1, r1, stop1)"
          by (metis prod_cases3)
        show ?thesis
        proof (cases stop1)
          case True
          with run False room NodeLine see have "r' = r1" "stop" by simp_all
          moreover have "canonical (nd_path n)" using classify_node [OF NodeLine] by simp
          moreover have "acc n" "skip = 0" "limit \<le> length (lr_nodes r)" "lr_nodes r1 = lr_nodes r"
            "ss_decoded (lr_stats r1) = Suc (ss_decoded (lr_stats r))"
            "ss_page (lr_stats r1) = ss_page (lr_stats r)" "ss_complete (lr_stats r1) = ss_complete (lr_stats r)"
            using see True by (auto simp: see_node_def Let_def split: if_splits)
          ultimately show ?thesis using room Cons.prems(2)
            by (intro exI [of _ "[n]"]) (simp add: scanned_def)
        next
          case stay: False
          with run False room NodeLine see
          have loop: "ls_loop tail_cut mx limit acc ls skip1 r1 = Inr (r', stop)" by simp
          have "ss_page (lr_stats r1) = length (lr_nodes r1)" "length (lr_nodes r1) \<le> limit"
            "skip1 = 0 \<or> lr_nodes r1 = []" "ss_decoded (lr_stats r1) \<le> mx"
            using see stay room Cons.prems(2-) by (auto simp: see_node_def Let_def split: if_splits)
          from Cons.IH [OF loop this] obtain ns where "scanned mx limit acc ls skip1 r1 r' stop ns" ..
          moreover have "see_node limit acc n skip r = (skip1, r1, False)" using see stay by simp
          ultimately have "scanned mx limit acc (raw # ls) skip r r' stop (n # ns)"
            using NodeLine by (rule scanned_node)
          then show ?thesis ..
        qed
      qed
    qed
  qed
qed

section \<open>The byte budget: what it lets through\<close>

lemma budget_read_cases:
  assumes "budget_read k len b = ((out, err), b')"
  obtains (refused) "br_exceeded b" "out = []" "err = Some Budget" "b' = b"
    | (crossed) "\<not> br_exceeded b" "br_limit b > 0" "br_consumed b \<ge> br_limit b" "br_rest b \<noteq> []"
      "out = []" "err = Some Budget"
      "b' = b\<lparr>br_rest := drop 1 (br_rest b), br_exceeded := True\<rparr>"
    | (ended) "\<not> br_exceeded b" "br_rest b = []" "out = []" "err = Some AtEOF" "b' = b"
    | (data) n where "\<not> br_exceeded b" "out = take n (br_rest b)" "err = None"
      "br_limit b > 0 \<Longrightarrow> int n \<le> br_limit b - br_consumed b"
      "b' = b\<lparr>br_rest := drop (length out) (br_rest b), br_consumed := br_consumed b + int (length out)\<rparr>"
proof (cases "br_exceeded b")
  case True
  with assms show ?thesis by (intro refused) (simp_all add: budget_read_def)
next
  case sound: False
  show ?thesis
  proof (cases "br_rest b = []")
    case True
    then have "b\<lparr>br_rest := []\<rparr> = b" by (cases b) simp
    with True sound assms show ?thesis
      by (intro ended) (auto simp: budget_read_def read_under_def split: if_splits)
  next
    case left: False
    show ?thesis
    proof (cases "br_limit b > 0 \<and> br_consumed b \<ge> br_limit b")
      case True
      moreover have "length (take (min 1 (max 1 k)) (br_rest b)) = 1"
        using left by (cases "br_rest b") auto
      ultimately show ?thesis using assms left sound
        by (intro crossed) (simp_all add: budget_read_def read_under_def)
    next
      case False
      define room where "room = (if br_limit b > 0 then min len (nat (br_limit b - br_consumed b)) else len)"
      have "br_limit b > 0 \<Longrightarrow> int (min room (max 1 k)) \<le> br_limit b - br_consumed b"
        using False by (simp add: room_def)
      moreover have "budget_read k len b = (let out = take (min room (max 1 k)) (br_rest b) in
          ((out, None), b\<lparr>br_rest := drop (length out) (br_rest b),
             br_consumed := br_consumed b + int (length out)\<rparr>))"
        unfolding budget_read_def if_not_P [OF sound] if_not_P [OF False] Let_def
          read_under_def if_not_P [OF left] room_def by simp
      ultimately show ?thesis using assms sound
        by (intro data [of "min room (max 1 k)"]) (simp_all add: Let_def)
    qed
  qed
qed

lemma budget_read_step:
  assumes "budget_read k len b = ((out, err), b')"
    and "br_limit b > 0 \<Longrightarrow> br_consumed b \<le> br_limit b"
  shows "br_limit b' = br_limit b"
    and "br_limit b > 0 \<Longrightarrow> br_consumed b' \<le> br_limit b"
    and "br_consumed b' = br_consumed b + int (length out)"
    and "br_exceeded b' \<Longrightarrow>
      out = [] \<and> (br_exceeded b \<or> br_limit b > 0 \<and> br_consumed b = br_limit b \<and> br_rest b \<noteq> [])"
    and "\<not> br_exceeded b' \<Longrightarrow> \<not> br_exceeded b \<and> br_rest b = out @ br_rest b'"
proof -
  have join: "out @ drop (length out) (br_rest b) = br_rest b" if "out = take n (br_rest b)" for n
    unfolding that by (metis append_take_drop_id drop_take length_take min.commute take_take
        min.idem append_eq_conv_conj)
  have "br_limit b' = br_limit b \<and> (br_limit b > 0 \<longrightarrow> br_consumed b' \<le> br_limit b) \<and>
    br_consumed b' = br_consumed b + int (length out) \<and>
    (br_exceeded b' \<longrightarrow> out = [] \<and>
       (br_exceeded b \<or> br_limit b > 0 \<and> br_consumed b = br_limit b \<and> br_rest b \<noteq> [])) \<and>
    (\<not> br_exceeded b' \<longrightarrow> \<not> br_exceeded b \<and> br_rest b = out @ br_rest b')"
    using assms(1)
  proof (cases rule: budget_read_cases)
    case refused
    then show ?thesis using assms(2) by simp
  next
    case crossed
    then show ?thesis using assms(2) by simp
  next
    case ended
    then show ?thesis using assms(2) by simp
  next
    case (data n)
    have "length out \<le> n" using data(2) by simp
    then have "br_limit b > 0 \<longrightarrow> br_consumed b + int (length out) \<le> br_limit b"
      using data(4) by linarith
    then show ?thesis using data(1,5) join [OF data(2)] by simp
  qed
  then show "br_limit b' = br_limit b"
    and "br_limit b > 0 \<Longrightarrow> br_consumed b' \<le> br_limit b"
    and "br_consumed b' = br_consumed b + int (length out)"
    and "br_exceeded b' \<Longrightarrow>
      out = [] \<and> (br_exceeded b \<or> br_limit b > 0 \<and> br_consumed b = br_limit b \<and> br_rest b \<noteq> [])"
    and "\<not> br_exceeded b' \<Longrightarrow> \<not> br_exceeded b \<and> br_rest b = out @ br_rest b'"
    by blast+
qed

lemma budget_reads_inv:
  assumes "budget_reads rs b = (out, err, b')"
    and "br_limit b > 0" and "br_consumed b \<le> br_limit b"
  shows "br_consumed b' = br_consumed b + int (length out) \<and> br_consumed b' \<le> br_limit b \<and>
    (br_exceeded b \<longrightarrow> br_exceeded b' \<and> out = []) \<and>
    (\<not> br_exceeded b \<longrightarrow> (\<exists>more. br_rest b = out @ more \<and>
       (if br_exceeded b' then br_consumed b' = br_limit b \<and> more \<noteq> [] else more = br_rest b')))"
  using assms
proof (induction rs arbitrary: b out err)
  case Nil
  then show ?case by simp
next
  case (Cons kl rs)
  obtain k len where kl: "kl = (k, len)" by (cases kl)
  obtain o1 e1 b1 where one: "budget_read k len b = ((o1, e1), b1)" by (metis prod.collapse)
  obtain os e2 where rest: "budget_reads rs b1 = (os, e2, b')" "out = o1 @ os"
    using Cons.prems(1) one by (auto simp: kl split: prod.splits)
  note step = budget_read_step [OF one Cons.prems(3)]
  have "br_limit b1 > 0" "br_consumed b1 \<le> br_limit b1" using step(1,2) Cons.prems(2) by simp_all
  note ih = Cons.IH [OF rest(1) this]
  show ?case
  proof (cases "br_exceeded b1")
    case True
    with step(4) ih rest(2) have stuck: "o1 = []" "os = []" "out = []" "br_exceeded b'"
      and why: "br_exceeded b \<or> br_consumed b = br_limit b \<and> br_rest b \<noteq> []" by auto
    with ih step(3) Cons.prems(3) show ?thesis by auto
  next
    case False
    from step(5) [OF this] have here: "\<not> br_exceeded b" "br_rest b = o1 @ br_rest b1" by simp_all
    from ih False obtain more where "br_rest b1 = os @ more"
      "if br_exceeded b' then br_consumed b' = br_limit b1 \<and> more \<noteq> [] else more = br_rest b'"
      by blast
    then have "br_exceeded b' \<longrightarrow> br_consumed b' = br_limit b \<and> more \<noteq> []"
      "\<not> br_exceeded b' \<longrightarrow> more = br_rest b'" "br_rest b = out @ more"
      using here step(1) rest(2) by (simp_all split: if_splits)
    moreover have "br_consumed b' = br_consumed b + int (length out)" "br_consumed b' \<le> br_limit b"
      using ih step(1,3) rest(2) by simp_all
    ultimately show ?thesis using here(1) by auto
  qed
qed

text \<open>
  The byte budget never truncates silently. However a decoder reads through a
  \<open>budgetReader\<close> with a positive limit, and however the pipe chops the stream, the bytes it
  receives are a prefix of the stream no longer than the limit; \<open>exceeded\<close> is set only when
  the whole budget was delivered and the stream goes on; and while it is not set, what was
  not delivered is still there to be read.
\<close>
theorem budgetReader_prefix:
  assumes "lim > 0" and "budget_reads rs (newBudgetReader data lim) = (out, err, b)"
  shows "out = take (length out) data \<and> int (length out) \<le> lim \<and>
    br_consumed b = int (length out) \<and>
    (br_exceeded b \<longrightarrow> int (length out) = lim \<and> length data > length out) \<and>
    (\<not> br_exceeded b \<longrightarrow> br_rest b = drop (length out) data)"
  using budget_reads_inv [OF assms(2)] assms(1)
  by (auto simp: newBudgetReader_def split: if_splits)

lemma budgetReader_prefix_witness:
  "\<not> br_exceeded (snd (snd (budget_reads [(2, 8)] (newBudgetReader ''abcd'' 3)))) \<and>
   br_exceeded (snd (snd (budget_reads [(2, 8), (2, 8), (2, 8)] (newBudgetReader ''abcd'' 3)))) \<and>
   fst (budget_reads [(2, 8), (2, 8), (2, 8)] (newBudgetReader ''abcd'' 3)) = ''abc'' \<and>
   ''abc'' = take 3 ''abcd''"
  using budgetReader_prefix [of 3 "[(2, 8), (2, 8), (2, 8)]" "''abcd''"]
  by (simp add: newBudgetReader_def budget_read_def read_under_def)

section \<open>Pages of a listing\<close>

lemma split_on_not_Nil: "split_on c s \<noteq> []"
  by (induction s) (auto split: list.split)

text \<open>A listing that fits the byte budget, its lines and the decoding limit.\<close>

definition fits :: "string \<Rightarrow> scan_limits \<Rightarrow> node list \<Rightarrow> bool" where
  "fits data limits0 ns \<longleftrightarrow>
     length data \<le> nat (sl_max_bytes (scanLimitsOrDefault limits0)) \<and>
     length ns < nat (sl_max_decoded (scanLimitsOrDefault limits0)) \<and>
     snd (scan_lines data) = False \<and> ls_nodes (fst (scan_lines data)) = Inr ns"

lemma ScanLS_fits:
  assumes "fits data limits0 ns"
  shows "\<exists>r. ScanLS data limits0 (int skip) (int limit) acc = Inr r \<and>
    paged limit acc ns skip zero_ls_result
      (r\<lparr>lr_stats := (lr_stats r)\<lparr>ss_complete := False\<rparr>\<rparr>) (ss_more (lr_stats r)) \<and>
    ss_complete (lr_stats r) = (\<not> ss_more (lr_stats r))"
proof -
  define mxb where "mxb = nat (sl_max_bytes (scanLimitsOrDefault limits0))"
  define mx where "mx = nat (sl_max_decoded (scanLimitsOrDefault limits0))"
  from assms obtain ls where ls: "scan_lines data = (ls, False)" "ls_nodes ls = Inr ns"
    and len: "length data \<le> mxb" "length ns < mx"
    by (cases "scan_lines data") (auto simp: fits_def mxb_def mx_def)
  have "ss_decoded (lr_stats zero_ls_result) + length ns < mx"
    "ss_page (lr_stats zero_ls_result) = length (lr_nodes zero_ls_result)"
    "length (lr_nodes zero_ls_result) \<le> limit" "skip = 0 \<or> lr_nodes zero_ls_result = []"
    using len by (simp_all add: zero_ls_result_def zero_scan_stats_def)
  from ls_loop_spec [OF ls(2) this] obtain r' stop where
    loop: "ls_loop False mx limit acc ls skip zero_ls_result = Inr (r', stop)"
    and page: "paged limit acc ns skip zero_ls_result r' stop" by blast
  have stop: "ss_more (lr_stats r') = stop" "ss_complete (lr_stats r') = False"
    using page by (simp_all add: paged_def zero_ls_result_def zero_scan_stats_def)
  have run: "ScanLS data limits0 (int skip) (int limit) acc =
    Inr (if stop then r' else r'\<lparr>lr_stats := (lr_stats r')\<lparr>ss_complete := True\<rparr>\<rparr>)"
    using len ls(1) loop
    by (cases stop) (simp_all add: ScanLS_def Let_def mxb_def [symmetric] mx_def [symmetric])
  then show ?thesis using page stop
    by (cases stop) (auto simp: paged_def zero_ls_result_def zero_scan_stats_def)
qed

text \<open>
  C26. A page of a listing, against the reference. When the whole output of restic fits the
  byte budget and the decoding limit and every line decodes, \<open>ScanLS\<close> returns exactly the
  entries number \<open>skip\<close> to \<open>skip + limit\<close> of the accepted ones, in the order restic printed
  them. It reports more pages exactly when an accepted entry beyond the page exists, calls
  the scan complete in every other case, and then has counted all accepted entries.
\<close>
theorem ScanLS_page:
  assumes "fits data limits0 ns"
  shows "\<exists>r. ScanLS data limits0 (int skip) (int limit) acc = Inr r \<and>
    lr_nodes r = take limit (drop skip (filter acc ns)) \<and>
    ss_more (lr_stats r) = (skip + limit < length (filter acc ns)) \<and>
    ss_complete (lr_stats r) = (\<not> ss_more (lr_stats r)) \<and>
    (ss_complete (lr_stats r) \<longrightarrow> ss_accepted (lr_stats r) = length (filter acc ns)) \<and>
    \<not> ss_budget_exhausted (lr_stats r)"
proof -
  from ScanLS_fits [OF assms] obtain r where
    "ScanLS data limits0 (int skip) (int limit) acc = Inr r"
    "paged limit acc ns skip zero_ls_result
      (r\<lparr>lr_stats := (lr_stats r)\<lparr>ss_complete := False\<rparr>\<rparr>) (ss_more (lr_stats r))"
    "ss_complete (lr_stats r) = (\<not> ss_more (lr_stats r))" by blast
  then show ?thesis
    by (intro exI [of _ r]) (simp add: paged_def zero_ls_result_def zero_scan_stats_def)
qed

definition sample_limits :: scan_limits where
  "sample_limits = \<lparr>sl_max_bytes = 0, sl_max_decoded = 10\<rparr>"

lemma sample_fits: "fits sample_listing sample_limits [sample_node ''/b'', sample_node ''/a'']"
  using sample_nodes
  by (simp add: fits_def sample_limits_def scanLimitsOrDefault_def sample_lines
      sample_listing_def [THEN arg_cong [of _ _ length]])

lemma sample_node_path: "nd_path (sample_node p) = p"
  by (simp add: sample_node_def node_of_def)

theorem ScanLS_page_witness:
  "\<exists>r. ScanLS sample_listing sample_limits 0 1 (\<lambda>n. nd_path n = ''/a'') = Inr r \<and>
     lr_nodes r = [sample_node ''/a''] \<and> \<not> ss_more (lr_stats r)"
  using ScanLS_page [OF sample_fits, of 0 1 "\<lambda>n. nd_path n = ''/a''"]
  by (auto simp: sample_node_path)

text \<open>
  C28. Paging loses nothing and repeats nothing. Reading a listing that fits the budgets page
  after page, each page skipping what the pages before it showed, gives back the accepted
  entries in order, and the page at which the scan reports no more is the last one.
\<close>
theorem ScanLS_pages_cover:
  assumes "fits data limits0 ns"
  shows "concat (map (\<lambda>k. case ScanLS data limits0 (int (k * limit)) (int limit) acc of
             Inl err \<Rightarrow> [] | Inr r \<Rightarrow> lr_nodes r) [0..<pages]) =
           take (pages * limit) (filter acc ns) \<and>
    (case ScanLS data limits0 (int (pages * limit)) (int limit) acc of
       Inl err \<Rightarrow> False
     | Inr r \<Rightarrow> ss_more (lr_stats r) = (Suc pages * limit < length (filter acc ns)))"
proof -
  have "\<exists>r. ScanLS data limits0 (int (k * limit)) (int limit) acc = Inr r \<and>
    lr_nodes r = take limit (drop (k * limit) (filter acc ns)) \<and>
    ss_more (lr_stats r) = (Suc k * limit < length (filter acc ns))" for k
    using ScanLS_fits [OF assms, of "k * limit" limit acc]
    by (auto simp: paged_def zero_ls_result_def add.commute)
  then obtain r where
    "\<And>k. ScanLS data limits0 (int (k * limit)) (int limit) acc = Inr (r k)"
    "\<And>k. lr_nodes (r k) = take limit (drop (k * limit) (filter acc ns))"
    "\<And>k. ss_more (lr_stats (r k)) = (Suc k * limit < length (filter acc ns))" by metis
  then show ?thesis by (simp only: sum.case concat_pages)
qed

theorem ScanLS_pages_cover_witness:
  "concat (map (\<lambda>k. case ScanLS sample_listing sample_limits (int (k * 1)) (int 1) (\<lambda>n. True) of
     Inl err \<Rightarrow> [] | Inr r \<Rightarrow> lr_nodes r) [0..<2]) = [sample_node ''/b'', sample_node ''/a'']"
  using ScanLS_pages_cover [OF sample_fits, of 1 "\<lambda>n. True" 2] by simp

lemma ScanLS_result:
  assumes "ScanLS data limits0 skip limit acc = Inr r"
  shows "length (lr_nodes r) \<le> nat (max 0 limit) \<and>
    list_all (\<lambda>n. acc n \<and> canonical (nd_path n)) (lr_nodes r) \<and>
    ss_page (lr_stats r) = length (lr_nodes r) \<and>
    ss_decoded (lr_stats r) \<le> nat (sl_max_decoded (scanLimitsOrDefault limits0)) \<and>
    (ss_complete (lr_stats r) \<longrightarrow>
      \<not> ss_more (lr_stats r) \<and> \<not> ss_budget_exhausted (lr_stats r) \<and>
      length data \<le> nat (sl_max_bytes (scanLimitsOrDefault limits0)) \<and>
      (case ls_nodes (fst (scan_lines data)) of
         Inl err \<Rightarrow> False
       | Inr ns \<Rightarrow> lr_nodes r = drop (nat (max 0 skip)) (filter acc ns) \<and>
           ss_accepted (lr_stats r) = length (filter acc ns)))"
proof -
  define mxb where "mxb = nat (sl_max_bytes (scanLimitsOrDefault limits0))"
  define mx where "mx = nat (sl_max_decoded (scanLimitsOrDefault limits0))"
  define lim where "lim = nat (max 0 limit)"
  define sk where "sk = nat (max 0 skip)"
  obtain ls long where lines: "scan_lines (take mxb data) = (ls, long)" by fastforce
  obtain tail_cut r' stop where
    loop: "ls_loop tail_cut mx lim acc ls sk zero_ls_result = Inr (r', stop)"
    and result: "if stop then r = r' else \<not> long \<and>
      (if length data > mxb then r = r'\<lparr>lr_stats := exhausted lim (lr_stats r')\<rparr>
       else r = r'\<lparr>lr_stats := (lr_stats r')\<lparr>ss_complete := True\<rparr>\<rparr>)"
    using assms lines
    by (auto simp: ScanLS_def Let_def mxb_def [symmetric] mx_def [symmetric] lim_def [symmetric]
        sk_def [symmetric] split: sum.splits prod.splits bool.splits if_splits)
  have "ss_page (lr_stats zero_ls_result) = length (lr_nodes zero_ls_result)"
    "length (lr_nodes zero_ls_result) \<le> lim" "sk = 0 \<or> lr_nodes zero_ls_result = []"
    "ss_decoded (lr_stats zero_ls_result) \<le> mx"
    by (simp_all add: zero_ls_result_def zero_scan_stats_def)
  from ls_loop_inv [OF loop this] obtain ns where
    ns: "scanned mx lim acc ls sk zero_ls_result r' stop ns" ..
  have nodes: "lr_nodes r = take lim (drop sk (filter acc ns))" "ss_page (lr_stats r) = length (lr_nodes r)"
    "ss_decoded (lr_stats r) \<le> mx" "list_all (\<lambda>n. canonical (nd_path n)) ns"
    using result ns by (auto simp: scanned_def zero_ls_result_def exhausted_def split: if_splits)
  have "list_all (\<lambda>n. acc n \<and> canonical (nd_path n)) (lr_nodes r)"
    using nodes(1,4) by (auto simp: list_all_iff dest!: in_set_takeD in_set_dropD)
  moreover have "\<not> ss_more (lr_stats r) \<and> \<not> ss_budget_exhausted (lr_stats r) \<and>
      length data \<le> mxb \<and> ls_nodes (fst (scan_lines data)) = Inr ns \<and>
      lr_nodes r = drop sk (filter acc ns) \<and> ss_accepted (lr_stats r) = length (filter acc ns)"
    if "ss_complete (lr_stats r)"
  proof -
    have "\<not> ss_complete (lr_stats r')" using ns
      by (simp add: scanned_def zero_ls_result_def zero_scan_stats_def)
    with that result have "\<not> stop" and "length data \<le> mxb"
        "r = r'\<lparr>lr_stats := (lr_stats r')\<lparr>ss_complete := True\<rparr>\<rparr>"
      by (auto simp: exhausted_def split: if_splits)
    moreover have "\<not> ss_more (lr_stats r') \<and> \<not> ss_budget_exhausted (lr_stats r') \<and>
        ls_nodes ls = Inr ns \<and> lr_nodes r' = drop sk (filter acc ns) \<and>
        ss_accepted (lr_stats r') = length (filter acc ns)"
      using ns \<open>\<not> stop\<close> by (auto simp: scanned_def zero_ls_result_def zero_scan_stats_def)
    ultimately show ?thesis using lines by simp
  qed
  moreover have "length (lr_nodes r) \<le> lim" using nodes(1) by simp
  ultimately show ?thesis
    using nodes(2,3) unfolding mxb_def [symmetric] mx_def [symmetric] lim_def [symmetric] sk_def [symmetric]
    by simp
qed

text \<open>
  C27. What a result of \<open>ScanLS\<close> says, on any input whatever and within any budget. The page
  holds at most \<open>limit\<close> entries, all accepted and all with canonical paths, and no more
  records were decoded than allowed. A scan that calls itself complete has seen the whole
  output, within the byte budget, and reports no further page.
\<close>
theorem ScanLS_sound:
  assumes "ScanLS data limits0 skip limit acc = Inr r"
  shows "length (lr_nodes r) \<le> nat (max 0 limit) \<and>
    list_all (\<lambda>n. acc n \<and> canonical (nd_path n)) (lr_nodes r) \<and>
    ss_page (lr_stats r) = length (lr_nodes r) \<and>
    ss_decoded (lr_stats r) \<le> nat (sl_max_decoded (scanLimitsOrDefault limits0)) \<and>
    (ss_complete (lr_stats r) \<longrightarrow>
      \<not> ss_more (lr_stats r) \<and> \<not> ss_budget_exhausted (lr_stats r) \<and>
      length data \<le> nat (sl_max_bytes (scanLimitsOrDefault limits0)) \<and>
      (case ls_nodes (fst (scan_lines data)) of
         Inl err \<Rightarrow> False
       | Inr ns \<Rightarrow> lr_nodes r = drop (nat (max 0 skip)) (filter acc ns) \<and>
           ss_accepted (lr_stats r) = length (filter acc ns)))"
  by (rule ScanLS_result [OF assms])

theorem ScanLS_sound_witness:
  "\<exists>r. ScanLS [] sample_limits 0 1 (\<lambda>n. True) = Inr r \<and> ss_complete (lr_stats r) \<and> lr_nodes r = []"
proof -
  have run: "ScanLS [] sample_limits 0 1 (\<lambda>n. True) =
      Inr (zero_ls_result\<lparr>lr_stats := zero_scan_stats\<lparr>ss_complete := True\<rparr>\<rparr>)"
    by (simp add: ScanLS_def Let_def scan_lines_def sample_limits_def scanLimitsOrDefault_def
        zero_ls_result_def)
  from ScanLS_sound [OF run] run show ?thesis
    by (simp add: scan_lines_def zero_ls_result_def)
qed

end
