(* ===== verification/ScanFind.thy ===== *)
theory ScanFind
  imports Scan
begin

text \<open>
  The bounded search scan of \<open>internal/restic/scan.go\<close>, over the token interface of
  \<open>json.Decoder\<close>: groups and their matches are consumed token by token. As in the listing
  scan, \<open>RawBytes\<close> is left out. A read that fails because the byte budget is used up is the
  error \<open>Budget\<close>; it ends the scan with the page so far, every other error fails it.
\<close>

section \<open>State\<close>

record find_result =
  fr_groups :: "find_group list"
  fr_stats :: scan_stats

definition zero_find_result :: find_result where
  "zero_find_result = \<lparr>fr_groups = [], fr_stats = zero_scan_stats\<rparr>"

text \<open>
  What the loops thread: the decoder, the group being read, the statistics, what is left to
  skip, and the raw \<open>matches\<close> value of a group whose snapshot is not known yet.
\<close>

record find_state =
  fs_dec :: decoder
  fs_group :: find_group
  fs_stats :: scan_stats
  fs_skip :: nat
  fs_pending :: string

definition markFindBudget :: "scan_stats \<Rightarrow> nat \<Rightarrow> nat \<Rightarrow> scan_stats" where
  "markFindBudget st extra limit =
     st\<lparr>ss_budget_exhausted := True, ss_more := pageMayHaveMore (ss_page st + extra) limit\<rparr>"

definition appendFindGroup :: "find_result \<Rightarrow> find_group \<Rightarrow> find_result" where
  "appendFindGroup r g =
     (if fg_matches g = [] then r
      else r\<lparr>fr_groups := fr_groups r @ [g\<lparr>fg_hits := word_of_nat (length (fg_matches g))\<rparr>],
             fr_stats := (fr_stats r)\<lparr>ss_page := ss_page (fr_stats r) + length (fg_matches g)\<rparr>\<rparr>)"

definition finishFindBudget :: "find_result \<Rightarrow> nat \<Rightarrow> find_result" where
  "finishFindBudget r limit =
     r\<lparr>fr_stats := (fr_stats r)\<lparr>ss_budget_exhausted := True, ss_stopped_early := True,
         ss_more := pageMayHaveMore (ss_page (fr_stats r)) limit\<rparr>\<rparr>"

fun read_cause :: "read_error \<Rightarrow> go_error" where
  "read_cause AtEOF = PlainErr ''EOF''"
| "read_cause Budget = PlainErr ''scan byte budget exhausted''"
| "read_cause Syntax = json_error"

definition protocol :: "string \<Rightarrow> go_error" where
  "protocol msg = new_error ProtocolError msg"

text \<open>A failed read inside a group: the scan stops, or fails.\<close>

definition mark_state :: "nat \<Rightarrow> find_state \<Rightarrow> find_state" where
  "mark_state limit s =
     s\<lparr>fs_stats := markFindBudget (fs_stats s) (length (fg_matches (fs_group s))) limit\<rparr>"

definition read_failed :: "nat \<Rightarrow> string \<Rightarrow> read_error \<Rightarrow> find_state \<Rightarrow> (bool \<times> find_state) res" where
  "read_failed limit msg e s =
     (if e = Budget then Inr (True, mark_state limit s)
      else Inl (with_cause (protocol msg) (read_cause e)))"

section \<open>Matches\<close>

text \<open>What an accepted or hidden match does to the state, and whether the scan stops at it.\<close>

definition see_match ::
    "nat \<Rightarrow> (string \<Rightarrow> find_match \<Rightarrow> bool) \<Rightarrow> find_match \<Rightarrow> find_state \<Rightarrow> bool \<times> find_state" where
  "see_match limit acc m s =
     (if \<not> acc (fg_snapshot (fs_group s)) m then (False, s)
      else
        let st = (fs_stats s)\<lparr>ss_accepted := ss_accepted (fs_stats s) + 1\<rparr>; g = fs_group s in
        if fs_skip s > 0 then (False, s\<lparr>fs_stats := st, fs_skip := fs_skip s - 1\<rparr>)
        else if length (fg_matches g) < limit
          then (False, s\<lparr>fs_stats := st, fs_group := g\<lparr>fg_matches := fg_matches g @ [m]\<rparr>\<rparr>)
        else (True, s\<lparr>fs_stats := st\<lparr>ss_more := True\<rparr>\<rparr>))"

lemma see_match_dec: "see_match limit acc m s = (b, s') \<Longrightarrow> fs_dec s' = fs_dec s"
  by (auto simp: see_match_def Let_def split: if_splits)

function match_loop ::
    "nat \<Rightarrow> nat \<Rightarrow> (string \<Rightarrow> find_match \<Rightarrow> bool) \<Rightarrow> find_state \<Rightarrow> (bool \<times> find_state) res" where
  "match_loop mx limit acc s =
     (if \<not> has_more (fs_dec s) then Inr (False, s)
      else if ss_decoded (fs_stats s) \<ge> mx then Inr (True, mark_state limit s)
      else case decode (fs_dec s) of
        Inl e \<Rightarrow> read_failed limit ''invalid find match'' e s
      | Inr (v, d) \<Rightarrow>
          (case dec_match v of
             None \<Rightarrow> Inl (with_cause (protocol ''invalid find match'') json_error)
           | Some raw \<Rightarrow>
               let st = (fs_stats s)\<lparr>ss_decoded := ss_decoded (fs_stats s) + 1\<rparr> in
               (case clean_match raw of
                  Inl err \<Rightarrow> Inl err
                | Inr cleaned \<Rightarrow>
                    (case see_match limit acc (match_of raw cleaned) (s\<lparr>fs_dec := d, fs_stats := st\<rparr>) of
                       (True, s') \<Rightarrow> Inr (True, s')
                     | (False, s') \<Rightarrow> match_loop mx limit acc s'))))"
  by pat_completeness auto

termination
  by (relation "measure (\<lambda>(mx, limit, acc, s). length (dc_rest (fs_dec s)))")
    (auto dest!: see_match_dec [OF sym] decode_shorter)

declare match_loop.simps [simp del]

definition scanFindMatchesDecoder ::
    "nat \<Rightarrow> nat \<Rightarrow> (string \<Rightarrow> find_match \<Rightarrow> bool) \<Rightarrow> find_state \<Rightarrow> (bool \<times> find_state) res" where
  "scanFindMatchesDecoder mx limit acc s =
     (case next_tok (fs_dec s) of
        Inl e \<Rightarrow> read_failed limit ''invalid find matches'' e s
      | Inr (t, d) \<Rightarrow>
          if t \<noteq> Delim (CHR ''['') then Inl (protocol ''invalid find matches'')
          else case match_loop mx limit acc (s\<lparr>fs_dec := d\<rparr>) of
            Inl err \<Rightarrow> Inl err
          | Inr (True, s') \<Rightarrow> Inr (True, s')
          | Inr (False, s') \<Rightarrow>
              (case next_tok (fs_dec s') of
                 Inl e \<Rightarrow> read_failed limit ''invalid find matches'' e s'
               | Inr (_, d') \<Rightarrow> Inr (False, s'\<lparr>fs_dec := d'\<rparr>)))"

lemma match_loop_cases:
  assumes "match_loop mx limit acc s = Inr (b, s')"
  obtains (finished) "\<not> has_more (fs_dec s)" "b = False" "s' = s"
    | (budget) "b = True" "s' = mark_state limit s"
    | (match) v d raw cleaned b1 s1 where "ss_decoded (fs_stats s) < mx" "decode (fs_dec s) = Inr (v, d)"
      "clean_match raw = Inr cleaned"
      "see_match limit acc (match_of raw cleaned)
         (s\<lparr>fs_dec := d, fs_stats := (fs_stats s)\<lparr>ss_decoded := ss_decoded (fs_stats s) + 1\<rparr>\<rparr>) = (b1, s1)"
      "if b1 then b \<and> s' = s1 else match_loop mx limit acc s1 = Inr (b, s')"
proof (cases "has_more (fs_dec s) \<and> ss_decoded (fs_stats s) < mx")
  case False
  with assms show ?thesis
    by (subst (asm) match_loop.simps) (auto split: if_splits intro: finished budget)
next
  case True
  note run = assms [unfolded match_loop.simps [of mx limit acc s]]
  show ?thesis
  proof (cases "decode (fs_dec s)")
    case (Inl e)
    with run True show ?thesis by (auto simp: read_failed_def split: if_splits intro: budget)
  next
    case (Inr vd)
    obtain v d where vd: "vd = (v, d)" by (cases vd)
    obtain raw where raw: "dec_match v = Some raw" using run True Inr vd by (auto split: option.splits)
    obtain cleaned where cleaned: "clean_match raw = Inr cleaned"
      using run True Inr vd raw by (auto simp: Let_def split: sum.splits)
    obtain b1 s1 where see: "see_match limit acc (match_of raw cleaned)
         (s\<lparr>fs_dec := d, fs_stats := (fs_stats s)\<lparr>ss_decoded := ss_decoded (fs_stats s) + 1\<rparr>\<rparr>) = (b1, s1)"
      by (metis prod.collapse)
    have "if b1 then b \<and> s' = s1 else match_loop mx limit acc s1 = Inr (b, s')"
      using run True Inr vd raw cleaned see by (cases b1) (simp_all add: Let_def)
    with True Inr vd cleaned see show ?thesis by (intro match) simp_all
  qed
qed

lemma match_loop_shorter:
  "match_loop mx limit acc s = Inr (b, s') \<Longrightarrow> length (dc_rest (fs_dec s')) \<le> length (dc_rest (fs_dec s))"
proof (induction "length (dc_rest (fs_dec s))" arbitrary: s rule: less_induct)
  case less
  from less.prems show ?case
  proof (cases rule: match_loop_cases)
    case (match v d raw cleaned b1 s1)
    have "fs_dec s1 = d" using match(4) by (auto dest!: see_match_dec)
    with match(2) have shorter: "length (dc_rest (fs_dec s1)) < length (dc_rest (fs_dec s))"
      by (auto dest!: decode_shorter)
    with match(5) less.hyps [OF shorter] show ?thesis by (cases b1) auto
  qed (simp_all add: mark_state_def)
qed

lemma scanFindMatchesDecoder_shorter:
  "scanFindMatchesDecoder mx limit acc s = Inr (b, s') \<Longrightarrow>
   length (dc_rest (fs_dec s')) \<le> length (dc_rest (fs_dec s))"
  by (force simp: scanFindMatchesDecoder_def read_failed_def mark_state_def
      dest!: match_loop_shorter next_tok_shorter split: if_splits sum.splits prod.splits bool.splits)

section \<open>Groups\<close>

text \<open>The raw text of a value that was decoded.\<close>

definition raw_value :: "decoder \<Rightarrow> decoder \<Rightarrow> string" where
  "raw_value d d' =
     (case prepare d of
        Inl _ \<Rightarrow> []
      | Inr d1 \<Rightarrow> take (length (dc_rest d1) - length (dc_rest d')) (dc_rest d1))"

definition read_snapshot :: "nat \<Rightarrow> find_state \<Rightarrow> (bool \<times> find_state) res" where
  "read_snapshot limit s =
     (case decode (fs_dec s) of
        Inl e \<Rightarrow> read_failed limit ''invalid find group'' e s
      | Inr (v, d) \<Rightarrow>
          (case dec_string v [] of
             None \<Rightarrow> Inl (with_cause (protocol ''invalid find group'') json_error)
           | Some sid \<Rightarrow>
               if \<not> valid_snapshot_id sid \<or> sid = ''latest''
               then Inl (protocol ''find group has invalid snapshot id'')
               else Inr (False, s\<lparr>fs_dec := d, fs_group := (fs_group s)\<lparr>fg_snapshot := sid\<rparr>\<rparr>)))"

definition read_hits :: "nat \<Rightarrow> find_state \<Rightarrow> (bool \<times> find_state) res" where
  "read_hits limit s =
     (case decode (fs_dec s) of
        Inl e \<Rightarrow> read_failed limit ''invalid find group'' e s
      | Inr (v, d) \<Rightarrow>
          (case dec_uint64 v 0 of
             None \<Rightarrow> Inl (with_cause (protocol ''invalid find group'') json_error)
           | Some _ \<Rightarrow> Inr (False, s\<lparr>fs_dec := d\<rparr>)))"

definition read_pending :: "nat \<Rightarrow> find_state \<Rightarrow> (bool \<times> find_state) res" where
  "read_pending limit s =
     (case decode (fs_dec s) of
        Inl e \<Rightarrow> read_failed limit ''invalid find matches'' e s
      | Inr (v, d) \<Rightarrow> Inr (False, s\<lparr>fs_dec := d, fs_pending := raw_value (fs_dec s) d\<rparr>))"

definition discard :: "nat \<Rightarrow> find_state \<Rightarrow> (bool \<times> find_state) res" where
  "discard limit s =
     (case decode (fs_dec s) of
        Inl e \<Rightarrow> read_failed limit ''invalid find group'' e s
      | Inr (v, d) \<Rightarrow> Inr (False, s\<lparr>fs_dec := d\<rparr>))"

definition group_member ::
    "nat \<Rightarrow> nat \<Rightarrow> (string \<Rightarrow> find_match \<Rightarrow> bool) \<Rightarrow> string \<Rightarrow> find_state \<Rightarrow> (bool \<times> find_state) res" where
  "group_member mx limit acc key s =
     (if key = ''snapshot'' then read_snapshot limit s
      else if key = ''hits'' then read_hits limit s
      else if key = ''matches'' then
        (if fg_snapshot (fs_group s) = [] then read_pending limit s
         else scanFindMatchesDecoder mx limit acc s)
      else discard limit s)"

lemma group_member_shorter:
  "group_member mx limit acc key s = Inr (b, s') \<Longrightarrow>
   length (dc_rest (fs_dec s')) \<le> length (dc_rest (fs_dec s))"
  by (auto simp: group_member_def read_snapshot_def read_hits_def read_pending_def discard_def
      read_failed_def mark_state_def dest!: decode_shorter dest: scanFindMatchesDecoder_shorter
      split: if_splits sum.splits prod.splits option.splits)

function group_loop ::
    "nat \<Rightarrow> nat \<Rightarrow> (string \<Rightarrow> find_match \<Rightarrow> bool) \<Rightarrow> find_state \<Rightarrow> (bool \<times> find_state) res" where
  "group_loop mx limit acc s =
     (if \<not> has_more (fs_dec s) then Inr (False, s)
      else case next_tok (fs_dec s) of
        Inl e \<Rightarrow> read_failed limit ''invalid find group'' e s
      | Inr (TokString key, d) \<Rightarrow>
          (case group_member mx limit acc key (s\<lparr>fs_dec := d\<rparr>) of
             Inl err \<Rightarrow> Inl err
           | Inr (True, s') \<Rightarrow> Inr (True, s')
           | Inr (False, s') \<Rightarrow> group_loop mx limit acc s')
      | Inr (_, d) \<Rightarrow> Inl (protocol ''invalid find group''))"
  by pat_completeness auto

termination
  by (relation "measure (\<lambda>(mx, limit, acc, s). length (dc_rest (fs_dec s)))")
    (auto dest!: group_member_shorter next_tok_shorter)

declare group_loop.simps [simp del]

text \<open>
  The rest of a group after its opening brace. Matches that came before the snapshot are
  read from their raw text by a decoder of their own, outside the byte budget.
\<close>

definition group_rest ::
    "nat \<Rightarrow> nat \<Rightarrow> (string \<Rightarrow> find_match \<Rightarrow> bool) \<Rightarrow> find_state \<Rightarrow> (bool \<times> find_state) res" where
  "group_rest mx limit acc s =
     (case group_loop mx limit acc s of
        Inl err \<Rightarrow> Inl err
      | Inr (True, s1) \<Rightarrow> Inr (True, s1)
      | Inr (False, s1) \<Rightarrow>
          (case next_tok (fs_dec s1) of
             Inl e \<Rightarrow> read_failed limit ''invalid find group'' e s1
           | Inr (_, d) \<Rightarrow>
               if fg_snapshot (fs_group s1) = []
                 then Inl (protocol ''find group has invalid snapshot id'')
               else
                 let raw = trim_space (fs_pending s1) in
                 if raw = [] \<or> raw = ''null'' then Inr (False, s1\<lparr>fs_dec := d\<rparr>)
                 else case scanFindMatchesDecoder mx limit acc (s1\<lparr>fs_dec := new_decoder False raw\<rparr>) of
                   Inl err \<Rightarrow> Inl err
                 | Inr (stopped, s2) \<Rightarrow> Inr (stopped, s2\<lparr>fs_dec := d\<rparr>)))"

lemma group_loop_cases:
  assumes "group_loop mx limit acc s = Inr (b, s')"
  obtains (finished) "\<not> has_more (fs_dec s)" "b = False" "s' = s"
    | (budget) "b = True" "s' = mark_state limit s"
    | (member) key d b1 s1 where "next_tok (fs_dec s) = Inr (TokString key, d)"
      "group_member mx limit acc key (s\<lparr>fs_dec := d\<rparr>) = Inr (b1, s1)"
      "if b1 then b \<and> s' = s1 else group_loop mx limit acc s1 = Inr (b, s')"
proof (cases "has_more (fs_dec s)")
  case False
  with assms show ?thesis by (subst (asm) group_loop.simps) (auto intro: finished)
next
  case True
  note run = assms [unfolded group_loop.simps [of mx limit acc s]]
  show ?thesis
  proof (cases "next_tok (fs_dec s)")
    case (Inl e)
    with run True show ?thesis by (auto simp: read_failed_def split: if_splits intro: budget)
  next
    case (Inr td)
    obtain t d where td: "td = (t, d)" by (cases td)
    obtain key where key: "t = TokString key" using run True Inr td by (cases t) auto
    obtain b1 s1 where mem: "group_member mx limit acc key (s\<lparr>fs_dec := d\<rparr>) = Inr (b1, s1)"
      using run True Inr td key by (auto split: sum.splits)
    have "if b1 then b \<and> s' = s1 else group_loop mx limit acc s1 = Inr (b, s')"
      using run True Inr td key mem by (cases b1) simp_all
    with Inr td key mem show ?thesis by (intro member) simp_all
  qed
qed

lemma group_loop_shorter:
  "group_loop mx limit acc s = Inr (b, s') \<Longrightarrow> length (dc_rest (fs_dec s')) \<le> length (dc_rest (fs_dec s))"
proof (induction "length (dc_rest (fs_dec s))" arbitrary: s rule: less_induct)
  case less
  from less.prems show ?case
  proof (cases rule: group_loop_cases)
    case (member key d b1 s1)
    then have shorter: "length (dc_rest (fs_dec s1)) < length (dc_rest (fs_dec s))"
      by (fastforce dest: group_member_shorter next_tok_shorter)
    with member(3) less.hyps [OF shorter] show ?thesis by (cases b1) auto
  qed (simp_all add: mark_state_def)
qed

lemma group_rest_shorter:
  "group_rest mx limit acc s = Inr (b, s') \<Longrightarrow> length (dc_rest (fs_dec s')) \<le> length (dc_rest (fs_dec s))"
  by (force simp: group_rest_def read_failed_def mark_state_def Let_def
      dest!: group_loop_shorter next_tok_shorter split: if_splits sum.splits prod.splits bool.splits)

section \<open>The scan\<close>

definition stop_group :: "find_result \<Rightarrow> find_state \<Rightarrow> find_result" where
  "stop_group r s =
     (let r' = appendFindGroup (r\<lparr>fr_stats := fs_stats s\<rparr>) (fs_group s)
      in r'\<lparr>fr_stats := (fr_stats r')\<lparr>ss_stopped_early := True\<rparr>\<rparr>)"

function find_loop ::
    "nat \<Rightarrow> nat \<Rightarrow> (string \<Rightarrow> find_match \<Rightarrow> bool) \<Rightarrow> decoder \<Rightarrow> nat \<Rightarrow> find_result \<Rightarrow>
     (bool \<times> decoder \<times> find_result) res" where
  "find_loop mx limit acc d skip r =
     (if \<not> has_more d then Inr (False, d, r)
      else if ss_decoded (fr_stats r) \<ge> mx then Inr (True, d, finishFindBudget r limit)
      else case next_tok d of
        Inl e \<Rightarrow>
          if e = Budget then Inr (True, d, finishFindBudget r limit)
          else Inl (with_cause (protocol ''invalid find group'') (read_cause e))
      | Inr (t, d1) \<Rightarrow>
          if t \<noteq> Delim (CHR ''{'') then Inl (protocol ''invalid find group'')
          else
            let st = (fr_stats r)\<lparr>ss_decoded := ss_decoded (fr_stats r) + 1\<rparr> in
            (case group_rest mx limit acc
                    \<lparr>fs_dec = d1, fs_group = zero_group, fs_stats = st, fs_skip = skip, fs_pending = []\<rparr> of
               Inl err \<Rightarrow> Inl err
             | Inr (True, s) \<Rightarrow> Inr (True, fs_dec s, stop_group r s)
             | Inr (False, s) \<Rightarrow>
                 find_loop mx limit acc (fs_dec s) (fs_skip s)
                   (appendFindGroup (r\<lparr>fr_stats := fs_stats s\<rparr>) (fs_group s))))"
  by pat_completeness auto

termination
  by (relation "measure (\<lambda>(mx, limit, acc, d, skip, r). length (dc_rest d))")
    (auto dest!: group_rest_shorter [OF sym] group_rest_shorter next_tok_shorter)

declare find_loop.simps [simp del]

definition completed :: "find_result \<Rightarrow> find_result" where
  "completed r = r\<lparr>fr_stats := (fr_stats r)\<lparr>ss_complete := True\<rparr>\<rparr>"

definition ScanFind ::
    "string \<Rightarrow> scan_limits \<Rightarrow> int \<Rightarrow> int \<Rightarrow> (string \<Rightarrow> find_match \<Rightarrow> bool) \<Rightarrow> find_result res" where
  "ScanFind data limits0 skip limit0 acc =
     (let limits = scanLimitsOrDefault limits0; limit = nat (max 0 limit0);
          avail = take (nat (sl_max_bytes limits)) data;
          over = length data > nat (sl_max_bytes limits)
      in case next_tok (new_decoder over avail) of
        Inl e \<Rightarrow>
          if e = AtEOF then Inr (completed zero_find_result)
          else if e = Budget then Inr (finishFindBudget zero_find_result limit)
          else Inl (with_cause (protocol ''invalid find JSON'') (read_cause e))
      | Inr (t, d) \<Rightarrow>
          if t \<noteq> Delim (CHR ''['') then Inl (protocol ''invalid find JSON'')
          else case find_loop (nat (sl_max_decoded limits)) limit acc d (nat (max 0 skip)) zero_find_result of
            Inl err \<Rightarrow> Inl err
          | Inr (True, _, r) \<Rightarrow> Inr r
          | Inr (False, d1, r) \<Rightarrow>
              (case next_tok d1 of
                 Inl e \<Rightarrow>
                   if e = Budget then Inr (finishFindBudget r limit)
                   else Inl (with_cause (protocol ''truncated find JSON'') (read_cause e))
               | Inr (_, d2) \<Rightarrow>
                   (case next_tok d2 of
                      Inl e \<Rightarrow>
                        if e = AtEOF then Inr (completed r)
                        else Inl (with_cause (protocol ''trailing data after find JSON'') (read_cause e))
                    | Inr _ \<Rightarrow> Inl (protocol ''trailing data after find JSON''))))"

section \<open>The invariant of a scan\<close>

definition match_ok :: "(string \<Rightarrow> find_match \<Rightarrow> bool) \<Rightarrow> find_match \<Rightarrow> bool" where
  "match_ok acc m \<longleftrightarrow> canonical (fm_path m) \<and> (\<exists>sid. concrete_id sid \<and> acc sid m)"

text \<open>
  While the scan goes on, every accepted match was skipped, put on the page by an earlier
  group, or is in the group being read, and nothing is shown before everything is skipped.
  \<open>k\<close> is the number of matches to skip at the start.
\<close>

definition counted :: "nat \<Rightarrow> nat \<Rightarrow> nat \<Rightarrow> scan_stats \<Rightarrow> bool" where
  "counted k skip shown st \<longleftrightarrow>
     \<not> ss_more st \<and> \<not> ss_budget_exhausted st \<and> skip \<le> k \<and>
     ss_accepted st = (k - skip) + shown \<and> (0 < shown \<longrightarrow> skip = 0)"

definition find_inv ::
    "nat \<Rightarrow> nat \<Rightarrow> nat \<Rightarrow> (string \<Rightarrow> find_match \<Rightarrow> bool) \<Rightarrow> bool \<Rightarrow> find_state \<Rightarrow> bool" where
  "find_inv k mx limit acc stopped s \<longleftrightarrow>
     list_all (match_ok acc) (fg_matches (fs_group s)) \<and> length (fg_matches (fs_group s)) \<le> limit \<and>
     (if fg_snapshot (fs_group s) = [] then fg_matches (fs_group s) = []
      else concrete_id (fg_snapshot (fs_group s))) \<and>
     ss_decoded (fs_stats s) \<le> mx \<and> \<not> ss_complete (fs_stats s) \<and>
     (stopped \<or> counted k (fs_skip s) (ss_page (fs_stats s) + length (fg_matches (fs_group s))) (fs_stats s))"

lemma find_inv_dec [simp]: "find_inv k mx limit acc b (s\<lparr>fs_dec := d\<rparr>) = find_inv k mx limit acc b s"
  by (simp add: find_inv_def)

lemma find_inv_pending [simp]:
  "find_inv k mx limit acc b (s\<lparr>fs_pending := raw\<rparr>) = find_inv k mx limit acc b s"
  by (simp add: find_inv_def)

lemma find_inv_mark: "find_inv k mx limit acc b s \<Longrightarrow> find_inv k mx limit acc True (mark_state limit s)"
  by (simp add: find_inv_def mark_state_def markFindBudget_def)

lemma read_failed_inv:
  "read_failed limit msg e s = Inr (b, s') \<Longrightarrow> find_inv k mx limit acc False s \<Longrightarrow>
   b \<and> find_inv k mx limit acc True s' \<and> fs_group s' = fs_group s"
  by (auto simp: read_failed_def find_inv_mark split: if_splits) (simp add: mark_state_def)

lemma see_match_inv:
  assumes "see_match limit acc m s = (b, s')" and "find_inv k mx limit acc False s"
    and "canonical (fm_path m)" and "fg_snapshot (fs_group s) \<noteq> []"
  shows "find_inv k mx limit acc b s' \<and> fg_snapshot (fs_group s') = fg_snapshot (fs_group s)"
proof -
  have "acc (fg_snapshot (fs_group s)) m \<Longrightarrow> match_ok acc m"
    using assms(2-4) by (auto simp: find_inv_def match_ok_def)
  with assms show ?thesis
    by (auto simp: see_match_def find_inv_def counted_def Let_def split: if_splits)
qed

lemma clean_match_canonical: "clean_match raw = Inr cleaned \<Longrightarrow> canonical (fm_path (match_of raw cleaned))"
  by (auto simp: clean_match_def match_of_def Let_def dest: CleanPath_canonical
      split: if_splits sum.splits)

lemma match_loop_inv:
  "match_loop mx limit acc s = Inr (b, s') \<Longrightarrow> find_inv k mx limit acc False s \<Longrightarrow>
   fg_snapshot (fs_group s) \<noteq> [] \<Longrightarrow>
   find_inv k mx limit acc b s' \<and> fg_snapshot (fs_group s') = fg_snapshot (fs_group s)"
proof (induction "length (dc_rest (fs_dec s))" arbitrary: s rule: less_induct)
  case less
  from less.prems(1) show ?case
  proof (cases rule: match_loop_cases)
    case finished
    with less.prems show ?thesis by simp
  next
    case budget
    with less.prems find_inv_mark show ?thesis by (auto simp: mark_state_def)
  next
    case (match v d raw cleaned b1 s1)
    have "find_inv k mx limit acc False
        (s\<lparr>fs_dec := d, fs_stats := (fs_stats s)\<lparr>ss_decoded := ss_decoded (fs_stats s) + 1\<rparr>\<rparr>)"
      using less.prems(2) match(1) by (simp add: find_inv_def counted_def)
    from see_match_inv [OF match(4) this clean_match_canonical [OF match(3)]] less.prems(3)
    have s1: "find_inv k mx limit acc b1 s1" "fg_snapshot (fs_group s1) = fg_snapshot (fs_group s)"
      by simp_all
    have "fs_dec s1 = d" using match(4) by (auto dest!: see_match_dec)
    with match(2) have "length (dc_rest (fs_dec s1)) < length (dc_rest (fs_dec s))"
      by (auto dest!: decode_shorter)
    with less.hyps [of s1] s1 match(5) less.prems(3) show ?thesis by (cases b1) auto
  qed
qed

lemma scanFindMatchesDecoder_inv:
  assumes "scanFindMatchesDecoder mx limit acc s = Inr (b, s')" and "find_inv k mx limit acc False s"
    and "fg_snapshot (fs_group s) \<noteq> []"
  shows "find_inv k mx limit acc b s' \<and> fg_snapshot (fs_group s') = fg_snapshot (fs_group s)"
proof (cases "next_tok (fs_dec s)")
  case (Inl e)
  with assms show ?thesis by (auto simp: scanFindMatchesDecoder_def dest!: read_failed_inv)
next
  case (Inr td)
  then obtain t d b1 s1 where loop: "match_loop mx limit acc (s\<lparr>fs_dec := d\<rparr>) = Inr (b1, s1)"
    and rest: "if b1 then b \<and> s' = s1 else
      (case next_tok (fs_dec s1) of
         Inl e \<Rightarrow> read_failed limit ''invalid find matches'' e s1
       | Inr (_, d') \<Rightarrow> Inr (False, s1\<lparr>fs_dec := d'\<rparr>)) = Inr (b, s')"
    using assms(1)
    by (auto simp: scanFindMatchesDecoder_def split: prod.splits if_splits sum.splits bool.splits)
  from match_loop_inv [OF loop] assms(2,3)
  have "find_inv k mx limit acc b1 s1" "fg_snapshot (fs_group s1) = fg_snapshot (fs_group s)"
    by simp_all
  with rest show ?thesis
    by (cases b1) (auto dest!: read_failed_inv split: sum.splits prod.splits)
qed

lemma group_member_inv:
  assumes "group_member mx limit acc key s = Inr (b, s')" and "find_inv k mx limit acc False s"
  shows "find_inv k mx limit acc b s'"
proof -
  have "find_inv k mx limit acc b s'" if "read_snapshot limit s = Inr (b, s')"
    using that assms(2)
    by (auto simp: read_snapshot_def dest!: read_failed_inv split: sum.splits option.splits if_splits)
      (auto simp: find_inv_def concrete_id_def valid_snapshot_id_def)
  moreover have "find_inv k mx limit acc b s'" if "read_hits limit s = Inr (b, s')"
    using that assms(2)
    by (auto simp: read_hits_def dest!: read_failed_inv split: sum.splits option.splits)
  moreover have "find_inv k mx limit acc b s'" if "read_pending limit s = Inr (b, s')"
    using that assms(2) by (auto simp: read_pending_def dest!: read_failed_inv split: sum.splits)
  moreover have "find_inv k mx limit acc b s'" if "discard limit s = Inr (b, s')"
    using that assms(2) by (auto simp: discard_def dest!: read_failed_inv split: sum.splits)
  ultimately show ?thesis
    using assms scanFindMatchesDecoder_inv [of mx limit acc s b s' k]
    by (auto simp: group_member_def split: if_splits)
qed

lemma group_loop_inv:
  "group_loop mx limit acc s = Inr (b, s') \<Longrightarrow> find_inv k mx limit acc False s \<Longrightarrow>
   find_inv k mx limit acc b s'"
proof (induction "length (dc_rest (fs_dec s))" arbitrary: s rule: less_induct)
  case less
  from less.prems(1) show ?case
  proof (cases rule: group_loop_cases)
    case finished
    with less.prems show ?thesis by simp
  next
    case budget
    with less.prems find_inv_mark show ?thesis by simp
  next
    case (member key d b1 s1)
    have s1: "find_inv k mx limit acc b1 s1"
      using group_member_inv [OF member(2)] less.prems(2) by simp
    have "length (dc_rest (fs_dec s1)) < length (dc_rest (fs_dec s))"
      using member by (fastforce dest: group_member_shorter next_tok_shorter)
    with less.hyps [of s1] s1 member(3) show ?thesis by (cases b1) auto
  qed
qed

lemma group_rest_inv:
  assumes "group_rest mx limit acc s = Inr (b, s')" and "find_inv k mx limit acc False s"
  shows "find_inv k mx limit acc b s' \<and> (\<not> b \<longrightarrow> concrete_id (fg_snapshot (fs_group s')))"
proof -
  obtain b1 s1 where loop: "group_loop mx limit acc s = Inr (b1, s1)"
    using assms(1) by (auto simp: group_rest_def split: sum.splits)
  note s1 = group_loop_inv [OF loop assms(2)]
  show ?thesis
  proof (cases "b1 \<or> (\<exists>e. next_tok (fs_dec s1) = Inl e)")
    case True
    with assms(1) loop s1 show ?thesis
      by (cases b1) (auto simp: group_rest_def dest!: read_failed_inv)
  next
    case False
    then obtain t d where tok: "\<not> b1" "next_tok (fs_dec s1) = Inr (t, d)"
      by (cases "next_tok (fs_dec s1)") auto
    have named: "fg_snapshot (fs_group s1) \<noteq> []"
      using assms(1) loop tok by (auto simp: group_rest_def split: if_splits)
    then have "concrete_id (fg_snapshot (fs_group s1))" using s1 by (simp add: find_inv_def)
    then show ?thesis
      using assms(1) loop tok named s1
        scanFindMatchesDecoder_inv [of mx limit acc "s1\<lparr>fs_dec := new_decoder False (trim_space (fs_pending s1))\<rparr>"]
      by (auto simp: group_rest_def Let_def split: if_splits sum.splits)
  qed
qed

definition group_ok :: "nat \<Rightarrow> (string \<Rightarrow> find_match \<Rightarrow> bool) \<Rightarrow> find_group \<Rightarrow> bool" where
  "group_ok limit acc g \<longleftrightarrow>
     concrete_id (fg_snapshot g) \<and> list_all (match_ok acc) (fg_matches g) \<and>
     0 < length (fg_matches g) \<and> length (fg_matches g) \<le> limit \<and>
     fg_hits g = word_of_nat (length (fg_matches g))"

definition shown :: "find_result \<Rightarrow> nat" where
  "shown r = sum_list (map (\<lambda>g. length (fg_matches g)) (fr_groups r))"

definition result_inv ::
    "nat \<Rightarrow> nat \<Rightarrow> nat \<Rightarrow> (string \<Rightarrow> find_match \<Rightarrow> bool) \<Rightarrow> bool \<Rightarrow> nat \<Rightarrow> find_result \<Rightarrow> bool" where
  "result_inv k mx limit acc stopped skip r \<longleftrightarrow>
     list_all (group_ok limit acc) (fr_groups r) \<and> ss_page (fr_stats r) = shown r \<and>
     ss_decoded (fr_stats r) \<le> mx \<and> \<not> ss_complete (fr_stats r) \<and>
     (stopped \<or> counted k skip (shown r) (fr_stats r))"

lemma finishFindBudget_inv:
  "result_inv k mx limit acc b skip r \<Longrightarrow> result_inv k mx limit acc True skip' (finishFindBudget r limit)"
  by (simp add: result_inv_def finishFindBudget_def shown_def)

lemma appendFindGroup_inv:
  assumes "list_all (group_ok limit acc) (fr_groups r)" and "ss_page (fs_stats s) = shown r"
    and "find_inv k mx limit acc b s"
  shows "result_inv k mx limit acc b (fs_skip s)
    (appendFindGroup (r\<lparr>fr_stats := fs_stats s\<rparr>) (fs_group s))"
  using assms
  by (cases "fg_matches (fs_group s)")
    (auto simp: appendFindGroup_def result_inv_def find_inv_def group_ok_def shown_def counted_def
      split: if_splits)

lemma stop_group_inv:
  assumes "list_all (group_ok limit acc) (fr_groups r)" and "ss_page (fs_stats s) = shown r"
    and "find_inv k mx limit acc b s"
  shows "result_inv k mx limit acc True skip (stop_group r s)"
  using appendFindGroup_inv [OF assms] by (simp add: stop_group_def Let_def result_inv_def shown_def)

text \<open>No step inside a group touches the page count.\<close>

lemma read_failed_page: "read_failed limit msg e s = Inr (b, s') \<Longrightarrow> ss_page (fs_stats s') = ss_page (fs_stats s)"
  by (auto simp: read_failed_def mark_state_def markFindBudget_def split: if_splits)

lemma match_loop_page:
  "match_loop mx limit acc s = Inr (b, s') \<Longrightarrow> ss_page (fs_stats s') = ss_page (fs_stats s)"
proof (induction "length (dc_rest (fs_dec s))" arbitrary: s rule: less_induct)
  case less
  from less.prems(1) show ?case
  proof (cases rule: match_loop_cases)
    case (match v d raw cleaned b1 s1)
    have s1: "ss_page (fs_stats s1) = ss_page (fs_stats s)" "fs_dec s1 = d"
      using match(4) by (auto simp: see_match_def Let_def split: if_splits)
    with match(2) have "length (dc_rest (fs_dec s1)) < length (dc_rest (fs_dec s))"
      by (auto dest!: decode_shorter)
    with less.hyps [of s1] s1 match(5) show ?thesis by (cases b1) auto
  qed (simp_all add: mark_state_def markFindBudget_def)
qed

lemma scanFindMatchesDecoder_page:
  "scanFindMatchesDecoder mx limit acc s = Inr (b, s') \<Longrightarrow> ss_page (fs_stats s') = ss_page (fs_stats s)"
  by (auto simp: scanFindMatchesDecoder_def dest!: read_failed_page match_loop_page
      split: sum.splits prod.splits if_splits bool.splits)

lemma group_member_page:
  "group_member mx limit acc key s = Inr (b, s') \<Longrightarrow> ss_page (fs_stats s') = ss_page (fs_stats s)"
  by (auto simp: group_member_def read_snapshot_def read_hits_def read_pending_def discard_def
      dest!: read_failed_page dest: scanFindMatchesDecoder_page
      split: if_splits sum.splits prod.splits option.splits)

lemma group_loop_page:
  "group_loop mx limit acc s = Inr (b, s') \<Longrightarrow> ss_page (fs_stats s') = ss_page (fs_stats s)"
proof (induction "length (dc_rest (fs_dec s))" arbitrary: s rule: less_induct)
  case less
  from less.prems(1) show ?case
  proof (cases rule: group_loop_cases)
    case (member key d b1 s1)
    have "length (dc_rest (fs_dec s1)) < length (dc_rest (fs_dec s))"
      using member by (fastforce dest: group_member_shorter next_tok_shorter)
    with less.hyps [of s1] member(3) group_member_page [OF member(2)] show ?thesis by (cases b1) auto
  qed (simp_all add: mark_state_def markFindBudget_def)
qed

lemma group_rest_page:
  "group_rest mx limit acc s = Inr (b, s') \<Longrightarrow> ss_page (fs_stats s') = ss_page (fs_stats s)"
  by (auto simp: group_rest_def Let_def dest!: read_failed_page group_loop_page scanFindMatchesDecoder_page
      split: sum.splits prod.splits if_splits bool.splits)

lemma find_loop_inv:
  "find_loop mx limit acc d skip r = Inr (b, d', r') \<Longrightarrow> result_inv k mx limit acc False skip r \<Longrightarrow>
   \<exists>skip'. result_inv k mx limit acc b skip' r'"
proof (induction "length (dc_rest d)" arbitrary: d skip r rule: less_induct)
  case less
  note run = less.prems(1) [unfolded find_loop.simps [of mx limit acc d skip r]]
  have budget: ?case if "r' = finishFindBudget r limit" "b = True"
    using finishFindBudget_inv [OF less.prems(2)] that by blast
  show ?case
  proof (cases "has_more d \<and> ss_decoded (fr_stats r) < mx")
    case False
    with run less.prems(2) budget show ?thesis by (auto split: if_splits)
  next
    case True
    show ?thesis
    proof (cases "next_tok d")
      case (Inl e)
      with run True budget show ?thesis by (auto split: if_splits)
    next
      case (Inr td)
      obtain t d1 where td: "td = (t, d1)" by (cases td)
      define s0 where "s0 = \<lparr>fs_dec = d1, fs_group = zero_group,
        fs_stats = (fr_stats r)\<lparr>ss_decoded := ss_decoded (fr_stats r) + 1\<rparr>, fs_skip = skip, fs_pending = []\<rparr>"
      obtain b1 s1 where rest: "group_rest mx limit acc s0 = Inr (b1, s1)"
        and out: "if b1 then b \<and> r' = stop_group r s1 else
          find_loop mx limit acc (fs_dec s1) (fs_skip s1)
            (appendFindGroup (r\<lparr>fr_stats := fs_stats s1\<rparr>) (fs_group s1)) = Inr (b, d', r')"
        using run True Inr td
        by (auto simp: s0_def Let_def split: if_splits sum.splits prod.splits bool.splits)
      have "find_inv k mx limit acc False s0"
        using less.prems(2) True
        by (auto simp: s0_def find_inv_def result_inv_def zero_group_def counted_def)
      with group_rest_inv [OF rest] have s1: "find_inv k mx limit acc b1 s1" by blast
      have groups: "list_all (group_ok limit acc) (fr_groups r)" "ss_page (fs_stats s1) = shown r"
        using less.prems(2) group_rest_page [OF rest] by (simp_all add: result_inv_def s0_def)
      show ?thesis
      proof (cases b1)
        case True
        with out stop_group_inv [OF groups s1] show ?thesis by auto
      next
        case False
        have "length (dc_rest (fs_dec s1)) < length (dc_rest d)"
          using group_rest_shorter [OF rest] next_tok_shorter [OF Inr [unfolded td]] by (simp add: s0_def)
        moreover have "find_loop mx limit acc (fs_dec s1) (fs_skip s1)
            (appendFindGroup (r\<lparr>fr_stats := fs_stats s1\<rparr>) (fs_group s1)) = Inr (b, d', r')"
          using out False by simp
        moreover have "result_inv k mx limit acc False (fs_skip s1)
            (appendFindGroup (r\<lparr>fr_stats := fs_stats s1\<rparr>) (fs_group s1))"
          using appendFindGroup_inv [OF groups s1] False by simp
        ultimately show ?thesis by (rule less.hyps)
      qed
    qed
  qed
qed

section \<open>Sample outputs\<close>

definition two_groups :: string where
  "two_groups = ''[{\"snapshot\":\"aaaaaaaa\",\"matches\":[{\"path\":\"/a\"}]},{\"snapshot\":\"bbbbbbbb\",\"matches\":[{\"path\":\"/b\"}]}]''"

text \<open>One group that names two snapshots.\<close>

definition renamed_group :: string where
  "renamed_group = ''[{\"snapshot\":\"aaaaaaaa\",\"matches\":[{\"path\":\"/a\"}],\"snapshot\":\"bbbbbbbb\"}]''"

definition no_limits :: scan_limits where
  "no_limits = \<lparr>sl_max_bytes = 0, sl_max_decoded = 0\<rparr>"

definition hit :: "string \<Rightarrow> find_match" where
  "hit p = match_of (zero_match\<lparr>fm_path := p\<rparr>) p"

definition hits_of :: "string \<Rightarrow> string \<Rightarrow> find_group" where
  "hits_of sid p = \<lparr>fg_hits = 1, fg_snapshot = sid, fg_matches = [hit p]\<rparr>"

lemma clean_samples:
  "clean_match (zero_match\<lparr>fm_path := ''/a''\<rparr>) = Inr ''/a''"
  "clean_match (zero_match\<lparr>fm_path := ''/b''\<rparr>) = Inr ''/b''"
  by (simp_all add: clean_match_def CleanPath_samples)

lemma id_samples: "valid_snapshot_id ''aaaaaaaa''" "valid_snapshot_id ''bbbbbbbb''"
  by (simp_all add: valid_snapshot_id_def runes_def rune_chunks_ascii is_hex_def byte_def)

lemma trim_nothing: "trim_space [] = []"
  by (simp add: trim_space_def)

lemmas find_simps =
  next_tok.simps match_loop.simps group_loop.simps find_loop.simps peek_def has_more_def
  value_allowed_def read_value_def separator_def prepare_def decode_def advance_def
  open_delim_def close_delim_def key_or_value_def stream_def new_decoder_def
  scanFindMatchesDecoder_def group_member_def read_snapshot_def read_hits_def read_pending_def
  discard_def group_rest_def see_match_def dec_match_def match_field_def zero_find_result_def
  zero_scan_stats_def zero_group_def appendFindGroup_def completed_def trim_nothing
  clean_samples id_samples hits_of_def hit_def

lemma two_groups_run:
  "ScanFind two_groups no_limits 0 1 (\<lambda>_ _. True) = Inr
     \<lparr>fr_groups = [hits_of ''aaaaaaaa'' ''/a'', hits_of ''bbbbbbbb'' ''/b''],
      fr_stats = \<lparr>ss_decoded = 4, ss_accepted = 2, ss_page = 2, ss_complete = True, ss_more = False,
                  ss_stopped_early = False, ss_budget_exhausted = False\<rparr>\<rparr>"
  by (simp add: ScanFind_def no_limits_def scanLimitsOrDefault_def two_groups_def Let_def)
    (simp add: find_simps scan_simps dec_simps)

text \<open>A match accepted for the first snapshot of a group is reported under the second.\<close>

lemma renamed_group_run:
  "\<exists>r. ScanFind renamed_group no_limits 0 1 (\<lambda>sid _. sid = ''aaaaaaaa'') = Inr r \<and>
     fr_groups r = [hits_of ''bbbbbbbb'' ''/a'']"
  by (simp add: ScanFind_def no_limits_def scanLimitsOrDefault_def renamed_group_def Let_def)
    (simp add: find_simps scan_simps dec_simps)

text \<open>
  An output whose closing bracket is the last byte of the budget, followed by a newline, is
  neither complete nor incomplete: it fails.
\<close>

lemma budget_at_bracket:
  "fails_with (ScanFind ''[]\<newline>'' \<lparr>sl_max_bytes = 2, sl_max_decoded = 0\<rparr> 0 1 acc) ProtocolError \<and>
   (\<exists>r. ScanFind ''[]\<newline>'' \<lparr>sl_max_bytes = 3, sl_max_decoded = 0\<rparr> 0 1 acc = Inr r \<and>
      ss_complete (fr_stats r)) \<and>
   (\<exists>r. ScanFind ''[]\<newline>'' \<lparr>sl_max_bytes = 1, sl_max_decoded = 0\<rparr> 0 1 acc = Inr r \<and>
      ss_budget_exhausted (fr_stats r))"
  by (simp add: ScanFind_def scanLimitsOrDefault_def Let_def protocol_def)
    (simp add: find_simps scan_simps finishFindBudget_def protocol_def)

section \<open>Properties\<close>

lemma ScanFind_result:
  assumes "ScanFind data limits0 skip limit acc = Inr r"
  shows "list_all (\<lambda>g. concrete_id (fg_snapshot g) \<and> 0 < length (fg_matches g) \<and>
      length (fg_matches g) \<le> nat (max 0 limit) \<and>
      fg_hits g = word_of_nat (length (fg_matches g)) \<and>
      list_all (\<lambda>m. canonical (fm_path m) \<and> (\<exists>sid. concrete_id sid \<and> acc sid m)) (fg_matches g))
    (fr_groups r) \<and>
    ss_page (fr_stats r) = sum_list (map (\<lambda>g. length (fg_matches g)) (fr_groups r)) \<and>
    ss_decoded (fr_stats r) \<le> nat (sl_max_decoded (scanLimitsOrDefault limits0)) \<and>
    (ss_complete (fr_stats r) \<longrightarrow>
      \<not> ss_more (fr_stats r) \<and> \<not> ss_budget_exhausted (fr_stats r) \<and>
      ss_page (fr_stats r) = ss_accepted (fr_stats r) - nat (max 0 skip))"
proof -
  define lim where "lim = nat (max 0 limit)"
  define mx where "mx = nat (sl_max_decoded (scanLimitsOrDefault limits0))"
  define k where "k = nat (max 0 skip)"
  have start: "result_inv k mx lim acc False k zero_find_result"
    by (simp add: result_inv_def zero_find_result_def shown_def counted_def zero_scan_stats_def)
  have inner: "\<exists>skip'. result_inv k mx lim acc b skip' r'"
    if "find_loop mx lim acc d k zero_find_result = Inr (b, d', r')" for b d d' r'
    using find_loop_inv [OF that start] .
  have "\<exists>stopped skip' r'. result_inv k mx lim acc stopped skip' r' \<and>
      (r = r' \<or> \<not> stopped \<and> r = completed r')"
    using assms inner start finishFindBudget_inv [OF start]
    by (auto simp: ScanFind_def Let_def lim_def [symmetric] mx_def [symmetric] k_def [symmetric]
        intro: finishFindBudget_inv split: sum.splits prod.splits if_splits bool.splits)
       (metis inner finishFindBudget_inv)+
  then obtain stopped skip' r' where inv: "result_inv k mx lim acc stopped skip' r'"
    and r: "r = r' \<or> \<not> stopped \<and> r = completed r'" by blast
  have groups: "list_all (group_ok lim acc) (fr_groups r)" "ss_page (fr_stats r) = shown r"
    "ss_decoded (fr_stats r) \<le> mx"
    using inv r by (auto simp: result_inv_def completed_def shown_def)
  have "\<not> ss_more (fr_stats r) \<and> \<not> ss_budget_exhausted (fr_stats r) \<and>
      ss_page (fr_stats r) = ss_accepted (fr_stats r) - k" if "ss_complete (fr_stats r)"
    using inv r that by (auto simp: result_inv_def completed_def counted_def)
  with groups show ?thesis
    by (simp add: group_ok_def [abs_def] match_ok_def [abs_def] shown_def lim_def mx_def k_def
        list_all_iff)
qed

text \<open>
  C29. What a result of \<open>ScanFind\<close> says, on any output of restic and within any budget. Every
  group names a concrete snapshot and holds between one and \<open>limit\<close> matches, counted in its
  hits, all with canonical paths and all accepted; no more records were decoded than allowed
  and the page count is the number of matches shown. A scan that calls itself complete was
  not cut short, reports no further page, and has counted as accepted exactly the matches
  it skipped and the ones it shows.
\<close>
theorem ScanFind_sound:
  assumes "ScanFind data limits0 skip limit acc = Inr r"
  shows "list_all (\<lambda>g. concrete_id (fg_snapshot g) \<and> 0 < length (fg_matches g) \<and>
      length (fg_matches g) \<le> nat (max 0 limit) \<and>
      fg_hits g = word_of_nat (length (fg_matches g)) \<and>
      list_all (\<lambda>m. canonical (fm_path m) \<and> (\<exists>sid. concrete_id sid \<and> acc sid m)) (fg_matches g))
    (fr_groups r) \<and>
    ss_page (fr_stats r) = sum_list (map (\<lambda>g. length (fg_matches g)) (fr_groups r)) \<and>
    ss_decoded (fr_stats r) \<le> nat (sl_max_decoded (scanLimitsOrDefault limits0)) \<and>
    (ss_complete (fr_stats r) \<longrightarrow>
      \<not> ss_more (fr_stats r) \<and> \<not> ss_budget_exhausted (fr_stats r) \<and>
      ss_page (fr_stats r) = ss_accepted (fr_stats r) - nat (max 0 skip))"
  by (rule ScanFind_result [OF assms])

theorem ScanFind_sound_witness:
  "\<exists>r. ScanFind two_groups no_limits 0 1 (\<lambda>_ _. True) = Inr r \<and> ss_complete (fr_stats r) \<and>
     ss_page (fr_stats r) = 2 \<and> list_all (\<lambda>g. length (fg_matches g) = 1) (fr_groups r)"
  using ScanFind_sound [OF two_groups_run] two_groups_run by (simp add: hits_of_def)

text \<open>
  The limit of \<open>ScanFind\<close> bounds each group and not the page. A search over two snapshots
  with a limit of one shows a match of each, and reports no further page: the page of
  \<open>find_files\<close> grows with the number of snapshots it searches.
\<close>
theorem ScanFind_limit_per_group:
  "\<exists>r. ScanFind two_groups no_limits 0 1 (\<lambda>_ _. True) = Inr r \<and>
     ss_page (fr_stats r) = 2 \<and> ss_complete (fr_stats r) \<and> \<not> ss_more (fr_stats r)"
  by (simp add: two_groups_run)

end
