(* ===== verification/Config.thy ===== *)
theory Config
  imports Policy GoNum
begin

text \<open>
  The configuration of \<open>internal/config/config.go\<close> and \<open>secret_file_unix.go\<close>: its schema,
  the defaults, the validation that every deployed configuration has passed, and the guarded
  reading of secret files. The YAML decoder is a parameter, and so are the answers of the
  file system. Durations are in nanoseconds; paths are those of Unix.
\<close>

section \<open>Schema\<close>

record limits =
  lm_command_timeout :: int
  lm_expensive_timeout :: int
  lm_max_snapshots :: int
  lm_max_nodes :: int
  lm_max_find_results :: int
  lm_max_output_bytes :: int
  lm_max_scan_bytes :: int
  lm_max_decoded :: int
  lm_max_response_bytes :: int
  lm_per_repo :: int
  lm_global :: int
  lm_cache_ttl :: int
  lm_cache_entries :: int

record repository =
  rp_id :: string
  rp_label :: string
  rp_repository_file :: string
  rp_password_file :: string
  rp_cache_dir :: string
  rp_allowed_hosts :: "string list"
  rp_allowed_tags :: "string list"
  rp_allowed_paths :: "string list"
  rp_env_files :: "string list"

record config =
  cf_version :: int
  cf_restic_binary :: string
  cf_limits :: limits
  cf_repositories :: "repository list"

definition SchemaVersion :: int where "SchemaVersion = 1"
definition second :: int where "second = 1000000000"
definition minute :: int where "minute = 60 * second"

definition maxSecretFileBytes :: int where "maxSecretFileBytes = 4096"
definition maxRepositories :: nat where "maxRepositories = 32"
definition maxAllowlistEntries :: nat where "maxAllowlistEntries = 256"
definition maxEnvFiles :: nat where "maxEnvFiles = 16"

definition config_error :: "string \<Rightarrow> go_error" where
  "config_error msg = new_error ConfigError msg"

section \<open>Limits\<close>

definition default_to :: "int \<Rightarrow> int \<Rightarrow> int" where
  "default_to d x = (if x = 0 then d else x)"

definition applyLimitDefaults :: "limits \<Rightarrow> limits" where
  "applyLimitDefaults l =
     \<lparr>lm_command_timeout = default_to (30 * second) (lm_command_timeout l),
      lm_expensive_timeout = default_to (5 * minute) (lm_expensive_timeout l),
      lm_max_snapshots = default_to 100 (lm_max_snapshots l),
      lm_max_nodes = default_to 500 (lm_max_nodes l),
      lm_max_find_results = default_to 200 (lm_max_find_results l),
      lm_max_output_bytes = default_to (8 * 2 ^ 20) (lm_max_output_bytes l),
      lm_max_scan_bytes = default_to (16 * 2 ^ 20) (lm_max_scan_bytes l),
      lm_max_decoded = default_to 50000 (lm_max_decoded l),
      lm_max_response_bytes = default_to (2 * 2 ^ 20) (lm_max_response_bytes l),
      lm_per_repo = default_to 1 (lm_per_repo l),
      lm_global = default_to 4 (lm_global l),
      lm_cache_ttl = lm_cache_ttl l,
      lm_cache_entries =
        (if lm_cache_ttl l > 0 \<and> lm_cache_entries l = 0 then 128 else lm_cache_entries l)\<rparr>"

definition outside :: "int \<Rightarrow> int \<Rightarrow> int \<Rightarrow> bool" where
  "outside lo hi x \<longleftrightarrow> x < lo \<or> x > hi"

definition validateLimits :: "limits \<Rightarrow> unit res" where
  "validateLimits l =
     (if outside second (2 * minute) (lm_command_timeout l)
        then Inl (config_error ''limits.command_timeout out of range'')
      else if outside (10 * second) (15 * minute) (lm_expensive_timeout l)
        then Inl (config_error ''limits.expensive_command_timeout out of range'')
      else if lm_expensive_timeout l < lm_command_timeout l
        then Inl (config_error ''limits.expensive_command_timeout must be >= command_timeout'')
      else if outside 1 1000 (lm_max_snapshots l)
        then Inl (config_error ''limits.max_snapshots out of range'')
      else if outside 1 5000 (lm_max_nodes l)
        then Inl (config_error ''limits.max_nodes out of range'')
      else if outside 1 2000 (lm_max_find_results l)
        then Inl (config_error ''limits.max_find_results out of range'')
      else if outside (64 * 2 ^ 10) (32 * 2 ^ 20) (lm_max_output_bytes l)
        then Inl (config_error ''limits.max_output_bytes out of range'')
      else if outside (64 * 2 ^ 10) (64 * 2 ^ 20) (lm_max_scan_bytes l)
        then Inl (config_error ''limits.max_scan_bytes out of range'')
      else if outside 1 1000000 (lm_max_decoded l)
        then Inl (config_error ''limits.max_decoded_entries out of range'')
      else if outside (16 * 2 ^ 10) (16 * 2 ^ 20) (lm_max_response_bytes l)
        then Inl (config_error ''limits.max_response_bytes out of range'')
      else if outside 1 4 (lm_per_repo l)
        then Inl (config_error ''limits.max_concurrent_per_repo out of range'')
      else if outside 1 16 (lm_global l)
        then Inl (config_error ''limits.max_concurrent_global out of range'')
      else if lm_cache_ttl l \<noteq> 0 \<and> outside second (5 * minute) (lm_cache_ttl l)
        then Inl (config_error ''limits.metadata_cache_ttl out of range'')
      else if lm_cache_ttl l = 0 \<and> lm_cache_entries l \<noteq> 0
        then Inl (config_error ''limits.metadata_cache_max_entries requires metadata_cache_ttl'')
      else if outside 0 1024 (lm_cache_entries l)
        then Inl (config_error ''limits.metadata_cache_max_entries out of range'')
      else Inr ())"

section \<open>Repositories\<close>

definition id_char :: "char \<Rightarrow> bool" where
  "id_char c \<longleftrightarrow> byte_in 0x61 0x7A c \<or> byte_in 0x30 0x39 c \<or> c = CHR ''_'' \<or> c = CHR ''-''"

text \<open>The pattern \<open>^[a-z][a-z0-9_-]{0,63}$\<close>.\<close>

definition idPattern :: "string \<Rightarrow> bool" where
  "idPattern s =
     (case s of [] \<Rightarrow> False
      | c # cs \<Rightarrow> byte_in 0x61 0x7A c \<and> length cs \<le> 63 \<and> list_all id_char cs)"

definition is_abs :: "string \<Rightarrow> bool" where
  "is_abs p \<longleftrightarrow> prefix ''/'' p"

definition hasParentPathSegment :: "string \<Rightarrow> bool" where
  "hasParentPathSegment p \<longleftrightarrow>
     ''..'' \<in> set (filter (\<lambda>seg. seg \<noteq> []) (split_on CHR ''/'' (backslash_to_slash p)))"

definition validateSecretFilePath :: "string \<Rightarrow> string \<Rightarrow> unit res" where
  "validateSecretFilePath p field =
     (if p = [] then Inl (config_error (field @ '': path is required''))
      else if \<not> is_abs p then Inl (config_error (field @ '': path must be absolute''))
      else if hasParentPathSegment p \<or> has_control p
        then Inl (config_error (field @ '': invalid path''))
      else Inr ())"

definition indexed :: "string \<Rightarrow> string \<Rightarrow> nat \<Rightarrow> string" where
  "indexed loc list i = loc @ ''.'' @ list @ ''['' @ dec i @ '']''"

definition allowed_paths_of :: "string \<Rightarrow> string list \<Rightarrow> string list res" where
  "allowed_paths_of loc ps =
     map_res (\<lambda>(i, p). case CleanSnapshotPath p of
         Inl err \<Rightarrow> Inl (with_cause (config_error (indexed loc ''allowed_paths'' i @ '': invalid path'')) err)
       | Inr cleaned \<Rightarrow> Inr cleaned) (enumerate 0 ps)"

definition allowed_names_of :: "string \<Rightarrow> string \<Rightarrow> string \<Rightarrow> nat \<Rightarrow> string list \<Rightarrow> string list res" where
  "allowed_names_of loc list what mx hs =
     map_res (\<lambda>(i, h0). let h = trim_space h0 in
         if h = [] \<or> length h > mx \<or> has_control h
         then Inl (config_error (indexed loc list i @ '': invalid '' @ what)) else Inr h)
       (enumerate 0 hs)"

definition env_files_of :: "string \<Rightarrow> string list \<Rightarrow> string list res" where
  "env_files_of loc efs =
     map_res (\<lambda>(i, ef). case validateSecretFilePath ef (indexed loc ''env_files'' i) of
         Inl err \<Rightarrow> Inl err | Inr _ \<Rightarrow> Inr (path_clean ef)) (enumerate 0 efs)"

definition check_cache_dir :: "string \<Rightarrow> string \<Rightarrow> string res" where
  "check_cache_dir loc dir =
     (if dir = [] then Inr []
      else if \<not> is_abs dir then Inl (config_error (loc @ '': cache_dir must be absolute''))
      else if hasParentPathSegment dir \<or> has_control dir
        then Inl (config_error (loc @ '': cache_dir is invalid''))
      else Inr (path_clean dir))"

text \<open>The checks of the files and sizes, then of the lists, in the order of the source.\<close>

definition validate_files :: "string \<Rightarrow> repository \<Rightarrow> repository res" where
  "validate_files loc r =
     (if \<not> idPattern (rp_id r)
        then Inl (config_error (loc @ '': invalid id (use [a-z][a-z0-9_-]{0,63})''))
      else if rp_repository_file r = []
        then Inl (config_error (loc @ '': repository_file is required''))
      else if rp_password_file r = []
        then Inl (config_error (loc @ '': password_file is required''))
      else case validateSecretFilePath (rp_repository_file r) (loc @ ''.repository_file'') of
        Inl err \<Rightarrow> Inl err
      | Inr _ \<Rightarrow>
          (case validateSecretFilePath (rp_password_file r) (loc @ ''.password_file'') of
             Inl err \<Rightarrow> Inl err
           | Inr _ \<Rightarrow>
               if length (rp_allowed_hosts r) > maxAllowlistEntries \<or>
                  length (rp_allowed_tags r) > maxAllowlistEntries \<or>
                  length (rp_allowed_paths r) > maxAllowlistEntries
                 then Inl (config_error (loc @ '': allowlist has too many entries''))
               else if length (rp_env_files r) > maxEnvFiles
                 then Inl (config_error (loc @ '': too many env_files''))
               else case check_cache_dir loc (rp_cache_dir r) of
                 Inl err \<Rightarrow> Inl err
               | Inr dir \<Rightarrow>
                   Inr (r\<lparr>rp_repository_file := path_clean (rp_repository_file r),
                          rp_password_file := path_clean (rp_password_file r),
                          rp_cache_dir := dir\<rparr>)))"

definition validate_lists :: "string \<Rightarrow> repository \<Rightarrow> repository res" where
  "validate_lists loc r =
     (case allowed_paths_of loc (rp_allowed_paths r) of
        Inl err \<Rightarrow> Inl err
      | Inr paths \<Rightarrow>
     (case allowed_names_of loc ''allowed_hosts'' ''host'' 253 (rp_allowed_hosts r) of
        Inl err \<Rightarrow> Inl err
      | Inr hosts \<Rightarrow>
     (case allowed_names_of loc ''allowed_tags'' ''tag'' 128 (rp_allowed_tags r) of
        Inl err \<Rightarrow> Inl err
      | Inr tags \<Rightarrow>
     (case env_files_of loc (rp_env_files r) of
        Inl err \<Rightarrow> Inl err
      | Inr efs \<Rightarrow>
          if length (rp_label r) > 128 \<or> has_control (rp_label r)
            then Inl (config_error (loc @ '': invalid label''))
          else Inr (r\<lparr>rp_allowed_paths := paths, rp_allowed_hosts := hosts,
                      rp_allowed_tags := tags, rp_env_files := efs\<rparr>)))))"

definition validateRepository :: "repository \<Rightarrow> nat \<Rightarrow> repository res" where
  "validateRepository r index =
     (let loc = ''repositories['' @ dec index @ '']'' in
      case validate_files loc r of Inl err \<Rightarrow> Inl err | Inr r' \<Rightarrow> validate_lists loc r')"

fun validate_repositories :: "repository list \<Rightarrow> nat \<Rightarrow> string list \<Rightarrow> repository list res" where
  "validate_repositories [] i seen = Inr []"
| "validate_repositories (r # rs) i seen =
     (case validateRepository r i of
        Inl err \<Rightarrow> Inl err
      | Inr r' \<Rightarrow>
          if rp_id r' \<in> set seen
            then Inl (with_detail (config_error ''duplicate repository id'') (rp_id r'))
          else case validate_repositories rs (Suc i) (rp_id r' # seen) of
            Inl err \<Rightarrow> Inl err
          | Inr rs' \<Rightarrow> Inr (r' # rs'))"

definition Validate :: "config \<Rightarrow> config res" where
  "Validate c =
     (if cf_version c \<noteq> SchemaVersion
        then Inl (config_error (''unsupported config version '' @ dec_int (cf_version c) @
          '' (want '' @ dec_int SchemaVersion @ '')''))
      else
        let lim = applyLimitDefaults (cf_limits c) in
        case validateLimits lim of
          Inl err \<Rightarrow> Inl err
        | Inr _ \<Rightarrow>
            if cf_repositories c = [] then Inl (config_error ''at least one repository is required'')
            else if length (cf_repositories c) > maxRepositories
              then Inl (config_error ''too many repositories'')
            else case validate_repositories (cf_repositories c) 0 [] of
              Inl err \<Rightarrow> Inl err
            | Inr rs \<Rightarrow> Inr (c\<lparr>cf_limits := lim, cf_repositories := rs\<rparr>))"

text \<open>
  The YAML decoder: what its first \<open>Decode\<close> yields, with unknown fields refused, and what
  the second one finds.
\<close>

datatype yaml_tail = YamlEnd | YamlDocument | YamlBroken go_error

definition Parse ::
    "(string \<Rightarrow> config res) \<Rightarrow> (string \<Rightarrow> yaml_tail) \<Rightarrow> string \<Rightarrow> config res" where
  "Parse yaml_first yaml_second data =
     (case yaml_first data of
        Inl err \<Rightarrow> Inl (with_cause (config_error ''invalid YAML'') err)
      | Inr raw \<Rightarrow>
          (case yaml_second data of
             YamlDocument \<Rightarrow> Inl (config_error ''multiple YAML documents are not allowed'')
           | YamlBroken err \<Rightarrow> Inl (with_cause (config_error ''invalid trailing YAML'') err)
           | YamlEnd \<Rightarrow> Validate raw))"

section \<open>Files\<close>

text \<open>What \<open>Lstat\<close> or \<open>Stat\<close> report of a file.\<close>

record file_info =
  fi_symlink :: bool
  fi_regular :: bool
  fi_size :: int
  fi_perm :: nat

text \<open>
  The file system as the code queries it. \<open>fs_open\<close> is an open with \<open>O_NOFOLLOW\<close>: the
  state of the opened file, and what reading it yields. Between the two calls a file may
  have been replaced, so they are unrelated.
\<close>

record file_system =
  fs_lstat :: "string \<Rightarrow> file_info res"
  fs_open :: "string \<Rightarrow> (file_info res \<times> string res) res"
  fs_read :: "string \<Rightarrow> string res"

definition Load ::
    "(string \<Rightarrow> config res) \<Rightarrow> (string \<Rightarrow> yaml_tail) \<Rightarrow> file_system \<Rightarrow> string \<Rightarrow> config res" where
  "Load yaml_first yaml_second fs path =
     (if path = [] then Inl (config_error ''config path is required'')
      else let clean = path_clean path in
        case fs_lstat fs clean of
          Inl err \<Rightarrow> Inl (with_cause (config_error ''cannot read config file'') err)
        | Inr info \<Rightarrow>
            if fi_symlink info then Inl (config_error ''config path must not be a symlink'')
            else if \<not> fi_regular info then Inl (config_error ''config path must be a regular file'')
            else if fi_size info > 2 ^ 20 then Inl (config_error ''config file too large'')
            else case fs_read fs clean of
              Inl err \<Rightarrow> Inl (with_cause (config_error ''cannot read config file'') err)
            | Inr data \<Rightarrow> Parse yaml_first yaml_second data)"

definition secretFilePermissionsOK :: "nat \<Rightarrow> bool" where
  "secretFilePermissionsOK perm \<longleftrightarrow> perm mod 64 = 0"

definition readSecretFile :: "file_system \<Rightarrow> string \<Rightarrow> int \<Rightarrow> string res" where
  "readSecretFile fs path maxBytes =
     (case fs_open fs path of
        Inl err \<Rightarrow> Inl (with_cause (config_error ''cannot open secret file'') err)
      | Inr (stat, content) \<Rightarrow>
          (case stat of
             Inl err \<Rightarrow> Inl (with_cause (config_error ''cannot stat secret file'') err)
           | Inr fi \<Rightarrow>
               if \<not> fi_regular fi then Inl (config_error ''secret file must be a regular file'')
               else if fi_size fi \<le> 0 \<or> fi_size fi > maxBytes
                 then Inl (config_error ''secret file size out of bounds'')
               else if \<not> secretFilePermissionsOK (fi_perm fi)
                 then Inl (config_error ''secret file permissions must be 0600 or stricter'')
               else case content of
                 Inl err \<Rightarrow> Inl (with_cause (config_error ''cannot read secret file'') err)
               | Inr bytes \<Rightarrow>
                   let data = take (nat (maxBytes + 1)) bytes in
                   if int (length data) > maxBytes
                     then Inl (config_error ''secret file size out of bounds'')
                   else Inr data))"

definition OpenSecretFile :: "file_system \<Rightarrow> string \<Rightarrow> string res" where
  "OpenSecretFile fs path =
     (case validateSecretFilePath path ''secret'' of
        Inl err \<Rightarrow> Inl err
      | Inr _ \<Rightarrow>
          (case fs_lstat fs path of
             Inl err \<Rightarrow> Inl (with_cause (config_error ''secret file not accessible'') err)
           | Inr info \<Rightarrow>
               if fi_symlink info then Inl (config_error ''secret file must not be a symlink'')
               else if \<not> fi_regular info
                 then Inl (config_error ''secret file must be a regular file'')
               else if fi_size info \<le> 0 \<or> fi_size info > maxSecretFileBytes
                 then Inl (config_error ''secret file size out of bounds'')
               else if \<not> secretFilePermissionsOK (fi_perm info)
                 then Inl (config_error ''secret file permissions must be 0600 or stricter'')
               else readSecretFile fs path maxSecretFileBytes))"

definition ReadRepositoryLocation :: "file_system \<Rightarrow> string \<Rightarrow> string res" where
  "ReadRepositoryLocation fs path =
     (case OpenSecretFile fs path of
        Inl err \<Rightarrow> Inl err
      | Inr data \<Rightarrow>
          let loc = trim_space data in
          if loc = [] then Inl (config_error ''repository_file is empty'')
          else if length loc > 2048 then Inl (config_error ''repository location too long'')
          else if has_control loc
            then Inl (config_error ''repository location contains control characters'')
          else Inr loc)"

section \<open>What an accepted configuration guarantees\<close>

definition limits_ok :: "limits \<Rightarrow> bool" where
  "limits_ok l \<longleftrightarrow>
     second \<le> lm_command_timeout l \<and> lm_command_timeout l \<le> 2 * minute \<and>
     10 * second \<le> lm_expensive_timeout l \<and> lm_expensive_timeout l \<le> 15 * minute \<and>
     lm_command_timeout l \<le> lm_expensive_timeout l \<and>
     lm_max_snapshots l \<in> {1..1000} \<and> lm_max_nodes l \<in> {1..5000} \<and>
     lm_max_find_results l \<in> {1..2000} \<and>
     lm_max_output_bytes l \<in> {64 * 2 ^ 10..32 * 2 ^ 20} \<and>
     lm_max_scan_bytes l \<in> {64 * 2 ^ 10..64 * 2 ^ 20} \<and>
     lm_max_decoded l \<in> {1..1000000} \<and>
     lm_max_response_bytes l \<in> {16 * 2 ^ 10..16 * 2 ^ 20} \<and>
     lm_per_repo l \<in> {1..4} \<and> lm_global l \<in> {1..16} \<and>
     (if lm_cache_ttl l = 0 then lm_cache_entries l = 0
      else second \<le> lm_cache_ttl l \<and> lm_cache_ttl l \<le> 5 * minute \<and> lm_cache_entries l \<in> {0..1024})"

definition name_ok :: "nat \<Rightarrow> string \<Rightarrow> bool" where
  "name_ok mx h \<longleftrightarrow> h \<noteq> [] \<and> length h \<le> mx \<and> \<not> has_control h"

definition repository_ok :: "repository \<Rightarrow> bool" where
  "repository_ok r \<longleftrightarrow>
     idPattern (rp_id r) \<and> canonical (rp_repository_file r) \<and> canonical (rp_password_file r) \<and>
     (rp_cache_dir r = [] \<or> canonical (rp_cache_dir r)) \<and>
     list_all canonical (rp_allowed_paths r) \<and> list_all (name_ok 253) (rp_allowed_hosts r) \<and>
     list_all (name_ok 128) (rp_allowed_tags r) \<and> list_all canonical (rp_env_files r) \<and>
     length (rp_allowed_paths r) \<le> maxAllowlistEntries \<and>
     length (rp_allowed_hosts r) \<le> maxAllowlistEntries \<and>
     length (rp_allowed_tags r) \<le> maxAllowlistEntries \<and> length (rp_env_files r) \<le> maxEnvFiles \<and>
     length (rp_label r) \<le> 128 \<and> \<not> has_control (rp_label r)"

lemma validateLimits_iff: "validateLimits l = Inr () \<longleftrightarrow> limits_ok l"
  by (auto simp: validateLimits_def limits_ok_def outside_def)

lemma validateSecretFilePath_Inr:
  "validateSecretFilePath p field = Inr u \<Longrightarrow>
   prefix ''/'' p \<and> canonical (path_clean p) \<and> \<not> hasParentPathSegment p \<and> \<not> has_control p"
  by (auto simp: validateSecretFilePath_def is_abs_def path_clean_canonical split: if_splits)

lemma map_res_enumerate:
  assumes "map_res f (enumerate n xs) = Inr ys" and "\<And>i x y. f (i, x) = Inr y \<Longrightarrow> P y"
  shows "length ys = length xs \<and> list_all P ys"
  using assms
  by (auto simp: map_res_Inr list_all2_conv_all_nth list_all_length nth_enumerate_eq)

lemma allowed_paths_of_Inr:
  "allowed_paths_of loc ps = Inr cs \<Longrightarrow> length cs = length ps \<and> list_all canonical cs"
  unfolding allowed_paths_of_def
  by (erule map_res_enumerate) (auto dest: CleanSnapshotPath_canonical split: sum.splits)

lemma allowed_names_of_Inr:
  "allowed_names_of loc list what mx hs = Inr ks \<Longrightarrow>
   length ks = length hs \<and> list_all (name_ok mx) ks"
  unfolding allowed_names_of_def
  by (erule map_res_enumerate) (auto simp: Let_def name_ok_def split: if_splits)

lemma env_files_of_Inr:
  "env_files_of loc efs = Inr cs \<Longrightarrow> length cs = length efs \<and> list_all canonical cs"
  unfolding env_files_of_def
  by (erule map_res_enumerate) (auto dest: validateSecretFilePath_Inr split: sum.splits)

lemma check_cache_dir_Inr: "check_cache_dir loc dir = Inr d \<Longrightarrow> d = [] \<or> canonical d"
  by (auto simp: check_cache_dir_def is_abs_def path_clean_canonical split: if_splits)

lemma validateRepository_Inr:
  assumes "validateRepository r i = Inr r'"
  shows "repository_ok r' \<and> rp_id r' = rp_id r"
proof -
  obtain loc r1 where files: "validate_files loc r = Inr r1" and lists: "validate_lists loc r1 = Inr r'"
    using assms by (auto simp: validateRepository_def Let_def split: sum.splits)
  have "rp_id r1 = rp_id r \<and> idPattern (rp_id r1) \<and> canonical (rp_repository_file r1) \<and>
      canonical (rp_password_file r1) \<and> (rp_cache_dir r1 = [] \<or> canonical (rp_cache_dir r1)) \<and>
      length (rp_allowed_paths r1) \<le> maxAllowlistEntries \<and>
      length (rp_allowed_hosts r1) \<le> maxAllowlistEntries \<and>
      length (rp_allowed_tags r1) \<le> maxAllowlistEntries \<and> length (rp_env_files r1) \<le> maxEnvFiles"
    using files
    by (auto simp: validate_files_def not_less dest!: validateSecretFilePath_Inr check_cache_dir_Inr
        split: if_splits sum.splits)
  with lists show ?thesis
    by (auto simp: validate_lists_def repository_ok_def not_less
        dest!: allowed_paths_of_Inr allowed_names_of_Inr env_files_of_Inr
        split: sum.splits if_splits)
qed

lemma validate_repositories_Inr:
  assumes "validate_repositories rs i seen = Inr rs'"
  shows "map rp_id rs' = map rp_id rs \<and> list_all repository_ok rs' \<and>
    distinct (map rp_id rs') \<and> set (map rp_id rs') \<inter> set seen = {}"
  using assms
proof (induction rs i seen arbitrary: rs' rule: validate_repositories.induct)
  case (2 r rs i seen)
  from "2.prems" obtain r' rs1 where r': "validateRepository r i = Inr r'" "rp_id r' \<notin> set seen"
    and rs1: "validate_repositories rs (Suc i) (rp_id r' # seen) = Inr rs1" "rs' = r' # rs1"
    by (auto split: sum.splits if_splits)
  note ih = "2.IH" [OF r'(1,2) rs1(1)] and ok = validateRepository_Inr [OF r'(1)]
  have "distinct (map rp_id rs') \<and> set (map rp_id rs') \<inter> set seen = {}"
    using conjunct2 [OF conjunct2 [OF ih]] r'(2) rs1(2) by auto
  then show ?case using ih ok rs1(2) by simp
qed simp

lemma Validate_Inr:
  assumes "Validate c = Inr c'"
  shows "cf_limits c' = applyLimitDefaults (cf_limits c)" and "limits_ok (cf_limits c')"
    and "length (cf_repositories c') \<le> maxRepositories" and "cf_repositories c' \<noteq> []"
    and "list_all repository_ok (cf_repositories c')" and "distinct (map rp_id (cf_repositories c'))"
    and "map rp_id (cf_repositories c') = map rp_id (cf_repositories c)" and "cf_version c' = SchemaVersion"
proof -
  obtain rs where "validateLimits (applyLimitDefaults (cf_limits c)) = Inr ()"
    "cf_repositories c \<noteq> []" "length (cf_repositories c) \<le> maxRepositories"
    "cf_version c = SchemaVersion" and rs: "validate_repositories (cf_repositories c) 0 [] = Inr rs"
    "c' = c\<lparr>cf_limits := applyLimitDefaults (cf_limits c), cf_repositories := rs\<rparr>"
    using assms by (auto simp: Validate_def Let_def split: if_splits sum.splits)
  moreover note validate_repositories_Inr [OF rs(1)]
  moreover from this have "length rs = length (cf_repositories c)" by (metis length_map)
  ultimately show "cf_limits c' = applyLimitDefaults (cf_limits c)" and "limits_ok (cf_limits c')"
    and "length (cf_repositories c') \<le> maxRepositories" and "cf_repositories c' \<noteq> []"
    and "list_all repository_ok (cf_repositories c')" and "distinct (map rp_id (cf_repositories c'))"
    and "map rp_id (cf_repositories c') = map rp_id (cf_repositories c)" and "cf_version c' = SchemaVersion"
    by (auto simp: validateLimits_iff)
qed

section \<open>Properties\<close>

text \<open>
  C30. What holds of every configuration the server runs with. The limits are the given ones
  with zeros replaced by the defaults, and all lie in their ranges; there are 1 to 32
  repositories with distinct identifiers of the right form; the files, the cache directory
  and the allowed paths are canonical absolute paths, and the allowed hosts and tags are
  short, non-empty and free of control characters.
\<close>
theorem Parse_ok:
  assumes "Parse yaml_first yaml_second data = Inr c"
  shows "limits_ok (cf_limits c) \<and>
    (case yaml_first data of
       Inl err \<Rightarrow> False
     | Inr raw \<Rightarrow> cf_limits c = applyLimitDefaults (cf_limits raw) \<and>
         map rp_id (cf_repositories c) = map rp_id (cf_repositories raw)) \<and>
    length (cf_repositories c) \<in> {1..32} \<and> distinct (map rp_id (cf_repositories c)) \<and>
    list_all repository_ok (cf_repositories c)"
proof -
  obtain raw where raw: "yaml_first data = Inr raw" "Validate raw = Inr c"
    using assms by (auto simp: Parse_def split: sum.splits yaml_tail.splits)
  from Validate_Inr [OF raw(2)] raw(1) show ?thesis
    by (simp add: maxRepositories_def Suc_le_eq)
qed

definition sample_repository :: repository where
  "sample_repository =
     \<lparr>rp_id = ''home'', rp_label = [], rp_repository_file = ''/k/r'', rp_password_file = ''/k//p'',
      rp_cache_dir = [], rp_allowed_hosts = [], rp_allowed_tags = [], rp_allowed_paths = [],
      rp_env_files = []\<rparr>"

definition sample_config :: config where
  "sample_config =
     \<lparr>cf_version = 1, cf_restic_binary = [],
      cf_limits = \<lparr>lm_command_timeout = 0, lm_expensive_timeout = 0, lm_max_snapshots = 0,
        lm_max_nodes = 0, lm_max_find_results = 0, lm_max_output_bytes = 0, lm_max_scan_bytes = 0,
        lm_max_decoded = 0, lm_max_response_bytes = 0, lm_per_repo = 0, lm_global = 0,
        lm_cache_ttl = 0, lm_cache_entries = 0\<rparr>,
      cf_repositories = [sample_repository]\<rparr>"

lemma sample_repository_valid:
  "validateRepository sample_repository 0 = Inr (sample_repository\<lparr>rp_password_file := ''/k/p''\<rparr>)"
  by (simp add: validateRepository_def sample_repository_def validate_files_def validate_lists_def
      idPattern_def id_char_def byte_in_def byte_def validateSecretFilePath_def is_abs_def
      hasParentPathSegment_def backslash_to_slash_def has_control_ascii is_control_def
      check_cache_dir_def allowed_paths_of_def allowed_names_of_def env_files_of_def Let_def
      path_clean_def maxAllowlistEntries_def maxEnvFiles_def)

theorem Parse_ok_witness:
  "\<exists>c. Parse (\<lambda>_. Inr sample_config) (\<lambda>_. YamlEnd) [] = Inr c \<and>
     lm_command_timeout (cf_limits c) = 30 * second \<and> list_all repository_ok (cf_repositories c)"
proof -
  have "validateLimits (applyLimitDefaults (cf_limits sample_config)) = Inr ()"
    by (simp add: validateLimits_def outside_def applyLimitDefaults_def default_to_def
        sample_config_def minute_def second_def)
  then have run: "Parse (\<lambda>_. Inr sample_config) (\<lambda>_. YamlEnd) [] =
      Inr (sample_config\<lparr>cf_limits := applyLimitDefaults (cf_limits sample_config),
        cf_repositories := [sample_repository\<lparr>rp_password_file := ''/k/p''\<rparr>]\<rparr>)"
    using sample_repository_valid
    by (simp add: Parse_def Validate_def SchemaVersion_def maxRepositories_def sample_config_def)
  from Parse_ok [OF run] run show ?thesis
    by (simp add: applyLimitDefaults_def default_to_def sample_config_def)
qed

text \<open>
  C31. Which secret files are read. \<open>OpenSecretFile\<close> returns contents only of a file that was a
  regular file of 1 to 4096 bytes closed to group and others, both when its name was looked
  up (and then not a symbolic link) and when it was opened; what it returns is what that
  file held, all of it and at most 4096 bytes. Every refusal is a \<open>CONFIG_ERROR\<close>.
\<close>
theorem OpenSecretFile_guard:
  "case OpenSecretFile fs path of
     Inl err \<Rightarrow> is_code err ConfigError
   | Inr data \<Rightarrow>
       int (length data) \<le> maxSecretFileBytes \<and> prefix ''/'' path \<and> \<not> has_control path \<and>
       (\<exists>info. fs_lstat fs path = Inr info \<and> \<not> fi_symlink info \<and> fi_regular info \<and>
          0 < fi_size info \<and> fi_size info \<le> maxSecretFileBytes \<and> fi_perm info mod 64 = 0) \<and>
       (\<exists>fi. fs_open fs path = Inr (Inr fi, Inr data) \<and> fi_regular fi \<and>
          0 < fi_size fi \<and> fi_size fi \<le> maxSecretFileBytes \<and> fi_perm fi mod 64 = 0)"
proof (cases "OpenSecretFile fs path")
  case (Inl err)
  then have "is_code err ConfigError"
    by (auto simp: OpenSecretFile_def readSecretFile_def validateSecretFilePath_def config_error_def
        Let_def split: sum.splits if_splits prod.splits)
  with Inl show ?thesis by simp
next
  case (Inr data)
  then obtain info where info: "fs_lstat fs path = Inr info" "\<not> fi_symlink info" "fi_regular info"
      "0 < fi_size info" "fi_size info \<le> maxSecretFileBytes" "fi_perm info mod 64 = 0"
    and path: "prefix ''/'' path" "\<not> has_control path"
    and read: "readSecretFile fs path maxSecretFileBytes = Inr data"
    by (auto simp: OpenSecretFile_def secretFilePermissionsOK_def not_le not_less
        dest: validateSecretFilePath_Inr split: sum.splits if_splits)
  from read obtain fi bytes where fi: "fs_open fs path = Inr (Inr fi, Inr bytes)" "fi_regular fi"
      "0 < fi_size fi" "fi_size fi \<le> maxSecretFileBytes" "fi_perm fi mod 64 = 0"
    and data: "data = take (nat (maxSecretFileBytes + 1)) bytes" "int (length data) \<le> maxSecretFileBytes"
    by (auto simp: readSecretFile_def secretFilePermissionsOK_def Let_def not_le not_less
        split: sum.splits if_splits prod.splits)
  then have "data = bytes" by (auto simp: maxSecretFileBytes_def)
  with Inr info path fi data(2) show ?thesis by simp
qed

end
