(* ===== verification/Runner.thy ===== *)
theory Runner
  imports Commands Redaction
begin

text \<open>
  Running restic: \<open>internal/restic/runner.go\<close>, \<open>backend.go\<close> and \<open>fake_runner.go\<close>. A child
  process is what the operating system reports of it: whether it started, the chunks it
  wrote, how it was reaped, and whether the deadline or the caller's context ended first.
  The signals that stop a process group and the goroutine that sends them are in \<open>Supervision\<close>.
\<close>

section \<open>Requests, results, processes\<close>

record run_result =
  rr_stdout :: string
  rr_stderr :: string
  rr_exit_code :: int
  rr_duration :: int

record run_request =
  rq_argv :: "string list"
  rq_env :: "string list"
  rq_timeout :: int
  rq_max_output :: int
  rq_work_dir :: string

type_synonym run_outcome = "run_result option \<times> go_error option"

datatype reaped = Exited int | WaitFailed go_error | WaitOK

record process =
  pr_pipe :: "go_error option"
  pr_start :: "go_error option"
  pr_stdout :: "string list"
  pr_stderr :: "string list"
  pr_wait :: reaped
  pr_deadline :: bool
  pr_cancelled :: bool
  pr_duration :: int

section \<open>The capped buffer\<close>

record capped_buffer =
  cb_buf :: string
  cb_limit :: int
  cb_exceeded :: bool

definition new_capped :: "int \<Rightarrow> capped_buffer" where
  "new_capped limit = \<lparr>cb_buf = [], cb_limit = limit, cb_exceeded = False\<rparr>"

definition capped_write :: "string \<Rightarrow> capped_buffer \<Rightarrow> capped_buffer" where
  "capped_write p c =
     (let remain = cb_limit c - int (length (cb_buf c)) in
      if cb_exceeded c then c
      else if remain \<le> 0 then c\<lparr>cb_exceeded := True\<rparr>
      else if int (length p) > remain
        then c\<lparr>cb_buf := cb_buf c @ take (nat remain) p, cb_exceeded := True\<rparr>
      else c\<lparr>cb_buf := cb_buf c @ p\<rparr>)"

definition capped_writes :: "int \<Rightarrow> string list \<Rightarrow> capped_buffer" where
  "capped_writes limit ps = fold capped_write ps (new_capped limit)"

section \<open>Errors\<close>

definition MapExitCode :: "int \<Rightarrow> go_error option" where
  "MapExitCode c =
     (if c = 0 then None
      else if c = 10 then Some (new_error RepositoryUnavailable ''repository does not exist'')
      else if c = 11 then Some (new_error RepositoryLocked ''repository is locked'')
      else if c = 12 then Some (new_error AuthenticationFailed ''authentication failed'')
      else if c = 130 then Some (new_error Cancelled ''restic command cancelled'')
      else Some (new_error InternalError ''restic command failed''))"

definition secret_env_keys :: "string list" where
  "secret_env_keys =
     [''RESTIC_REPOSITORY'', ''RESTIC_PASSWORD_FILE'', ''RESTIC_CACHE_DIR'', ''AWS_ACCESS_KEY_ID'',
      ''AWS_SECRET_ACCESS_KEY'', ''AWS_SESSION_TOKEN'', ''AWS_SHARED_CREDENTIALS_FILE'',
      ''B2_ACCOUNT_ID'', ''B2_ACCOUNT_KEY'', ''RESTIC_REST_USERNAME'', ''RESTIC_REST_PASSWORD'']"

fun secret_values :: "string list \<Rightarrow> string list" where
  "secret_values [] = []"
| "secret_values (entry # env) =
     (case cut_at (CHR ''='') entry of
        None \<Rightarrow> secret_values env
      | Some (key, val) \<Rightarrow>
          if val = [] then secret_values env
          else if key \<in> set secret_env_keys then val # secret_values env
          else secret_values env)"

definition redactChildStderr :: "string \<Rightarrow> string list \<Rightarrow> string" where
  "redactChildStderr err env =
     RedactSecrets (RedactValues (SanitizeString err) (secret_values env))"

section \<open>Run and RunScan\<close>

definition refuse_argv :: "go_error \<Rightarrow> go_error" where
  "refuse_argv err = with_cause (new_error InternalError ''refusing to run disallowed argv'') err"

definition exec_failed :: "go_error \<Rightarrow> go_error" where
  "exec_failed err = with_cause (new_error InternalError ''failed to execute restic'') err"

definition output_limit :: "run_request \<Rightarrow> int" where
  "output_limit req = (if rq_max_output req \<le> 0 then 8 * 2 ^ 20 else rq_max_output req)"

definition reap :: "run_result \<Rightarrow> reaped \<Rightarrow> run_outcome" where
  "reap res w =
     (case w of
        WaitOK \<Rightarrow> (Some (res\<lparr>rr_exit_code := 0\<rparr>), None)
      | Exited c \<Rightarrow> (Some (res\<lparr>rr_exit_code := c\<rparr>), MapExitCode c)
      | WaitFailed err \<Rightarrow> (Some res, Some (exec_failed err)))"

definition exec_run :: "run_request \<Rightarrow> process \<Rightarrow> run_outcome" where
  "exec_run req p =
     (case AssertArgvAllowed (rq_argv req) of
        Inl err \<Rightarrow> (None, Some (refuse_argv err))
      | Inr _ \<Rightarrow>
          let started = pr_start p = None;
              out = capped_writes (output_limit req) (if started then pr_stdout p else []);
              err = capped_writes (output_limit req) (if started then pr_stderr p else []);
              res = \<lparr>rr_stdout = cb_buf out, rr_stderr = redactChildStderr (cb_buf err) (rq_env req),
                     rr_exit_code = 0, rr_duration = pr_duration p\<rparr>
          in if cb_exceeded out \<or> cb_exceeded err
               then (Some res, Some (new_error OutputLimitExceeded ''restic output exceeded configured limit''))
             else if pr_deadline p
               then (Some res, Some (new_error Timeout ''restic command timed out''))
             else if pr_cancelled p
               then (Some res, Some (new_error Cancelled ''request cancelled''))
             else (case pr_start p of
                     Some e \<Rightarrow> (Some res, Some (exec_failed e))
                   | None \<Rightarrow> reap res (pr_wait p)))"

text \<open>
  The consumer reads the stream, here the whole standard output, and answers whether it
  stopped early, or an error. Without a consumer the run is buffered.
\<close>

type_synonym consumer = "string \<Rightarrow> bool \<times> go_error option"

definition exec_run_scan :: "run_request \<Rightarrow> consumer option \<Rightarrow> process \<Rightarrow> run_outcome" where
  "exec_run_scan req consume p =
     (case AssertArgvAllowed (rq_argv req) of
        Inl err \<Rightarrow> (None, Some (refuse_argv err))
      | Inr _ \<Rightarrow>
     (case consume of
        None \<Rightarrow> exec_run req p
      | Some f \<Rightarrow>
     (case pr_pipe p of
        Some e \<Rightarrow> (None, Some (with_cause (new_error InternalError ''failed to create stdout pipe'') e))
      | None \<Rightarrow>
     (case pr_start p of
        Some e \<Rightarrow>
          (Some \<lparr>rr_stdout = [], rr_stderr = [], rr_exit_code = 0, rr_duration = pr_duration p\<rparr>,
           Some (exec_failed e))
      | None \<Rightarrow>
          let (stopped, consume_err) = f (concat (pr_stdout p));
              err = capped_writes (output_limit req) (pr_stderr p);
              res = \<lparr>rr_stdout = [], rr_stderr = redactChildStderr (cb_buf err) (rq_env req),
                     rr_exit_code = 0, rr_duration = pr_duration p\<rparr>
          in if cb_exceeded err
               then (Some res, Some (new_error OutputLimitExceeded ''restic stderr exceeded configured limit''))
             else if \<not> stopped \<and> pr_deadline p
               then (Some res, Some (new_error Timeout ''restic command timed out''))
             else if \<not> stopped \<and> pr_cancelled p
               then (Some res, Some (new_error Cancelled ''request cancelled''))
             else if consume_err \<noteq> None then (Some res, consume_err)
             else if stopped then (Some (res\<lparr>rr_exit_code := 0\<rparr>), None)
             else reap res (pr_wait p)))))"

section \<open>The binary\<close>

text \<open>
  The answers of the operating system: the absolute form of a path, whether a file exists
  and is a directory, and the search of \<open>PATH\<close>.
\<close>

definition resolveBinary ::
    "(string \<Rightarrow> string res) \<Rightarrow> (string \<Rightarrow> bool res) \<Rightarrow> (string \<Rightarrow> string res) \<Rightarrow> string \<Rightarrow> string res" where
  "resolveBinary abs_path stat_is_dir look_path binary0 =
     (let binary = (if binary0 = [] then ''restic'' else binary0) in
      if CHR ''/'' \<in> set binary \<or> prefix ''/'' binary then
        (case abs_path binary of
           Inl err \<Rightarrow> Inl (with_cause (new_error ResticNotFound ''cannot resolve restic binary'') err)
         | Inr full \<Rightarrow>
             (case stat_is_dir full of
                Inr False \<Rightarrow> Inr full
              | _ \<Rightarrow> Inl (new_error ResticNotFound ''restic binary not found'')))
      else
        (case look_path binary of
           Inl err \<Rightarrow> Inl (with_cause (new_error ResticNotFound ''restic binary not found in PATH'') err)
         | Inr path \<Rightarrow> Inr path))"

section \<open>The child's environment\<close>

record child_env_opts =
  ce_repository :: string
  ce_password_file :: string
  ce_cache_dir :: string
  ce_home_dir :: string
  ce_extra_env :: "string list"

definition allowed_env_keys :: "string list" where
  "allowed_env_keys =
     [''AWS_ACCESS_KEY_ID'', ''AWS_SECRET_ACCESS_KEY'', ''AWS_SESSION_TOKEN'',
      ''AWS_DEFAULT_REGION'', ''AWS_REGION'', ''B2_ACCOUNT_ID'', ''B2_ACCOUNT_KEY'',
      ''RESTIC_REST_USERNAME'', ''RESTIC_REST_PASSWORD'', ''TMPDIR'', ''TMP'', ''TEMP'']"

definition allowedEnvKey :: "string \<Rightarrow> bool" where
  "allowedEnvKey k \<longleftrightarrow> k \<in> set allowed_env_keys"

fun add_extra_env :: "string list \<Rightarrow> string set \<Rightarrow> string list \<Rightarrow> string list res" where
  "add_extra_env [] seen env = Inr env"
| "add_extra_env (kv # kvs) seen env =
     (case cut_at (CHR ''='') kv of
        None \<Rightarrow> Inl (new_error ConfigError ''invalid env entry'')
      | Some (key, val) \<Rightarrow>
          if key = [] then Inl (new_error ConfigError ''invalid env entry'')
          else if \<not> allowedEnvKey key
            then Inl (with_detail (new_error ConfigError ''env key not allowlisted'') key)
          else if key \<in> seen
            then Inl (with_detail (new_error ConfigError ''duplicate env key'') key)
          else if CHR 0x00 \<in> set val
            then Inl (with_detail (new_error ConfigError ''env value contains a null byte'') key)
          else add_extra_env kvs (insert key seen) (env @ [key @ ''='' @ val]))"

definition BuildChildEnv :: "child_env_opts \<Rightarrow> string list res" where
  "BuildChildEnv opts =
     (let home = (if ce_home_dir opts = [] then ''HOME=/var/empty'' else ''HOME='' @ ce_home_dir opts);
          base = [''PATH=/usr/bin:/bin:/usr/sbin:/sbin'', ''LANG=C'', ''LC_ALL=C'', home]
      in if ce_repository opts = [] \<or> ce_password_file opts = []
           then Inl (new_error InternalError ''repository and password_file required for child env'')
         else
           let env = base @ [''RESTIC_REPOSITORY='' @ ce_repository opts,
                             ''RESTIC_PASSWORD_FILE='' @ ce_password_file opts] @
                     (if ce_cache_dir opts = [] then [] else [''RESTIC_CACHE_DIR='' @ ce_cache_dir opts])
           in add_extra_env (ce_extra_env opts) {} env)"

fun load_env_lines :: "string list \<Rightarrow> string list res" where
  "load_env_lines [] = Inr []"
| "load_env_lines (raw # ls) =
     (let line = trim_space raw in
      if line = [] \<or> prefix ''#'' line then load_env_lines ls
      else case cut_at (CHR ''='') line of
        None \<Rightarrow> Inl (new_error ConfigError ''env file line must be KEY=VALUE'')
      | Some (key0, val) \<Rightarrow>
          let key = trim_space key0 in
          if \<not> allowedEnvKey key
            then Inl (new_error ConfigError ''env file contains non-allowlisted key'')
          else if prefix ''RESTIC_'' key \<and> key \<noteq> ''RESTIC_REST_USERNAME'' \<and> key \<noteq> ''RESTIC_REST_PASSWORD''
            then Inl (new_error ConfigError ''env file must not set RESTIC_* repository secrets'')
          else (case load_env_lines ls of
                  Inl err \<Rightarrow> Inl err
                | Inr out \<Rightarrow> Inr ((key @ ''='' @ val) # out)))"

definition LoadEnvFile :: "string \<Rightarrow> (string \<Rightarrow> string res) \<Rightarrow> string list res" where
  "LoadEnvFile path open_file =
     (case open_file path of
        Inl err \<Rightarrow> Inl err
      | Inr data \<Rightarrow> load_env_lines (split_on (CHR 0x0A) data))"

section \<open>Backends\<close>

datatype backend_kind =
    BackendLocal | BackendS3 | BackendB2 | BackendREST | BackendSFTP | BackendRclone | BackendOther

fun backend_string :: "backend_kind \<Rightarrow> string" where
  "backend_string BackendLocal = ''local''"
| "backend_string BackendS3 = ''s3''"
| "backend_string BackendB2 = ''b2''"
| "backend_string BackendREST = ''rest''"
| "backend_string BackendSFTP = ''sftp''"
| "backend_string BackendRclone = ''rclone''"
| "backend_string BackendOther = ''other''"

definition supportedBackends :: "backend_kind set" where
  "supportedBackends = {BackendLocal, BackendS3, BackendB2, BackendREST}"

text \<open>
  The scheme \<open>url.Parse\<close> finds. What it rejects after the scheme is taken as accepted: the
  kinds that could then be returned are those of a location that starts with their scheme.
\<close>

definition scheme_char :: "char \<Rightarrow> bool" where
  "scheme_char c \<longleftrightarrow> byte_in 0x61 0x7A c \<or> byte_in 0x41 0x5A c \<or> byte_in 0x30 0x39 c \<or>
     c = CHR ''+'' \<or> c = CHR ''-'' \<or> c = CHR ''.''"

definition url_scheme :: "string \<Rightarrow> string option" where
  "url_scheme s =
     (let scheme = takeWhile scheme_char s in
      if prefix (scheme @ '':'') s \<and> scheme \<noteq> [] \<and>
         (byte_in 0x61 0x7A (hd scheme) \<or> byte_in 0x41 0x5A (hd scheme))
      then Some scheme else None)"

definition ClassifyBackend :: "string \<Rightarrow> backend_kind" where
  "ClassifyBackend location =
     (let loc = trim_space location; lower = to_lower loc in
      if prefix ''sftp:'' lower then BackendSFTP
      else if prefix ''rclone:'' lower then BackendRclone
      else if prefix ''s3:'' lower then BackendS3
      else if prefix ''b2:'' lower then BackendB2
      else if prefix ''rest:'' lower then BackendREST
      else if prefix ''swift:'' lower \<or> prefix ''azure:'' lower \<or> prefix ''gs:'' lower \<or>
              prefix ''rclone:'' lower then BackendOther
      else if prefix ''/'' loc then BackendLocal
      else case url_scheme loc of
        None \<Rightarrow> BackendOther
      | Some scheme0 \<Rightarrow>
          let scheme = to_lower scheme0 in
          if scheme = ''sftp'' then BackendSFTP
          else if scheme = ''s3'' then BackendS3
          else if scheme = ''b2'' then BackendB2
          else if scheme = ''rest'' then BackendREST
          else BackendOther)"

definition EnsureSupported :: "backend_kind \<Rightarrow> unit res" where
  "EnsureSupported kind =
     (if kind \<in> supportedBackends then Inr ()
      else if kind = BackendSFTP then
        Inl (new_error UnsupportedBackend ''sftp backend is not supported in v0.1 (spawns ssh)'')
      else if kind = BackendRclone then
        Inl (new_error UnsupportedBackend ''rclone backend is not supported in v0.1 (spawns rclone)'')
      else Inl (new_error UnsupportedBackend ''backend is not supported in v0.1''))"

section \<open>The test double\<close>

record fake_runner =
  fk_calls :: "(string list \<times> string list) list"
  fk_handler :: "(run_request \<Rightarrow> run_outcome) option"
  fk_default :: "run_result option"
  fk_default_err :: "go_error option"

definition NewFakeRunner :: fake_runner where
  "NewFakeRunner = \<lparr>fk_calls = [], fk_handler = None, fk_default = None, fk_default_err = None\<rparr>"

definition fake_run :: "bool \<Rightarrow> run_request \<Rightarrow> fake_runner \<Rightarrow> run_outcome \<times> fake_runner" where
  "fake_run cancelled req f =
     (case AssertArgvAllowed (rq_argv req) of
        Inl err \<Rightarrow> ((None, Some err), f)
      | Inr _ \<Rightarrow>
          let f' = f\<lparr>fk_calls := fk_calls f @ [(rq_argv req, rq_env req)]\<rparr> in
          if cancelled then ((None, Some (PlainErr ''context canceled'')), f')
          else case fk_handler f of
            Some h \<Rightarrow> (h req, f')
          | None \<Rightarrow>
              ((case fk_default f of
                  None \<Rightarrow> Some \<lparr>rr_stdout = ''[]'', rr_stderr = [], rr_exit_code = 0, rr_duration = 1000000\<rparr>
                | Some r \<Rightarrow> Some r, fk_default_err f), f'))"

definition fake_run_scan ::
    "bool \<Rightarrow> run_request \<Rightarrow> consumer option \<Rightarrow> fake_runner \<Rightarrow> run_outcome \<times> fake_runner" where
  "fake_run_scan cancelled req consume f =
     (case fake_run cancelled req f of
        ((Some res, None), f') \<Rightarrow>
          (case consume of
             None \<Rightarrow> ((Some res, None), f')
           | Some g \<Rightarrow> ((Some res, snd (g (rr_stdout res))), f'))
      | out \<Rightarrow> out)"

definition last_call :: "fake_runner \<Rightarrow> (string list \<times> string list) option" where
  "last_call f = (if fk_calls f = [] then None else Some (last (fk_calls f)))"

definition reset_calls :: "fake_runner \<Rightarrow> fake_runner" where
  "reset_calls f = f\<lparr>fk_calls := []\<rparr>"

section \<open>The capped buffer against its contract\<close>

lemma capped_write_step:
  assumes "p \<noteq> []" and "cb_limit c > 0"
    and "cb_buf c = take (nat (cb_limit c)) s" and "cb_exceeded c = (int (length s) > cb_limit c)"
  shows "cb_limit (capped_write p c) = cb_limit c"
    and "cb_buf (capped_write p c) = take (nat (cb_limit c)) (s @ p)"
    and "cb_exceeded (capped_write p c) = (int (length (s @ p)) > cb_limit c)"
proof -
  define n where "n = nat (cb_limit c)"
  have lim: "cb_limit c = int n" using assms(2) by (simp add: n_def)
  consider (over) "length s > n" | (full) "length s = n" | (room) "length s < n" by linarith
  then have "cb_limit (capped_write p c) = cb_limit c \<and>
      cb_buf (capped_write p c) = take n (s @ p) \<and>
      cb_exceeded (capped_write p c) = (int (length (s @ p)) > cb_limit c)"
  proof cases
    case over
    with assms lim show ?thesis by (simp add: capped_write_def Let_def n_def [symmetric])
  next
    case full
    with assms lim show ?thesis by (simp add: capped_write_def Let_def n_def [symmetric])
  next
    case room
    have "nat (int n - int (length s)) = n - length s" using room by simp
    with room assms lim show ?thesis by (auto simp: capped_write_def Let_def n_def [symmetric])
  qed
  then show "cb_limit (capped_write p c) = cb_limit c"
    and "cb_buf (capped_write p c) = take (nat (cb_limit c)) (s @ p)"
    and "cb_exceeded (capped_write p c) = (int (length (s @ p)) > cb_limit c)"
    by (simp_all add: n_def)
qed

lemma capped_writes_spec:
  assumes "limit > 0" and "[] \<notin> set ps"
  shows "cb_limit (capped_writes limit ps) = limit \<and>
    cb_buf (capped_writes limit ps) = take (nat limit) (concat ps) \<and>
    cb_exceeded (capped_writes limit ps) = (int (length (concat ps)) > limit)"
  using assms(2)
proof (induction ps rule: rev_induct)
  case Nil
  with assms(1) show ?case by (simp add: capped_writes_def new_capped_def)
next
  case (snoc p ps)
  then have ih: "cb_limit (capped_writes limit ps) = limit"
    "cb_buf (capped_writes limit ps) = take (nat limit) (concat ps)"
    "cb_exceeded (capped_writes limit ps) = (int (length (concat ps)) > limit)" and p: "p \<noteq> []" by auto
  have "capped_writes limit (ps @ [p]) = capped_write p (capped_writes limit ps)"
    by (simp add: capped_writes_def)
  with capped_write_step [OF p, of "capped_writes limit ps" "concat ps"] ih assms(1)
  show ?case by simp
qed

lemma output_limit_pos: "output_limit req > 0"
  by (simp add: output_limit_def)

lemma MapExitCode_None: "MapExitCode c = None \<longleftrightarrow> c = 0"
  by (simp add: MapExitCode_def)

lemma reap_None: "snd (reap res w) = None \<longleftrightarrow> w \<in> {WaitOK, Exited 0}"
  by (cases w) (auto simp: reap_def MapExitCode_None)

section \<open>The sealed environment\<close>

definition env_key :: "string \<Rightarrow> string" where
  "env_key kv = takeWhile (\<lambda>c. c \<noteq> CHR ''='') kv"

lemma env_key_cut: "cut_at (CHR ''='') kv = Some (k, v) \<Longrightarrow> env_key kv = k \<and> kv = k @ ''='' @ v"
proof -
  assume "cut_at (CHR ''='') kv = Some (k, v)"
  then have "kv = k @ CHR ''='' # v" "CHR ''='' \<notin> set k" by (auto dest!: cut_at_Some)
  moreover from this(2) have "takeWhile (\<lambda>c. c \<noteq> CHR ''='') (k @ CHR ''='' # v) = k"
    by (subst takeWhile_append2) auto
  ultimately show ?thesis by (simp add: env_key_def)
qed

lemma add_extra_env_Inr:
  assumes "add_extra_env kvs seen env = Inr out"
  shows "out = env @ kvs \<and> distinct (map env_key kvs) \<and> set (map env_key kvs) \<inter> seen = {} \<and>
    list_all allowedEnvKey (map env_key kvs)"
  using assms
proof (induction kvs seen env arbitrary: out rule: add_extra_env.induct)
  case (2 kv kvs seen env)
  from "2.prems" obtain key val where cut: "cut_at (CHR ''='') kv = Some (key, val)"
    and ok: "key \<noteq> []" "allowedEnvKey key" "key \<notin> seen" "CHR 0x00 \<notin> set val"
    and rest: "add_extra_env kvs (insert key seen) (env @ [key @ ''='' @ val]) = Inr out"
    by (auto split: option.splits if_splits)
  note kv = env_key_cut [OF cut]
  from "2.IH" [OF cut refl ok(1) _ ok(3,4) rest] ok(2)
  have "out = (env @ [key @ ''='' @ val]) @ kvs" "distinct (map env_key kvs)"
    "set (map env_key kvs) \<inter> insert key seen = {}" "list_all allowedEnvKey (map env_key kvs)" by simp_all
  with kv ok show ?case by auto
qed simp

definition fixed_env_keys :: "string list" where
  "fixed_env_keys =
     [''PATH'', ''LANG'', ''LC_ALL'', ''HOME'', ''RESTIC_REPOSITORY'', ''RESTIC_PASSWORD_FILE'',
      ''RESTIC_CACHE_DIR'']"

lemma fixed_not_allowed: "k \<in> set fixed_env_keys \<Longrightarrow> \<not> allowedEnvKey k"
  by (auto simp: fixed_env_keys_def allowedEnvKey_def allowed_env_keys_def)

lemma sealed_bindings:
  assumes "BuildChildEnv opts = Inr env"
  shows "distinct (map env_key env) \<and>
    (''RESTIC_REPOSITORY='' @ ce_repository opts) \<in> set env \<and>
    (''RESTIC_PASSWORD_FILE='' @ ce_password_file opts) \<in> set env \<and>
    list_all (\<lambda>kv. env_key kv \<in> set fixed_env_keys \<or> allowedEnvKey (env_key kv) \<and> kv \<in> set (ce_extra_env opts))
      env"
proof -
  define base where "base =
    [''PATH=/usr/bin:/bin:/usr/sbin:/sbin'', ''LANG=C'', ''LC_ALL=C'',
     if ce_home_dir opts = [] then ''HOME=/var/empty'' else ''HOME='' @ ce_home_dir opts,
     ''RESTIC_REPOSITORY='' @ ce_repository opts, ''RESTIC_PASSWORD_FILE='' @ ce_password_file opts] @
    (if ce_cache_dir opts = [] then [] else [''RESTIC_CACHE_DIR='' @ ce_cache_dir opts])"
  have "add_extra_env (ce_extra_env opts) {} base = Inr env"
    using assms by (auto simp: BuildChildEnv_def Let_def base_def split: if_splits)
  note extra = add_extra_env_Inr [OF this]
  have keys: "set (map env_key base) \<subseteq> set fixed_env_keys" "distinct (map env_key base)"
    by (simp_all add: base_def env_key_def fixed_env_keys_def)
  have allowed: "list_all allowedEnvKey (map env_key (ce_extra_env opts))" using extra by simp
  then have apart: "set (map env_key base) \<inter> set (map env_key (ce_extra_env opts)) = {}"
    using keys(1) fixed_not_allowed by (fastforce simp: list_all_iff)
  from extra keys(2) apart have "distinct (map env_key env)" by simp
  moreover have "list_all (\<lambda>kv. env_key kv \<in> set fixed_env_keys \<or>
      allowedEnvKey (env_key kv) \<and> kv \<in> set (ce_extra_env opts)) env"
    using extra keys(1) allowed by (auto simp: list_all_iff)
  ultimately show ?thesis using extra by (simp add: base_def)
qed

section \<open>Properties\<close>

text \<open>The child ran to a successful end, undisturbed and within its cap on standard error.\<close>

definition clean_exit :: "run_request \<Rightarrow> process \<Rightarrow> bool" where
  "clean_exit req p \<longleftrightarrow>
     pr_start p = None \<and> pr_wait p \<in> {WaitOK, Exited 0} \<and> \<not> pr_deadline p \<and> \<not> pr_cancelled p \<and>
     int (length (concat (pr_stderr p))) \<le> output_limit req"


definition sample_process :: process where
  "sample_process =
     \<lparr>pr_pipe = None, pr_start = None, pr_stdout = [''{'', ''}''], pr_stderr = [], pr_wait = WaitOK,
      pr_deadline = False, pr_cancelled = False, pr_duration = 5\<rparr>"

definition version_request :: run_request where
  "version_request =
     \<lparr>rq_argv = BuildVersionArgv, rq_env = [], rq_timeout = 0, rq_max_output = 0, rq_work_dir = []\<rparr>"

lemma version_allowed: "AssertArgvAllowed BuildVersionArgv = Inr ()"
  using fixed_flags_mem
  unfolding BuildVersionArgv_def by (intro AssertArgvAllowed_plain) (auto simp: allowed_subcommands_def)


text \<open>
  C8. The environment of a child is sealed. An environment that is built has one binding per
  name; it binds the repository and the password file to the configured ones, and every
  other name is one of the fixed ones or on the list of allowed credential names, so that no
  extra entry can replace a fixed binding or set another \<open>RESTIC_*\<close> option.
\<close>
theorem BuildChildEnv_sealed:
  assumes "BuildChildEnv opts = Inr env"
  shows "distinct (map env_key env) \<and>
    (''RESTIC_REPOSITORY='' @ ce_repository opts) \<in> set env \<and>
    (''RESTIC_PASSWORD_FILE='' @ ce_password_file opts) \<in> set env \<and>
    list_all (\<lambda>kv. env_key kv \<in> set fixed_env_keys \<or> allowedEnvKey (env_key kv) \<and> kv \<in> set (ce_extra_env opts))
      env"
  using sealed_bindings [OF assms] .

definition sample_opts :: child_env_opts where
  "sample_opts =
     \<lparr>ce_repository = ''s3:x'', ce_password_file = ''/k/p'', ce_cache_dir = [], ce_home_dir = [],
      ce_extra_env = [''AWS_REGION=eu'']\<rparr>"

theorem BuildChildEnv_sealed_witness:
  "\<exists>env. BuildChildEnv sample_opts = Inr env \<and> distinct (map env_key env) \<and> ''AWS_REGION=eu'' \<in> set env"
proof -
  have "\<exists>env. BuildChildEnv sample_opts = Inr env \<and> ''AWS_REGION=eu'' \<in> set env"
    by (simp add: BuildChildEnv_def sample_opts_def Let_def allowedEnvKey_def allowed_env_keys_def)
  then show ?thesis using BuildChildEnv_sealed by blast
qed

text \<open>
  Which repository locations are served. The backend of a location is supported exactly
  when, white space aside, it names the S3, B2 or REST backend in any case, or is an absolute
  path; every other location is refused as \<open>UNSUPPORTED_BACKEND\<close>.
\<close>
theorem EnsureSupported_iff:
  "let loc = trim_space location; r = EnsureSupported (ClassifyBackend location) in
   (r = Inr ()) =
     (prefix ''/'' loc \<or> prefix ''s3:'' (to_lower loc) \<or> prefix ''b2:'' (to_lower loc) \<or>
      prefix ''rest:'' (to_lower loc)) \<and>
   (r = Inr () \<or> fails_with r UnsupportedBackend)"
proof -
  define loc where "loc = trim_space location"
  have scheme: "prefix (to_lower scheme @ '':'') (to_lower loc)" if "url_scheme loc = Some scheme" for scheme
  proof -
    from that obtain rest where "loc = scheme @ '':'' @ rest"
      by (auto simp: url_scheme_def Let_def prefix_def split: if_splits)
    then show ?thesis by (simp add: to_lower_def lower_char_def byte_in_def byte_def)
  qed
  have slash: "prefix ''/'' loc \<Longrightarrow> prefix ''/'' (to_lower loc)"
    by (auto simp: prefix_def to_lower_def lower_char_def byte_in_def byte_def)
  define l where "l = to_lower loc"
  have apart: "prefix ''sftp:'' l \<or> prefix ''rclone:'' l \<or> prefix ''swift:'' l \<or> prefix ''azure:'' l \<or>
      prefix ''gs:'' l \<Longrightarrow>
    \<not> prefix ''/'' l \<and> \<not> prefix ''s3:'' l \<and> \<not> prefix ''b2:'' l \<and> \<not> prefix ''rest:'' l"
    by (elim disjE) (auto simp: prefix_def)
  define served where "served \<longleftrightarrow>
    prefix ''/'' loc \<or> prefix ''s3:'' l \<or> prefix ''b2:'' l \<or> prefix ''rest:'' l"
  have "(ClassifyBackend location \<in> supportedBackends) = served"
  proof (cases "prefix ''sftp:'' l \<or> prefix ''rclone:'' l \<or> prefix ''swift:'' l \<or> prefix ''azure:'' l \<or>
      prefix ''gs:'' l")
    case True
    with apart slash have "\<not> served" by (auto simp: served_def l_def)
    moreover have "ClassifyBackend location \<in> {BackendSFTP, BackendRclone, BackendOther}"
      using True apart [OF True]
      by (elim disjE) (simp_all add: ClassifyBackend_def Let_def loc_def [symmetric] l_def [symmetric])
    ultimately show ?thesis by (auto simp: supportedBackends_def)
  next
    case False
    have "ClassifyBackend location = BackendOther" if "\<not> served"
    proof (cases "url_scheme loc")
      case None
      with that False show ?thesis
        by (simp add: ClassifyBackend_def Let_def loc_def [symmetric] l_def [symmetric] served_def)
    next
      case (Some sch)
      with scheme [OF Some] that False
      have "to_lower sch \<noteq> ''sftp'' \<and> to_lower sch \<noteq> ''s3'' \<and> to_lower sch \<noteq> ''b2'' \<and> to_lower sch \<noteq> ''rest''"
        by (auto simp: l_def [symmetric] served_def)
      with that False Some show ?thesis
        by (simp add: ClassifyBackend_def Let_def loc_def [symmetric] l_def [symmetric] served_def)
    qed
    moreover have "ClassifyBackend location \<in> supportedBackends" if served
      using that False
      by (auto simp: ClassifyBackend_def Let_def loc_def [symmetric] l_def [symmetric] served_def
          supportedBackends_def)
    ultimately show ?thesis by (cases served) (auto simp: supportedBackends_def)
  qed
  moreover have "EnsureSupported k = Inr () \<longleftrightarrow> k \<in> supportedBackends"
    "EnsureSupported k = Inr () \<or> fails_with (EnsureSupported k) UnsupportedBackend" for k
    by (auto simp: EnsureSupported_def)
  ultimately show ?thesis unfolding Let_def loc_def [symmetric] l_def [symmetric] served_def by blast
qed

end
