(* ===== verification/Registry.thy ===== *)
theory Registry
  imports Config Runner "HOL-Library.AList"
begin

text \<open>
  The sealed registry of \<open>internal/repositories/registry.go\<close> and the audit trail of
  \<open>internal/audit/audit.go\<close>. A buffered channel that serves as a semaphore is the number of
  slots in use; a \<open>select\<close> between a free slot and a cancelled context may take either
  branch, so which one it took is an argument. Writing the audit line is left out: the log
  is the list of its events.
\<close>

section \<open>Audit\<close>

record event =
  ev_time :: int
  ev_action :: string
  ev_repository :: string
  ev_tool :: string
  ev_cost :: string
  ev_status :: string
  ev_error_code :: string
  ev_duration_ms :: int
  ev_message :: string

definition no_event :: event where
  "no_event =
     \<lparr>ev_time = 0, ev_action = [], ev_repository = [], ev_tool = [], ev_cost = [], ev_status = [],
      ev_error_code = [], ev_duration_ms = 0, ev_message = []\<rparr>"

type_synonym log = "event list option"

definition clean_event :: "int \<Rightarrow> event \<Rightarrow> event" where
  "clean_event now ev =
     ev\<lparr>ev_time := now, ev_action := Clip (SanitizeString (ev_action ev)) 64,
        ev_repository := Clip (SanitizeAndRedact (ev_repository ev)) 128,
        ev_tool := Clip (SanitizeString (ev_tool ev)) 64,
        ev_cost := Clip (SanitizeString (ev_cost ev)) 32,
        ev_status := Clip (SanitizeString (ev_status ev)) 32,
        ev_error_code := Clip (SanitizeString (ev_error_code ev)) 64,
        ev_message := Clip (SanitizeAndRedact (ev_message ev)) 512\<rparr>"

definition log_event :: "int \<Rightarrow> event \<Rightarrow> log \<Rightarrow> log" where
  "log_event now ev l = (case l of None \<Rightarrow> None | Some es \<Rightarrow> Some (es @ [clean_event now ev]))"

section \<open>The registry\<close>

record entry =
  en_id :: string
  en_label :: string
  en_backend :: backend_kind
  en_hosts :: host_policy
  en_tags :: tag_policy
  en_paths :: path_policy
  en_slots :: nat
  en_child_env :: "string list"

record registry =
  rg_entries :: "(string \<times> entry) list"
  rg_order :: "string list"
  rg_limits :: limits
  rg_global :: nat

record public_info =
  pi_id :: string
  pi_label :: string
  pi_backend :: string
  pi_hosts :: "string list"
  pi_tags :: "string list"
  pi_paths :: "string list"

fun s3_keys :: "string list \<Rightarrow> bool \<times> bool \<Rightarrow> bool \<times> bool" where
  "s3_keys [] seen = seen"
| "s3_keys (entry # es) (access, secret) =
     (case cut_at (CHR ''='') entry of
        None \<Rightarrow> s3_keys es (access, secret)
      | Some (key, val) \<Rightarrow>
          if val = [] then s3_keys es (access, secret)
          else if key = ''AWS_ACCESS_KEY_ID'' then s3_keys es (True, secret)
          else if key = ''AWS_SECRET_ACCESS_KEY'' then s3_keys es (access, True)
          else s3_keys es (access, secret))"

definition requireStaticS3Credentials :: "string list \<Rightarrow> unit res" where
  "requireStaticS3Credentials extra =
     (case s3_keys extra (False, False) of
        (access, secret) \<Rightarrow>
          if \<not> access \<or> \<not> secret
          then Inl (new_error ConfigError
            ''s3 backend requires non-empty AWS_ACCESS_KEY_ID and AWS_SECRET_ACCESS_KEY'')
          else Inr ())"

fun load_env_files :: "file_system \<Rightarrow> string list \<Rightarrow> string list res" where
  "load_env_files fs [] = Inr []"
| "load_env_files fs (ef # efs) =
     (case LoadEnvFile ef (OpenSecretFile fs) of
        Inl err \<Rightarrow> Inl err
      | Inr pairs \<Rightarrow>
          (case load_env_files fs efs of Inl err \<Rightarrow> Inl err | Inr rest \<Rightarrow> Inr (pairs @ rest)))"

definition register :: "file_system \<Rightarrow> limits \<Rightarrow> repository \<Rightarrow> entry res" where
  "register fs lim rc =
     (case ReadRepositoryLocation fs (rp_repository_file rc) of
        Inl err \<Rightarrow> Inl err
      | Inr loc \<Rightarrow>
     (case OpenSecretFile fs (rp_password_file rc) of
        Inl err \<Rightarrow> Inl err
      | Inr _ \<Rightarrow>
          let kind = ClassifyBackend loc in
     (case EnsureSupported kind of
        Inl err \<Rightarrow> Inl err
      | Inr _ \<Rightarrow>
     (case load_env_files fs (rp_env_files rc) of
        Inl err \<Rightarrow> Inl err
      | Inr extra \<Rightarrow>
     (case (if kind = BackendS3 then requireStaticS3Credentials extra else Inr ()) of
        Inl err \<Rightarrow> Inl err
      | Inr _ \<Rightarrow>
     (case BuildChildEnv \<lparr>ce_repository = loc, ce_password_file = rp_password_file rc,
                          ce_cache_dir = rp_cache_dir rc, ce_home_dir = ''/var/empty'',
                          ce_extra_env = extra\<rparr> of
        Inl err \<Rightarrow> Inl err
      | Inr env \<Rightarrow>
          Inr \<lparr>en_id = rp_id rc, en_label = rp_label rc, en_backend = kind,
               en_hosts = new_host_policy (rp_allowed_hosts rc),
               en_tags = new_tag_policy (rp_allowed_tags rc),
               en_paths = \<lparr>pp_allowed = rp_allowed_paths rc\<rparr>,
               en_slots = nat (lm_per_repo lim), en_child_env = env\<rparr>))))))"

fun register_all :: "file_system \<Rightarrow> repository list \<Rightarrow> registry \<Rightarrow> registry res" where
  "register_all fs [] r = Inr r"
| "register_all fs (rc # rcs) r =
     (case register fs (rg_limits r) rc of
        Inl err \<Rightarrow> Inl err
      | Inr e \<Rightarrow>
          register_all fs rcs
            (r\<lparr>rg_entries := AList.update (en_id e) e (rg_entries r), rg_order := rg_order r @ [en_id e]\<rparr>))"

definition NewRegistry :: "file_system \<Rightarrow> config \<Rightarrow> registry res" where
  "NewRegistry fs cfg =
     register_all fs (cf_repositories cfg)
       \<lparr>rg_entries = [], rg_order = [], rg_limits = cf_limits cfg,
        rg_global = nat (lm_global (cf_limits cfg))\<rparr>"

definition get_entry :: "registry \<Rightarrow> string \<Rightarrow> entry res" where
  "get_entry r rid =
     (case map_of (rg_entries r) rid of
        None \<Rightarrow> Inl (new_error RepositoryNotFound ''unknown repository_id'')
      | Some e \<Rightarrow> Inr e)"

definition public_of :: "entry \<Rightarrow> public_info" where
  "public_of e =
     \<lparr>pi_id = en_id e, pi_label = en_label e, pi_backend = backend_string (en_backend e),
      pi_hosts = hp_allowed (en_hosts e), pi_tags = tp_allowed (en_tags e),
      pi_paths = pp_allowed (en_paths e)\<rparr>"

definition list_entries :: "registry \<Rightarrow> public_info list" where
  "list_entries r = map (\<lambda>rid. public_of (the (map_of (rg_entries r) rid))) (rg_order r)"

definition registry_ids :: "registry \<Rightarrow> string list" where
  "registry_ids r = rg_order r"

section \<open>Slots\<close>

record slots =
  st_repo :: "string \<Rightarrow> nat"
  st_global :: nat

definition no_slots :: slots where
  "no_slots = \<lparr>st_repo = (\<lambda>_. 0), st_global = 0\<rparr>"

text \<open>
  What the caller's context answers: whether it was cancelled at the start, and whether
  each of the two \<open>select\<close>s took the branch of the cancelled context.
\<close>

record context_view =
  cx_err :: bool
  cx_done_repo :: bool
  cx_done_global :: bool

definition request_cancelled :: go_error where
  "request_cancelled = new_error Cancelled ''request cancelled''"

definition acquire_repo :: "context_view \<Rightarrow> entry \<Rightarrow> slots \<Rightarrow> slots res" where
  "acquire_repo cx e s =
     (if cx_done_repo cx then Inl request_cancelled
      else if st_repo s (en_id e) < en_slots e
        then Inr (s\<lparr>st_repo := (st_repo s)(en_id e := st_repo s (en_id e) + 1)\<rparr>)
      else Inl (new_error ResourceBusy ''repository concurrency limit reached''))"

definition release_repo :: "entry \<Rightarrow> slots \<Rightarrow> slots" where
  "release_repo e s = s\<lparr>st_repo := (st_repo s)(en_id e := st_repo s (en_id e) - 1)\<rparr>"

definition acquire_global :: "context_view \<Rightarrow> registry \<Rightarrow> slots \<Rightarrow> slots res" where
  "acquire_global cx r s =
     (if cx_done_global cx then Inl request_cancelled
      else if st_global s < rg_global r then Inr (s\<lparr>st_global := st_global s + 1\<rparr>)
      else Inl (new_error ResourceBusy ''global concurrency limit reached''))"

definition release_global :: "slots \<Rightarrow> slots" where
  "release_global s = s\<lparr>st_global := st_global s - 1\<rparr>"

text \<open>
  The part of \<open>run\<close> before the child: a refusal, with whether it is audited, or the entry
  and the slots taken. A repository slot is given back when no global one is free.
\<close>

definition admit ::
    "registry \<Rightarrow> context_view \<Rightarrow> string \<Rightarrow> string list \<Rightarrow> slots \<Rightarrow> (go_error \<times> bool) + (entry \<times> slots)" where
  "admit r cx rid argv s =
     (case get_entry r rid of
        Inl err \<Rightarrow> Inl (err, False)
      | Inr e \<Rightarrow>
     (case AssertArgvAllowed argv of
        Inl err \<Rightarrow> Inl (with_cause (new_error InternalError ''disallowed argv'') err, False)
      | Inr _ \<Rightarrow>
          if cx_err cx then Inl (request_cancelled, True)
          else case acquire_repo cx e s of
            Inl err \<Rightarrow> Inl (err, True)
          | Inr s1 \<Rightarrow>
              (case acquire_global cx r s1 of
                 Inl err \<Rightarrow> Inl (err, True)
               | Inr s2 \<Rightarrow> Inr (e, s2))))"

definition release_slots :: "entry \<Rightarrow> slots \<Rightarrow> slots" where
  "release_slots e s = release_repo e (release_global s)"

section \<open>Running\<close>

text \<open>A runner: the buffered run, and the streaming one when it has it.\<close>

record runner =
  rn_run :: "run_request \<Rightarrow> run_outcome"
  rn_scan :: "(run_request \<Rightarrow> consumer \<Rightarrow> run_outcome) option"

definition request_of :: "registry \<Rightarrow> entry \<Rightarrow> string list \<Rightarrow> bool \<Rightarrow> run_request" where
  "request_of r e argv expensive =
     \<lparr>rq_argv = argv, rq_env = en_child_env e,
      rq_timeout = (if expensive then lm_expensive_timeout (rg_limits r)
                    else lm_command_timeout (rg_limits r)),
      rq_max_output = lm_max_output_bytes (rg_limits r), rq_work_dir = []\<rparr>"

definition execute :: "runner \<Rightarrow> run_request \<Rightarrow> consumer option \<Rightarrow> run_outcome" where
  "execute rn req consume =
     (case consume of
        None \<Rightarrow> rn_run rn req
      | Some f \<Rightarrow>
          (case rn_scan rn of
             Some scan \<Rightarrow> scan req f
           | None \<Rightarrow>
               (case rn_run rn req of
                  (Some res, None) \<Rightarrow> (Some res, snd (f (rr_stdout res)))
                | out \<Rightarrow> out)))"

definition auditRun :: "string \<Rightarrow> string \<Rightarrow> int \<Rightarrow> go_error option \<Rightarrow> event" where
  "auditRun rid command duration_ms err =
     (let coded = Option.bind err as_app in
      no_event\<lparr>ev_action := ''restic_run'', ev_repository := rid,
        ev_status := (if err = None then ''ok''
                      else if map_option err_code coded = Some NotAllowed then ''denied'' else ''error''),
        ev_error_code := (case coded of None \<Rightarrow> [] | Some ae \<Rightarrow> code_string (err_code ae)),
        ev_duration_ms := duration_ms, ev_message := command\<rparr>)"

text \<open>
  One call of \<open>run\<close>, from the slots it finds to its outcome and the log. The slots it takes
  are given back at its end, as in the concurrent system below.
\<close>

definition registry_run ::
    "registry \<Rightarrow> runner \<Rightarrow> context_view \<Rightarrow> int \<Rightarrow> int \<Rightarrow> string \<Rightarrow> string list \<Rightarrow> bool \<Rightarrow> consumer option \<Rightarrow>
     slots \<Rightarrow> log \<Rightarrow> run_outcome \<times> log" where
  "registry_run r rn cx now duration_ms rid argv expensive consume s l =
     (case admit r cx rid argv s of
        Inl (err, audited) \<Rightarrow>
          ((None, Some err),
           if audited then log_event now (auditRun rid (hd argv) duration_ms (Some err)) l else l)
      | Inr (e, s') \<Rightarrow>
          (case execute rn (request_of r e argv expensive) consume of
             (res, err) \<Rightarrow> ((res, err), log_event now (auditRun rid (hd argv) duration_ms err) l)))"

section \<open>Concurrent calls\<close>

text \<open>
  Calls start and end in any order. A state is the slots in use and the entries of the calls
  whose child is running.
\<close>

inductive call_step :: "registry \<Rightarrow> slots \<times> entry list \<Rightarrow> slots \<times> entry list \<Rightarrow> bool" for r where
  start: "admit r cx rid argv s = Inr (e, s') \<Longrightarrow> call_step r (s, calls) (s', e # calls)"
| refused: "admit r cx rid argv s = Inl err \<Longrightarrow> call_step r (s, calls) (s, calls)"
| finish: "call_step r (s, before @ e # after) (release_slots e s, before @ after)"

inductive_cases call_stepE: "call_step r (s, calls) (s', calls')"

inductive reachable_calls :: "registry \<Rightarrow> slots \<times> entry list \<Rightarrow> bool" for r where
  idle: "reachable_calls r (no_slots, [])"
| step: "reachable_calls r x \<Longrightarrow> call_step r x y \<Longrightarrow> reachable_calls r y"

section \<open>What boot produces\<close>

definition entry_ok :: "file_system \<Rightarrow> limits \<Rightarrow> repository \<Rightarrow> entry \<Rightarrow> bool" where
  "entry_ok fs lim rc e \<longleftrightarrow>
     (\<exists>loc. ReadRepositoryLocation fs (rp_repository_file rc) = Inr loc \<and>
        en_backend e = ClassifyBackend loc \<and>
        (''RESTIC_REPOSITORY='' @ loc) \<in> set (en_child_env e)) \<and>
     en_id e = rp_id rc \<and> en_backend e \<in> supportedBackends \<and>
     (''RESTIC_PASSWORD_FILE='' @ rp_password_file rc) \<in> set (en_child_env e) \<and>
     distinct (map env_key (en_child_env e)) \<and>
     hp_allowed (en_hosts e) = rp_allowed_hosts rc \<and> tp_allowed (en_tags e) = rp_allowed_tags rc \<and>
     pp_allowed (en_paths e) = rp_allowed_paths rc \<and> en_slots e = nat (lm_per_repo lim)"

lemma sealed_env:
  assumes "BuildChildEnv opts = Inr env"
  shows "distinct (map env_key env) \<and> (''RESTIC_REPOSITORY='' @ ce_repository opts) \<in> set env \<and>
    (''RESTIC_PASSWORD_FILE='' @ ce_password_file opts) \<in> set env"
  using sealed_bindings [OF assms] by blast

lemma EnsureSupported_Inr: "EnsureSupported k = Inr u \<longleftrightarrow> k \<in> supportedBackends"
  by (auto simp: EnsureSupported_def)

lemma register_Inr:
  assumes "register fs lim rc = Inr e"
  shows "entry_ok fs lim rc e"
proof -
  from assms obtain loc u extra v env where loc: "ReadRepositoryLocation fs (rp_repository_file rc) = Inr loc"
    and kind: "EnsureSupported (ClassifyBackend loc) = Inr u"
    and env: "BuildChildEnv \<lparr>ce_repository = loc, ce_password_file = rp_password_file rc,
      ce_cache_dir = rp_cache_dir rc, ce_home_dir = ''/var/empty'', ce_extra_env = extra\<rparr> = Inr env"
    and e: "e = \<lparr>en_id = rp_id rc, en_label = rp_label rc, en_backend = ClassifyBackend loc,
      en_hosts = new_host_policy (rp_allowed_hosts rc), en_tags = new_tag_policy (rp_allowed_tags rc),
      en_paths = \<lparr>pp_allowed = rp_allowed_paths rc\<rparr>, en_slots = nat (lm_per_repo lim),
      en_child_env = env\<rparr>"
    unfolding register_def Let_def by (simp split: sum.splits)
  from sealed_env [OF env] loc kind e show ?thesis
    by (simp add: entry_ok_def EnsureSupported_Inr new_host_policy_def new_tag_policy_def)
qed

lemma register_all_Inr:
  assumes "register_all fs rcs r = Inr r'"
  shows "rg_order r' = rg_order r @ map rp_id rcs \<and> rg_limits r' = rg_limits r \<and>
    rg_global r' = rg_global r \<and>
    (\<forall>k e. map_of (rg_entries r') k = Some e \<longrightarrow>
       (\<exists>rc \<in> set rcs. rp_id rc = k \<and> entry_ok fs (rg_limits r) rc e) \<or> map_of (rg_entries r) k = Some e) \<and>
    (\<forall>k. map_of (rg_entries r') k = None \<longleftrightarrow> k \<notin> rp_id ` set rcs \<and> map_of (rg_entries r) k = None)"
  using assms
proof (induction rcs arbitrary: r)
  case Nil
  then show ?case by simp
next
  case (Cons rc rcs)
  then obtain e where e: "register fs (rg_limits r) rc = Inr e"
    and rest: "register_all fs rcs
      (r\<lparr>rg_entries := AList.update (en_id e) e (rg_entries r), rg_order := rg_order r @ [en_id e]\<rparr>) = Inr r'"
    by (auto split: sum.splits)
  have ok: "entry_ok fs (rg_limits r) rc e" and id: "en_id e = rp_id rc"
    using register_Inr [OF e] by (simp_all add: entry_ok_def)
  note ih = Cons.IH [OF rest]
  show ?case
  proof (intro conjI allI impI)
    fix k x assume "map_of (rg_entries r') k = Some x"
    with ih have "(\<exists>rc \<in> set rcs. rp_id rc = k \<and> entry_ok fs (rg_limits r) rc x) \<or>
        ((map_of (rg_entries r))(rp_id rc \<mapsto> e)) k = Some x"
      by (simp add: update_conv' id)
    then show "(\<exists>rc \<in> set (rc # rcs). rp_id rc = k \<and> entry_ok fs (rg_limits r) rc x) \<or>
        map_of (rg_entries r) k = Some x"
      using ok by (auto split: if_splits)
  qed (use ih id in \<open>auto simp: update_conv'\<close>)
qed

lemma NewRegistry_Inr:
  assumes "NewRegistry fs cfg = Inr r"
  shows "rg_order r = map rp_id (cf_repositories cfg)" and "rg_limits r = cf_limits cfg"
    and "rg_global r = nat (lm_global (cf_limits cfg))"
    and "map_of (rg_entries r) k = Some e \<Longrightarrow>
      \<exists>rc \<in> set (cf_repositories cfg). rp_id rc = k \<and> entry_ok fs (cf_limits cfg) rc e"
    and "map_of (rg_entries r) k = None \<longleftrightarrow> k \<notin> rp_id ` set (cf_repositories cfg)"
  using register_all_Inr [OF assms [unfolded NewRegistry_def]] by simp_all

lemma new_entry_id:
  assumes "NewRegistry fs cfg = Inr r" and "map_of (rg_entries r) k = Some e"
  shows "en_id e = k"
  using NewRegistry_Inr(4) [OF assms] by (auto simp: entry_ok_def)

section \<open>The slots of concurrent calls\<close>

definition slots_inv :: "registry \<Rightarrow> slots \<times> entry list \<Rightarrow> bool" where
  "slots_inv r x \<longleftrightarrow>
     (case x of (s, calls) \<Rightarrow>
        st_global s = length calls \<and> length calls \<le> rg_global r \<and>
        (\<forall>rid. st_repo s rid = length (filter (\<lambda>e. en_id e = rid) calls)) \<and>
        (\<forall>e \<in> set calls. map_of (rg_entries r) (en_id e) = Some e) \<and>
        (\<forall>rid e. map_of (rg_entries r) rid = Some e \<longrightarrow> st_repo s rid \<le> en_slots e))"

lemma admit_Inr:
  assumes "admit r cx rid argv s = Inr (e, s')"
  shows "map_of (rg_entries r) rid = Some e" and "AssertArgvAllowed argv = Inr ()"
    and "\<not> cx_err cx" and "st_repo s (en_id e) < en_slots e" and "st_global s < rg_global r"
    and "s' = s\<lparr>st_repo := (st_repo s)(en_id e := st_repo s (en_id e) + 1), st_global := st_global s + 1\<rparr>"
  using assms
  by (auto simp: admit_def get_entry_def acquire_repo_def acquire_global_def
      split: option.splits sum.splits if_splits)

lemma release_admitted:
  assumes "admit r cx rid argv s = Inr (e, s')"
  shows "release_slots e s' = s"
proof -
  have "(st_repo s)(en_id e := st_repo s (en_id e)) = st_repo s" by simp
  with admit_Inr(6) [OF assms] show ?thesis
    by (cases s) (simp add: release_slots_def release_repo_def release_global_def)
qed

lemma call_step_inv:
  assumes "call_step r x y" and "slots_inv r x"
    and ids: "\<And>k e. map_of (rg_entries r) k = Some e \<Longrightarrow> en_id e = k"
  shows "slots_inv r y"
  using assms(1,2)
proof cases
  case (start cx rid argv s e s' calls)
  note adm = admit_Inr [OF start(3)]
  have e: "en_id e = rid" using ids adm(1) by blast
  have "st_repo s' k \<le> en_slots e'" if "map_of (rg_entries r) k = Some e'" for k e'
    using that adm(1,4,6) e assms(2) start(1) by (cases "k = rid") (auto simp: slots_inv_def)
  with adm e assms(2) start(1,2) show ?thesis by (auto simp: slots_inv_def)
next
  case (refused cx rid argv s err calls)
  with assms(2) show ?thesis by simp
next
  case (finish s before e "after")
  let ?n = "\<lambda>rid. length (filter (\<lambda>e. en_id e = rid) (before @ after))"
  have inv: "st_global s = Suc (length (before @ after))"
    "\<forall>rid. st_repo s rid = ?n rid + (if en_id e = rid then 1 else 0)"
    "length (before @ after) < rg_global r"
    "\<forall>e \<in> set (before @ after). map_of (rg_entries r) (en_id e) = Some e"
    using assms(2) finish(1) by (auto simp: slots_inv_def)
  have cap: "map_of (rg_entries r) rid = Some e' \<Longrightarrow> st_repo s rid \<le> en_slots e'" for rid e'
    using assms(2) unfolding finish(1) slots_inv_def prod.case by blast
  have "st_repo (release_slots e s) rid = ?n rid" for rid
    using inv(2) by (simp add: release_slots_def release_repo_def release_global_def)
  moreover have "st_global (release_slots e s) = length (before @ after)"
    using inv(1) by (simp add: release_slots_def release_repo_def release_global_def)
  moreover have "?n rid \<le> en_slots e'" if "map_of (rg_entries r) rid = Some e'" for rid e'
    using inv(2) cap [OF that] by (metis add_leE)
  ultimately show ?thesis using inv(3,4) finish(2) by (auto simp: slots_inv_def)
qed

lemma reachable_inv:
  assumes "reachable_calls r x" and "\<And>k e. map_of (rg_entries r) k = Some e \<Longrightarrow> en_id e = k"
  shows "slots_inv r x"
  using assms(1)
proof induction
  case idle
  then show ?case by (simp add: slots_inv_def no_slots_def)
next
  case (step x y)
  with call_step_inv assms(2) show ?case by blast
qed

section \<open>Properties\<close>

text \<open>
  What a request handed to the runner looks like: a vector that passed the final check, the
  environment sealed at boot for that repository, and limits within the configured ranges.
\<close>

definition sealed_request :: "file_system \<Rightarrow> config \<Rightarrow> string \<Rightarrow> string list \<Rightarrow> run_request \<Rightarrow> bool" where
  "sealed_request fs cfg rid argv req \<longleftrightarrow>
     rq_argv req = argv \<and> AssertArgvAllowed argv = Inr () \<and>
     (\<exists>rc e. rc \<in> set (cf_repositories cfg) \<and> rp_id rc = rid \<and> entry_ok fs (cf_limits cfg) rc e \<and>
        rq_env req = en_child_env e) \<and>
     second \<le> rq_timeout req \<and> rq_timeout req \<le> 15 * minute \<and>
     64 * 2 ^ 10 \<le> rq_max_output req \<and> rq_max_output req \<le> 32 * 2 ^ 20"

text \<open>
  C33. The only way to restic. For a registry built from a validated configuration, a call of
  \<open>run\<close> is either refused without a child - because the repository is unknown, the vector is
  not allowed, the caller has gone or a concurrency limit is reached - or it is the run of one
  sealed request for that repository. It is audited with one event, except for an unknown
  repository or a vector that is not allowed.
\<close>
theorem registry_run_sealed:
  assumes "NewRegistry fs cfg = Inr r" and "limits_ok (cf_limits cfg)"
    and "registry_run r rn cx now dur rid argv expensive consume s (Some es) = (out, l)"
  shows "(\<exists>err. out = (None, Some err) \<and>
      (if rid \<notin> rp_id ` set (cf_repositories cfg) then is_code err RepositoryNotFound \<and> l = Some es
       else if AssertArgvAllowed argv \<noteq> Inr () then is_code err InternalError \<and> l = Some es
       else (is_code err Cancelled \<or> is_code err ResourceBusy \<and>
          (st_repo s rid \<ge> nat (lm_per_repo (cf_limits cfg)) \<or> st_global s \<ge> nat (lm_global (cf_limits cfg)))) \<and>
          (\<exists>ev. l = Some (es @ [ev])))) \<or>
    (\<exists>req ev. sealed_request fs cfg rid argv req \<and> out = execute rn req consume \<and>
      l = Some (es @ [ev]))"
proof (cases "admit r cx rid argv s")
  case (Inr es')
  then obtain e s' where adm: "admit r cx rid argv s = Inr (e, s')" by (cases es') auto
  note facts = admit_Inr [OF adm] and reg = NewRegistry_Inr [OF assms(1)]
  obtain rc where rc: "rc \<in> set (cf_repositories cfg)" "rp_id rc = rid" "entry_ok fs (cf_limits cfg) rc e"
    using reg(4) facts(1) by blast
  have "sealed_request fs cfg rid argv (request_of r e argv expensive)"
    using rc facts(2) assms(2) reg(2)
    by (auto simp: sealed_request_def request_of_def limits_ok_def minute_def)
  then show ?thesis using adm
    using assms(3)
    by (intro disjI2) (auto simp: registry_run_def log_event_def split: prod.splits)
next
  case (Inl p)
  then obtain err audited where adm: "admit r cx rid argv s = Inl (err, audited)" by (cases p) auto
  note reg = NewRegistry_Inr [OF assms(1)]
  have slots: "en_slots e = nat (lm_per_repo (cf_limits cfg))" "en_id e = rid"
    if "map_of (rg_entries r) rid = Some e" for e
    using reg(4) [OF that] by (auto simp: entry_ok_def)
  have out: "out = (None, Some err)"
    "l = Some (if audited then es @ [clean_event now (auditRun rid (hd argv) dur (Some err))] else es)"
    using adm assms(3) by (simp_all add: registry_run_def log_event_def split: if_splits)
  show ?thesis
  proof (cases "map_of (rg_entries r) rid")
    case None
    with adm out reg(5) show ?thesis by (auto simp: admit_def get_entry_def)
  next
    case (Some e)
    then have known: "rid \<in> rp_id ` set (cf_repositories cfg)" using reg(5) by (metis option.distinct(1))
    show ?thesis
    proof (cases "AssertArgvAllowed argv")
      case (Inl e')
      with adm out Some known show ?thesis by (auto simp: admit_def get_entry_def)
    next
      case (Inr u)
      have "audited \<and> (is_code err Cancelled \<or> is_code err ResourceBusy \<and>
          (st_repo s rid \<ge> en_slots e \<or> st_global s \<ge> rg_global r))"
        using adm Some Inr slots(2) [OF Some]
        by (auto simp: admit_def get_entry_def acquire_repo_def acquire_global_def request_cancelled_def
            split: if_splits)
      with out known Inr slots(1) [OF Some] reg(3) show ?thesis by simp
    qed
  qed
qed


section \<open>A registry of one local repository\<close>

definition sample_info :: file_info where
  "sample_info = \<lparr>fi_symlink = False, fi_regular = True, fi_size = 7, fi_perm = 384\<rparr>"

definition sample_fs :: file_system where
  "sample_fs =
     \<lparr>fs_lstat = (\<lambda>_. Inr sample_info), fs_open = (\<lambda>_. Inr (Inr sample_info, Inr ''/srv/r'')),
      fs_read = (\<lambda>_. Inr [])\<rparr>"

definition booted_config :: config where
  "booted_config =
     sample_config\<lparr>cf_limits := applyLimitDefaults (cf_limits sample_config),
       cf_repositories := [sample_repository\<lparr>rp_password_file := ''/k/p''\<rparr>]\<rparr>"

lemma sample_secret: "path \<in> {''/k/r'', ''/k/p''} \<Longrightarrow> OpenSecretFile sample_fs path = Inr ''/srv/r''"
  by (auto simp: OpenSecretFile_def readSecretFile_def sample_fs_def sample_info_def
      validateSecretFilePath_def is_abs_def hasParentPathSegment_def backslash_to_slash_def
      has_control_ascii byte_def is_control_def maxSecretFileBytes_def secretFilePermissionsOK_def)

lemma sample_location: "ReadRepositoryLocation sample_fs ''/k/r'' = Inr ''/srv/r''"
  by (simp add: ReadRepositoryLocation_def sample_secret trim_space_def rune_chunks_ascii byte_def
      is_space_def has_control_ascii is_control_def)

lemma sample_backend: "ClassifyBackend ''/srv/r'' = BackendLocal"
  by (simp add: ClassifyBackend_def trim_space_def rune_chunks_ascii byte_def is_space_def
      to_lower_def lower_char_def byte_in_def)

lemma sample_registry: "\<exists>r. NewRegistry sample_fs booted_config = Inr r"
  by (simp add: NewRegistry_def booted_config_def sample_config_def sample_repository_def register_def
      sample_location sample_secret sample_backend EnsureSupported_def supportedBackends_def
      BuildChildEnv_def Let_def)

lemma booted_limits: "limits_ok (cf_limits booted_config)"
  by (simp add: booted_config_def sample_config_def applyLimitDefaults_def default_to_def limits_ok_def
      minute_def second_def)

theorem registry_run_sealed_witness:
  "\<exists>r err. NewRegistry sample_fs booted_config = Inr r \<and>
     registry_run r \<lparr>rn_run = (\<lambda>_. (None, None)), rn_scan = None\<rparr>
       \<lparr>cx_err = False, cx_done_repo = False, cx_done_global = False\<rparr> 0 0 ''other'' [''version'']
       False None no_slots (Some []) = ((None, Some err), Some []) \<and> is_code err RepositoryNotFound"
proof -
  obtain r where r: "NewRegistry sample_fs booted_config = Inr r" using sample_registry by blast
  have unknown: "''other'' \<notin> rp_id ` set (cf_repositories booted_config)"
    by (simp add: booted_config_def sample_repository_def)
  have "\<not> sealed_request sample_fs booted_config ''other'' argv req" for argv req
    using unknown by (force simp: sealed_request_def)
  moreover obtain out l where run: "registry_run r \<lparr>rn_run = (\<lambda>_. (None, None)), rn_scan = None\<rparr>
       \<lparr>cx_err = False, cx_done_repo = False, cx_done_global = False\<rparr> 0 0 ''other'' [''version'']
       False None no_slots (Some []) = (out, l)" by fastforce
  ultimately have "\<exists>err. out = (None, Some err) \<and> is_code err RepositoryNotFound \<and> l = Some []"
    using registry_run_sealed [OF r booted_limits run] unknown by auto
  with r run show ?thesis by auto
qed


end
