(* ===== verification/Metadata.thy ===== *)
theory Metadata
  imports Registry Eviction
begin

text \<open>
  The metadata coalescer of \<open>internal/repositories/metadata.go\<close>: an optional short-lived
  cache and the sharing of identical commands in flight. A call object, which several
  goroutines hold, is an index into the list of all calls; the map \<open>calls\<close> and the cache
  are association lists. Each operation runs under the mutex, so it is one step; clock
  readings are arguments, in nanoseconds.
\<close>

section \<open>State\<close>

record metadata_entry =
  me_result :: run_result
  me_observed :: int

record metadata_call =
  mc_key :: string
  mc_done :: bool
  mc_result :: "run_result option"
  mc_err :: "go_error option"
  mc_refs :: int
  mc_cancelled :: bool

record coalescer =
  co_heap :: "metadata_call list"
  co_calls :: "(string \<times> nat) list"
  co_cache :: "(string \<times> metadata_entry) list"
  co_ttl :: int
  co_max :: int

record observation =
  mo_enabled :: bool
  mo_hit :: bool
  mo_observed_at :: "int option"
  mo_age_seconds :: int
  mo_ttl_seconds :: int

definition newMetadataCoalescer :: "int \<Rightarrow> int \<Rightarrow> coalescer" where
  "newMetadataCoalescer ttl mx =
     \<lparr>co_heap = [], co_calls = [], co_cache = [], co_ttl = ttl, co_max = (if ttl \<le> 0 then 0 else mx)\<rparr>"

definition metadataKey :: "string \<Rightarrow> string list \<Rightarrow> string" where
  "metadataKey repoID argv = repoID @ [CHR 0x00] @ join [CHR 0x00] argv"

section \<open>The cache\<close>

definition cacheGet ::
    "string \<Rightarrow> int \<Rightarrow> coalescer \<Rightarrow> (run_result \<times> int) option \<times> coalescer" where
  "cacheGet key now m =
     (if co_ttl m \<le> 0 then (None, m)
      else case map_of (co_cache m) key of
        None \<Rightarrow> (None, m)
      | Some entry \<Rightarrow>
          let age = now - me_observed entry in
          if age < 0 \<or> age \<ge> co_ttl m
            then (None, m\<lparr>co_cache := AList.delete key (co_cache m)\<rparr>)
          else (Some (me_result entry, me_observed entry), m))"

definition fresh_entries :: "int \<Rightarrow> int \<Rightarrow> (string \<times> metadata_entry) list \<Rightarrow> (string \<times> metadata_entry) list" where
  "fresh_entries ttl now cache = filter (\<lambda>(k, e). \<not> now - me_observed e \<ge> ttl) cache"

text \<open>
  \<open>for len(cache) >= max\<close>: drop the oldest entry until there is room, or until no oldest key is
  found, when dropping leaves the cache as it was.
\<close>

function make_room :: "int \<Rightarrow> (string \<times> metadata_entry) list \<Rightarrow> (string \<times> metadata_entry) list" where
  "make_room mx cache =
     (if int (length cache) \<ge> mx then
        (let cache' = evict_oldest me_observed cache in
         if length cache' < length cache then make_room mx cache' else cache)
      else cache)"
  by pat_completeness auto

termination
  by (relation "measure (\<lambda>(mx, cache). length cache)") auto

declare make_room.simps [simp del]

definition cachePut :: "string \<Rightarrow> run_result option \<Rightarrow> int \<Rightarrow> coalescer \<Rightarrow> coalescer" where
  "cachePut key result now m =
     (if co_ttl m \<le> 0 \<or> result = None then m
      else m\<lparr>co_cache := AList.update key \<lparr>me_result = the result, me_observed = now\<rparr>
        (make_room (co_max m) (fresh_entries (co_ttl m) now (co_cache m)))\<rparr>)"

section \<open>Calls in flight\<close>

definition set_call :: "nat \<Rightarrow> metadata_call \<Rightarrow> coalescer \<Rightarrow> coalescer" where
  "set_call i c m = m\<lparr>co_heap := (co_heap m)[i := c]\<rparr>"

definition join_call :: "string \<Rightarrow> coalescer \<Rightarrow> (nat \<times> bool) \<times> coalescer" where
  "join_call key m =
     (case map_of (co_calls m) key of
        Some i \<Rightarrow>
          ((i, False), set_call i ((co_heap m ! i)\<lparr>mc_refs := mc_refs (co_heap m ! i) + 1\<rparr>) m)
      | None \<Rightarrow>
          let call = \<lparr>mc_key = key, mc_done = False, mc_result = None, mc_err = None, mc_refs = 1,
                      mc_cancelled = False\<rparr>;
              i = length (co_heap m)
          in ((i, True), m\<lparr>co_heap := co_heap m @ [call], co_calls := AList.update key i (co_calls m)\<rparr>))"

definition release_call :: "string \<Rightarrow> nat \<Rightarrow> coalescer \<Rightarrow> coalescer" where
  "release_call key i m =
     (let call = (co_heap m ! i)\<lparr>mc_refs := mc_refs (co_heap m ! i) - 1\<rparr>; m' = set_call i call m in
      if mc_refs call > 0 then m'
      else if mc_done call then m'
      else
        let m'' = (if map_of (co_calls m') key = Some i
                   then m'\<lparr>co_calls := AList.delete key (co_calls m')\<rparr> else m')
        in set_call i (call\<lparr>mc_cancelled := True\<rparr>) m'')"

definition finish_call ::
    "string \<Rightarrow> nat \<Rightarrow> run_result option \<Rightarrow> go_error option \<Rightarrow> int \<Rightarrow> coalescer \<Rightarrow> coalescer" where
  "finish_call key i result err now m =
     (let call = (co_heap m ! i)\<lparr>mc_result := result, mc_err := err, mc_done := True, mc_cancelled := True\<rparr>;
          m' = set_call i call (m\<lparr>co_calls := AList.delete key (co_calls m)\<rparr>)
      in if err = None then cachePut key result now m' else m')"

section \<open>RunMetadata\<close>

text \<open>Seconds of a duration, rounded towards zero.\<close>

definition seconds_of :: "int \<Rightarrow> int" where
  "seconds_of d = (if d \<ge> 0 then d div second else - ((- d) div second))"

definition no_observation :: observation where
  "no_observation =
     \<lparr>mo_enabled = False, mo_hit = False, mo_observed_at = None, mo_age_seconds = 0, mo_ttl_seconds = 0\<rparr>"

definition base_observation :: "coalescer \<Rightarrow> observation" where
  "base_observation m =
     no_observation\<lparr>mo_enabled := co_ttl m > 0,
       mo_ttl_seconds := (if co_ttl m > 0 then seconds_of (co_ttl m) else 0)\<rparr>"

definition hit_observation :: "coalescer \<Rightarrow> int \<Rightarrow> int \<Rightarrow> observation" where
  "hit_observation m observed now =
     (base_observation m)\<lparr>mo_hit := True, mo_observed_at := Some observed,
        mo_age_seconds := max 0 (seconds_of (now - observed))\<rparr>"

datatype metadata_begin =
    Refused go_error
  | Cached run_result observation
  | Waiting nat bool

text \<open>Up to the wait: checks, cache, and the call to wait for, with whether this caller leads.\<close>

definition begin_metadata ::
    "registry \<Rightarrow> string \<Rightarrow> string list \<Rightarrow> int \<Rightarrow> int \<Rightarrow> coalescer \<Rightarrow> metadata_begin \<times> coalescer" where
  "begin_metadata r rid argv now now2 m =
     (case get_entry r rid of
        Inl err \<Rightarrow> (Refused err, m)
      | Inr _ \<Rightarrow>
     (case AssertArgvAllowed argv of
        Inl err \<Rightarrow> (Refused (with_cause (new_error InternalError ''disallowed argv'') err), m)
      | Inr _ \<Rightarrow>
     (case cacheGet (metadataKey rid argv) now m of
        (Some (result, observed), m1) \<Rightarrow> (Cached result (hit_observation m observed now2), m1)
      | (None, m1) \<Rightarrow>
          (case join_call (metadataKey rid argv) m1 of ((i, leader), m2) \<Rightarrow> (Waiting i leader, m2)))))"

text \<open>
  After the wait: the call is done, or, in \<open>gave_up\<close>, the caller's own context was. A select
  with both ready may take either branch.
\<close>

definition end_metadata ::
    "string \<Rightarrow> nat \<Rightarrow> bool \<Rightarrow> int \<Rightarrow> coalescer \<Rightarrow> (run_result option \<times> observation \<times> go_error option) \<times> coalescer" where
  "end_metadata key i gave_up now m =
     (let m' = release_call key i m; call = co_heap m ! i; obs = base_observation m in
      if gave_up then ((None, obs, Some request_cancelled), m')
      else case mc_err call of
        Some err \<Rightarrow> ((None, obs, Some err), m')
      | None \<Rightarrow> ((mc_result call, obs\<lparr>mo_observed_at := Some now\<rparr>, None), m'))"

section \<open>Concurrent callers\<close>

text \<open>
  The callers that have joined a call and not released it, and what they and the goroutines
  of the calls do, in any order.
\<close>

inductive share_step ::
    "coalescer \<times> (string \<times> nat) list \<Rightarrow> coalescer \<times> (string \<times> nat) list \<Rightarrow> bool" where
  lookup: "cacheGet key now m = (hit, m') \<Longrightarrow> share_step (m, ws) (m', ws)"
| joining: "key = metadataKey rid argv \<Longrightarrow> join_call key m = ((i, leader), m') \<Longrightarrow>
    share_step (m, ws) (m', (key, i) # ws)"
| leaving: "share_step (m, before @ (key, i) # after) (release_call key i m, before @ after)"
| finishing: "i < length (co_heap m) \<Longrightarrow> \<not> mc_done (co_heap m ! i) \<Longrightarrow> key = mc_key (co_heap m ! i) \<Longrightarrow>
    share_step (m, ws) (finish_call key i result err now m, ws)"

inductive shared :: "int \<Rightarrow> int \<Rightarrow> coalescer \<times> (string \<times> nat) list \<Rightarrow> bool" for ttl mx where
  fresh: "shared ttl mx (newMetadataCoalescer ttl mx, [])"
| step: "shared ttl mx x \<Longrightarrow> share_step x y \<Longrightarrow> shared ttl mx y"

section \<open>The cache stays small and fresh\<close>

lemma make_room_subset: "set (make_room mx cache) \<subseteq> set cache"
proof (induction mx cache rule: make_room.induct)
  case (1 mx cache)
  then show ?case
    using evict_oldest_subset [of me_observed cache]
    by (subst make_room.simps) (auto simp: Let_def)
qed

lemma make_room_distinct: "distinct (map fst cache) \<Longrightarrow> distinct (map fst (make_room mx cache))"
proof (induction mx cache rule: make_room.induct)
  case (1 mx cache)
  then show ?case
    using evict_oldest_keys [of cache me_observed] by (subst make_room.simps) (auto simp: Let_def)
qed

lemma make_room_length:
  assumes "\<forall>e \<in> set cache. fst e \<noteq> []" and "distinct (map fst cache)"
  shows "int (length (make_room mx cache)) \<le> max 0 (mx - 1)"
  using assms
proof (induction mx cache rule: make_room.induct)
  case (1 mx cache)
  let ?c = "evict_oldest me_observed cache"
  have keys: "\<forall>e \<in> set ?c. fst e \<noteq> []" "distinct (map fst ?c)"
    using "1.prems" evict_oldest_subset [of me_observed cache] evict_oldest_keys [of cache me_observed] by auto
  show ?case
  proof (cases "int (length cache) \<ge> mx \<and> cache \<noteq> []")
    case True
    then have "length ?c < length cache"
      using evict_oldest_set [of cache me_observed "length ?c < length cache"] "1.prems" by blast
    with True "1.IH" keys show ?thesis by (subst make_room.simps) (simp add: Let_def)
  next
    case False
    then show ?thesis by (subst make_room.simps) (auto simp: Let_def evict_oldest_def)
  qed
qed

definition cache_ok :: "coalescer \<Rightarrow> bool" where
  "cache_ok m \<longleftrightarrow>
     distinct (map fst (co_cache m)) \<and> (\<forall>e \<in> set (co_cache m). fst e \<noteq> []) \<and>
     int (length (co_cache m)) \<le> max 1 (co_max m) \<and> (co_ttl m \<le> 0 \<longrightarrow> co_cache m = [])"

lemma cacheGet_cache:
  assumes "cacheGet key now m = (hit, m')"
  shows "m' = m \<or> m' = m\<lparr>co_cache := AList.delete key (co_cache m)\<rparr>"
  using assms by (auto simp: cacheGet_def Let_def split: option.splits if_splits)

lemma cacheGet_ok:
  assumes "cacheGet key now m = (hit, m')" and "cache_ok m"
  shows "cache_ok m'"
  using cacheGet_cache [OF assms(1)] assms(2) length_delete_le [of key "co_cache m"]
  by (auto simp: cache_ok_def distinct_delete delete_subset delete_idem)

lemma cachePut_ok:
  assumes "key \<noteq> []" and "cache_ok m"
  shows "cache_ok (cachePut key result now m)"
proof (cases "co_ttl m \<le> 0 \<or> result = None")
  case True
  with assms show ?thesis by (simp add: cachePut_def)
next
  case False
  define live where "live = fresh_entries (co_ttl m) now (co_cache m)"
  define kept where "kept = make_room (co_max m) live"
  have live: "\<forall>e \<in> set live. fst e \<noteq> []" "distinct (map fst live)"
    using assms(2) by (auto simp: cache_ok_def live_def fresh_entries_def distinct_map_filter)
  have "distinct (map fst kept)" "\<forall>e \<in> set kept. fst e \<noteq> []" "int (length kept) \<le> max 0 (co_max m - 1)"
    using make_room_distinct [OF live(2)] make_room_subset [of "co_max m" live] live(1)
      make_room_length [OF live] unfolding kept_def by auto
  moreover note length_update_le [of key "\<lparr>me_result = the result, me_observed = now\<rparr>" kept]
    set_update_le [of key "\<lparr>me_result = the result, me_observed = now\<rparr>" kept]
  ultimately show ?thesis
    using False assms(1)
    by (auto simp: cachePut_def cache_ok_def kept_def [symmetric] live_def [symmetric] distinct_update)
qed

section \<open>Waiting callers keep a shared run alive\<close>

definition waiting :: "(string \<times> nat) list \<Rightarrow> nat \<Rightarrow> nat" where
  "waiting ws i = length (filter (\<lambda>w. snd w = i) ws)"

lemma waiting_simps [simp]:
  "waiting [] i = 0"
  "waiting ((k, j) # ws) i = (if j = i then Suc (waiting ws i) else waiting ws i)"
  "waiting (ws @ ws') i = waiting ws i + waiting ws' i"
  by (simp_all add: waiting_def)

definition call_ok :: "metadata_call \<Rightarrow> nat \<Rightarrow> bool" where
  "call_ok c n \<longleftrightarrow>
     mc_key c \<noteq> [] \<and> mc_refs c = int n \<and> (\<not> mc_done c \<longrightarrow> mc_cancelled c = (n = 0))"

definition share_inv :: "coalescer \<times> (string \<times> nat) list \<Rightarrow> bool" where
  "share_inv x \<longleftrightarrow>
     (case x of (m, ws) \<Rightarrow>
        (\<forall>i < length (co_heap m). call_ok (co_heap m ! i) (waiting ws i)) \<and>
        (\<forall>(k, i) \<in> set ws. i < length (co_heap m) \<and> mc_key (co_heap m ! i) = k) \<and>
        (\<forall>k i. map_of (co_calls m) k = Some i \<longrightarrow> i < length (co_heap m) \<and> mc_key (co_heap m ! i) = k \<and>
           \<not> mc_done (co_heap m ! i) \<and> 0 < waiting ws i))"

definition from_calls :: "coalescer \<Rightarrow> bool" where
  "from_calls m \<longleftrightarrow>
     (\<forall>(k, e) \<in> set (co_cache m). \<exists>i < length (co_heap m). mc_done (co_heap m ! i) \<and>
        mc_err (co_heap m ! i) = None \<and> mc_key (co_heap m ! i) = k \<and>
        mc_result (co_heap m ! i) = Some (me_result e))"

lemma cachePut_calls [simp]:
  "co_heap (cachePut key result now m) = co_heap m" "co_calls (cachePut key result now m) = co_calls m"
  "co_ttl (cachePut key result now m) = co_ttl m" "co_max (cachePut key result now m) = co_max m"
  by (simp_all add: cachePut_def)

lemma metadataKey_ne [simp]: "metadataKey rid argv \<noteq> []"
  by (simp add: metadataKey_def)

lemma waiting_pos: "(k, i) \<in> set ws \<Longrightarrow> 0 < waiting ws i"
  by (induction ws) auto

lemma waiting_beyond:
  assumes "\<forall>(k, i) \<in> set ws. i < n" shows "waiting ws n = 0"
  using assms by (induction ws) auto

lemma nth_update_if: "j < length xs \<Longrightarrow> xs[i := x] ! j = (if i = j then x else xs ! j)"
  by simp

lemma share_invI:
  assumes "\<And>j. j < length (co_heap m) \<Longrightarrow> call_ok (co_heap m ! j) (waiting ws j)"
    and "\<And>k j. (k, j) \<in> set ws \<Longrightarrow> j < length (co_heap m) \<and> mc_key (co_heap m ! j) = k"
    and "\<And>k j. map_of (co_calls m) k = Some j \<Longrightarrow> j < length (co_heap m) \<and> mc_key (co_heap m ! j) = k \<and>
      \<not> mc_done (co_heap m ! j) \<and> 0 < waiting ws j"
  shows "share_inv (m, ws)"
  using assms by (auto simp: share_inv_def)

lemma lookup_calls:
  assumes "cacheGet key now m = (hit, m')"
  shows "co_heap m' = co_heap m" and "co_calls m' = co_calls m" and "set (co_cache m') \<subseteq> set (co_cache m)"
  using cacheGet_cache [OF assms] by (auto simp: delete_subset)

lemma join_inv:
  assumes "join_call key m = ((i, leader), m')" and "share_inv (m, ws)" and "key \<noteq> []"
  shows "share_inv (m', (key, i) # ws)"
proof (cases "map_of (co_calls m) key")
  case None
  then have i: "i = length (co_heap m)" and m': "m' = m\<lparr>co_heap := co_heap m @
      [\<lparr>mc_key = key, mc_done = False, mc_result = None, mc_err = None, mc_refs = 1, mc_cancelled = False\<rparr>],
      co_calls := AList.update key i (co_calls m)\<rparr>"
    using assms(1) by (auto simp: join_call_def Let_def)
  have "waiting ws i = 0"
    unfolding i using assms(2) by (intro waiting_beyond) (auto simp: share_inv_def)
  with assms(2,3) m' i show ?thesis
    by (auto simp: share_inv_def call_ok_def nth_append update_conv' less_Suc_eq split: if_splits)
next
  case (Some j)
  then have i: "i = j" and m': "m' = set_call i ((co_heap m ! i)\<lparr>mc_refs := mc_refs (co_heap m ! i) + 1\<rparr>) m"
    using assms(1) by (auto simp: join_call_def)
  have j: "i < length (co_heap m)" "mc_key (co_heap m ! i) = key" "\<not> mc_done (co_heap m ! i)"
      "0 < waiting ws i" "call_ok (co_heap m ! i) (waiting ws i)"
    using Some assms(2) i by (auto simp: share_inv_def)
  with assms(2) m' show ?thesis
    by (auto simp: share_inv_def set_call_def call_ok_def nth_list_update)
qed

lemma release_inv:
  assumes "share_inv (m, before @ (key, i) # after)"
  shows "share_inv (release_call key i m, before @ after)"
proof -
  define ws where "ws = before @ after"
  define n where "n = waiting ws i"
  have i: "i < length (co_heap m)" "mc_key (co_heap m ! i) = key" "call_ok (co_heap m ! i) (Suc n)"
    using assms by (auto simp: share_inv_def n_def ws_def)
  have others: "call_ok (co_heap m ! j) (waiting ws j)" if "j < length (co_heap m)" "j \<noteq> i" for j
    using assms that by (auto simp: share_inv_def ws_def)
  have held: "j < length (co_heap m) \<and> mc_key (co_heap m ! j) = k" if "(k, j) \<in> set ws" for k j
    using assms that by (auto simp: share_inv_def ws_def)
  have inv3: "j < length (co_heap m) \<and> mc_key (co_heap m ! j) = k \<and> \<not> mc_done (co_heap m ! j) \<and>
      0 < waiting (before @ (key, i) # after) j" if "map_of (co_calls m) k = Some j" for k j
    using assms that unfolding share_inv_def prod.case by blast
  have calls: "j < length (co_heap m) \<and> mc_key (co_heap m ! j) = k \<and> \<not> mc_done (co_heap m ! j) \<and>
      (j = i \<or> 0 < waiting ws j)" if "map_of (co_calls m) k = Some j" for k j
    using inv3 [OF that] by (cases "j = i") (auto simp: ws_def)
  show ?thesis
  proof (cases "n > 0 \<or> mc_done (co_heap m ! i)")
    case True
    then have m': "release_call key i m =
        set_call i ((co_heap m ! i)\<lparr>mc_refs := mc_refs (co_heap m ! i) - 1\<rparr>) m"
      using i(3) by (auto simp: release_call_def Let_def call_ok_def)
    have here: "map_of (co_calls m) k = Some i \<Longrightarrow> 0 < n" for k using calls True by blast
    show ?thesis
      unfolding m' ws_def [symmetric]
    proof (rule share_invI)
      fix j assume "j < length (co_heap (set_call i ((co_heap m ! i)\<lparr>mc_refs := mc_refs (co_heap m ! i) - 1\<rparr>) m))"
      then show "call_ok (co_heap (set_call i ((co_heap m ! i)\<lparr>mc_refs := mc_refs (co_heap m ! i) - 1\<rparr>) m) ! j)
          (waiting ws j)"
        using i(1,3) others True
        by (cases "j = i") (auto simp: set_call_def call_ok_def n_def [symmetric])
    next
      fix k j assume "(k, j) \<in> set ws"
      with held show "j < length (co_heap (set_call i ((co_heap m ! i)\<lparr>mc_refs := mc_refs (co_heap m ! i) - 1\<rparr>) m)) \<and>
          mc_key (co_heap (set_call i ((co_heap m ! i)\<lparr>mc_refs := mc_refs (co_heap m ! i) - 1\<rparr>) m) ! j) = k"
        using i(1) by (cases "j = i") (auto simp: set_call_def)
    next
      fix k j
      assume "map_of (co_calls (set_call i ((co_heap m ! i)\<lparr>mc_refs := mc_refs (co_heap m ! i) - 1\<rparr>) m)) k = Some j"
      then have "map_of (co_calls m) k = Some j" by (simp add: set_call_def)
      with calls here [of k] i(1)
      show "j < length (co_heap (set_call i ((co_heap m ! i)\<lparr>mc_refs := mc_refs (co_heap m ! i) - 1\<rparr>) m)) \<and>
          mc_key (co_heap (set_call i ((co_heap m ! i)\<lparr>mc_refs := mc_refs (co_heap m ! i) - 1\<rparr>) m) ! j) = k \<and>
          \<not> mc_done (co_heap (set_call i ((co_heap m ! i)\<lparr>mc_refs := mc_refs (co_heap m ! i) - 1\<rparr>) m) ! j) \<and>
          0 < waiting ws j"
        by (cases "j = i") (auto simp: set_call_def n_def [symmetric])
    qed
  next
    case False
    define c where "c = (co_heap m ! i)\<lparr>mc_refs := 0, mc_cancelled := True\<rparr>"
    define d where "d = (if map_of (co_calls m) key = Some i then AList.delete key (co_calls m) else co_calls m)"
    have m': "release_call key i m = m\<lparr>co_heap := (co_heap m)[i := c], co_calls := d\<rparr>"
      using False i(3) by (auto simp: release_call_def Let_def call_ok_def set_call_def c_def d_def)
    have gone: "j \<noteq> i \<and> map_of (co_calls m) k = Some j" if "map_of d k = Some j" for k j
    proof -
      have some: "map_of (co_calls m) k = Some j" and "k = key \<longrightarrow> map_of (co_calls m) key \<noteq> Some i"
        using that by (auto simp: d_def delete_conv' split: if_splits)
      moreover from calls [OF some] i(2) have "j = i \<longrightarrow> k = key" by auto
      ultimately show ?thesis by auto
    qed
    show ?thesis
      unfolding m' ws_def [symmetric]
    proof (rule share_invI)
      fix j assume "j < length (co_heap (m\<lparr>co_heap := (co_heap m)[i := c], co_calls := d\<rparr>))"
      then show "call_ok (co_heap (m\<lparr>co_heap := (co_heap m)[i := c], co_calls := d\<rparr>) ! j) (waiting ws j)"
        using i(1,3) others False by (cases "j = i") (auto simp: call_ok_def n_def [symmetric] c_def)
    next
      fix k j assume "(k, j) \<in> set ws"
      with held show "j < length (co_heap (m\<lparr>co_heap := (co_heap m)[i := c], co_calls := d\<rparr>)) \<and>
          mc_key (co_heap (m\<lparr>co_heap := (co_heap m)[i := c], co_calls := d\<rparr>) ! j) = k"
        using i(1) by (cases "j = i") (auto simp: c_def)
    next
      fix k j assume "map_of (co_calls (m\<lparr>co_heap := (co_heap m)[i := c], co_calls := d\<rparr>)) k = Some j"
      with gone have "j \<noteq> i" "map_of (co_calls m) k = Some j" by simp_all
      with calls show "j < length (co_heap (m\<lparr>co_heap := (co_heap m)[i := c], co_calls := d\<rparr>)) \<and>
          mc_key (co_heap (m\<lparr>co_heap := (co_heap m)[i := c], co_calls := d\<rparr>) ! j) = k \<and>
          \<not> mc_done (co_heap (m\<lparr>co_heap := (co_heap m)[i := c], co_calls := d\<rparr>) ! j) \<and> 0 < waiting ws j"
        by auto
    qed
  qed
qed

lemma finish_inv:
  assumes "share_inv (m, ws)" and "i < length (co_heap m)" and "\<not> mc_done (co_heap m ! i)"
    and "key = mc_key (co_heap m ! i)"
  shows "share_inv (finish_call key i result err now m, ws)"
  using assms
  by (auto simp: share_inv_def finish_call_def Let_def set_call_def call_ok_def nth_list_update
      delete_conv' split: if_splits)

text \<open>Changing a call that is not done, or adding one, keeps the origin of what is cached.\<close>

lemma from_calls_mono:
  assumes "from_calls m" and "set (co_cache m') \<subseteq> set (co_cache m)"
    and "\<And>j. j < length (co_heap m) \<Longrightarrow> mc_done (co_heap m ! j) \<Longrightarrow>
      j < length (co_heap m') \<and> mc_done (co_heap m' ! j) \<and>
      mc_err (co_heap m' ! j) = mc_err (co_heap m ! j) \<and> mc_key (co_heap m' ! j) = mc_key (co_heap m ! j) \<and>
      mc_result (co_heap m' ! j) = mc_result (co_heap m ! j)"
  shows "from_calls m'"
  unfolding from_calls_def
proof clarify
  fix k e assume "(k, e) \<in> set (co_cache m')"
  then obtain j where "j < length (co_heap m)" "mc_done (co_heap m ! j)" "mc_err (co_heap m ! j) = None"
      "mc_key (co_heap m ! j) = k" "mc_result (co_heap m ! j) = Some (me_result e)"
    using assms(1,2) unfolding from_calls_def by blast
  with assms(3) [of j] show "\<exists>i<length (co_heap m'). mc_done (co_heap m' ! i) \<and>
      mc_err (co_heap m' ! i) = None \<and> mc_key (co_heap m' ! i) = k \<and>
      mc_result (co_heap m' ! i) = Some (me_result e)" by auto
qed

lemma finish_from_calls:
  assumes "from_calls m" and "i < length (co_heap m)" and "key = mc_key (co_heap m ! i)"
    and "\<not> mc_done (co_heap m ! i)"
  shows "from_calls (finish_call key i result err now m)"
proof -
  define m1 where "m1 = set_call i ((co_heap m ! i)\<lparr>mc_result := result, mc_err := err, mc_done := True,
    mc_cancelled := True\<rparr>) (m\<lparr>co_calls := AList.delete key (co_calls m)\<rparr>)"
  have keep: "from_calls m1"
    unfolding m1_def using assms(2,4)
    by (intro from_calls_mono [OF assms(1)]) (auto simp: set_call_def nth_list_update)
  have i: "i < length (co_heap m1)" "co_heap m1 ! i = (co_heap m ! i)\<lparr>mc_result := result, mc_err := err,
      mc_done := True, mc_cancelled := True\<rparr>"
    using assms(2) by (simp_all add: m1_def set_call_def)
  have "from_calls (cachePut key result now m1)" if "err = None"
  proof (cases "co_ttl m1 \<le> 0 \<or> result = None")
    case True
    with keep show ?thesis by (simp add: cachePut_def)
  next
    case False
    let ?kept = "make_room (co_max m1) (fresh_entries (co_ttl m1) now (co_cache m1))"
    have "set ?kept \<subseteq> set (co_cache m1)"
      using make_room_subset [of "co_max m1" "fresh_entries (co_ttl m1) now (co_cache m1)"]
      by (auto simp: fresh_entries_def)
    then have "set (AList.update key \<lparr>me_result = the result, me_observed = now\<rparr> ?kept) \<subseteq>
        insert (key, \<lparr>me_result = the result, me_observed = now\<rparr>) (set (co_cache m1))"
      using set_update_le by fastforce
    then have entries: "x = (key, \<lparr>me_result = the result, me_observed = now\<rparr>) \<or> x \<in> set (co_cache m1)"
      if "x \<in> set (co_cache (cachePut key result now m1))" for x
      using that False by (auto simp: cachePut_def)
    have "\<exists>j < length (co_heap m1). mc_done (co_heap m1 ! j) \<and> mc_err (co_heap m1 ! j) = None \<and>
        mc_key (co_heap m1 ! j) = key \<and> mc_result (co_heap m1 ! j) = Some (the result)"
      using i assms(3) that False by (intro exI [of _ i]) auto
    then have new: "\<exists>j < length (co_heap m1). mc_done (co_heap m1 ! j) \<and> mc_err (co_heap m1 ! j) = None \<and>
        mc_key (co_heap m1 ! j) = k \<and> mc_result (co_heap m1 ! j) = Some (me_result e)"
      if "(k, e) = (key, \<lparr>me_result = the result, me_observed = now\<rparr>)" for k e
      using that by simp
    show ?thesis
      unfolding from_calls_def cachePut_calls
    proof clarify
      fix k e assume "(k, e) \<in> set (co_cache (cachePut key result now m1))"
      from entries [OF this] new [of k e] keep
      show "\<exists>j < length (co_heap m1). mc_done (co_heap m1 ! j) \<and> mc_err (co_heap m1 ! j) = None \<and>
          mc_key (co_heap m1 ! j) = k \<and> mc_result (co_heap m1 ! j) = Some (me_result e)"
        unfolding from_calls_def by blast
    qed
  qed
  with keep show ?thesis by (simp add: finish_call_def Let_def m1_def)
qed

lemma share_step_inv:
  assumes "share_step x y" and "share_inv x" and "from_calls (fst x)" and "cache_ok (fst x)"
  shows "share_inv y \<and> from_calls (fst y) \<and> cache_ok (fst y) \<and> co_ttl (fst y) = co_ttl (fst x) \<and>
    co_max (fst y) = co_max (fst x)"
  using assms(1)
proof cases
  case (lookup key now m hit m' ws)
  note same = lookup_calls [OF lookup(3)]
  have "co_ttl m' = co_ttl m \<and> co_max m' = co_max m" using cacheGet_cache [OF lookup(3)] by auto
  moreover have "share_inv (m', ws)" using assms(2) lookup(1) same by (simp add: share_inv_def)
  moreover have "from_calls m" using assms(3) lookup(1) by simp
  then have "from_calls m'" by (rule from_calls_mono [OF _ same(3)]) (simp add: same(1))
  ultimately show ?thesis using lookup cacheGet_ok [OF lookup(3)] assms(4) by simp
next
  case (joining key rid argv m i leader m' ws)
  have "co_cache m' = co_cache m" "co_ttl m' = co_ttl m" "co_max m' = co_max m"
    using joining(4) by (auto simp: join_call_def set_call_def Let_def split: option.splits)
  moreover have "from_calls m" using assms(3) joining(1) by simp
  then have "from_calls m'"
    using joining(4)
    by (elim from_calls_mono)
      (auto simp: join_call_def set_call_def Let_def nth_append nth_update_if split: option.splits)
  ultimately show ?thesis
    using joining join_inv [OF joining(4)] assms(2,4) by (simp add: cache_ok_def)
next
  case (leaving m before key i "after")
  have "co_cache (release_call key i m) = co_cache m" "co_ttl (release_call key i m) = co_ttl m"
    "co_max (release_call key i m) = co_max m"
    by (simp_all add: release_call_def Let_def set_call_def)
  moreover have "from_calls m" using assms(3) leaving(1) by simp
  then have "from_calls (release_call key i m)"
    by (elim from_calls_mono) (auto simp: release_call_def Let_def set_call_def nth_update_if)
  ultimately show ?thesis using leaving release_inv assms(2,4) by (simp add: cache_ok_def)
next
  case (finishing i m key ws result err now)
  have key: "key \<noteq> []" using assms(2) finishing by (auto simp: share_inv_def call_ok_def)
  have "cache_ok (set_call i c (m\<lparr>co_calls := d\<rparr>))" for c d
    using assms(4) finishing(1) by (simp add: cache_ok_def set_call_def)
  then have "cache_ok (finish_call key i result err now m)"
    using cachePut_ok [OF key] by (simp add: finish_call_def Let_def)
  moreover have "co_ttl (finish_call key i result err now m) = co_ttl m"
    "co_max (finish_call key i result err now m) = co_max m"
    by (simp_all add: finish_call_def Let_def set_call_def)
  ultimately show ?thesis
    using finishing finish_inv finish_from_calls assms(2,3) by simp
qed

lemma shared_inv:
  assumes "shared ttl mx x"
  shows "share_inv x \<and> from_calls (fst x) \<and> cache_ok (fst x) \<and> co_ttl (fst x) = ttl \<and>
    co_max (fst x) = (if ttl \<le> 0 then 0 else mx)"
  using assms
proof induction
  case fresh
  then show ?case by (simp add: share_inv_def from_calls_def cache_ok_def newMetadataCoalescer_def)
next
  case (step x y)
  with share_step_inv [of x y] show ?case by simp
qed

section \<open>Properties\<close>

text \<open>
  C34. Leaving does not disturb the others. In every state the coalescer can reach, whoever
  joins, gives up, is answered, and whenever the shared runs end, the reference count of a
  call is the number of callers waiting for it, each of them waits for a call with its own
  key, and a run that is still going is cancelled exactly when nobody waits for it any more.
\<close>
theorem shared_run_cancelled_iff:
  assumes "shared ttl mx (m, ws)" and "i < length (co_heap m)"
  shows "mc_refs (co_heap m ! i) = int (length (filter (\<lambda>w. snd w = i) ws)) \<and>
    (\<forall>w \<in> set ws. snd w = i \<longrightarrow> fst w = mc_key (co_heap m ! i)) \<and>
    (\<not> mc_done (co_heap m ! i) \<longrightarrow> mc_cancelled (co_heap m ! i) = (i \<notin> snd ` set ws))"
proof -
  have inv: "share_inv (m, ws)" using shared_inv [OF assms(1)] by simp
  then have "call_ok (co_heap m ! i) (waiting ws i)" using assms(2) by (simp add: share_inv_def)
  moreover have "waiting ws i = 0 \<longleftrightarrow> i \<notin> snd ` set ws"
    by (auto simp: waiting_def filter_empty_conv)
  moreover have "\<forall>w \<in> set ws. snd w = i \<longrightarrow> fst w = mc_key (co_heap m ! i)"
    using inv by (auto simp: share_inv_def)
  ultimately show ?thesis by (simp add: call_ok_def waiting_def)
qed

text \<open>Two callers share a run, and one of them gives up.\<close>

definition version_key :: string where
  "version_key = metadataKey ''home'' [''version'']"

definition joined :: coalescer where
  "joined = snd (join_call version_key (newMetadataCoalescer 0 0))"

lemma join_fresh: "join_call version_key (newMetadataCoalescer 0 0) = ((0, True), joined)"
  by (simp add: joined_def join_call_def newMetadataCoalescer_def Let_def)

lemma shared_joined: "shared 0 0 (joined, [(version_key, 0)])"
  by (rule shared.step [OF shared.fresh])
    (rule share_step.joining [OF version_key_def [unfolded version_key_def] join_fresh [unfolded version_key_def],
      folded version_key_def])

theorem shared_run_cancelled_iff_witness:
  "shared 0 0 (joined, [(version_key, 0)]) \<and> \<not> mc_cancelled (co_heap joined ! 0)"
  using shared_run_cancelled_iff [OF shared_joined, of 0] shared_joined
  by (simp add: joined_def join_call_def newMetadataCoalescer_def Let_def)

text \<open>
  C35. The metadata cache. In every reachable state the cache holds at most
  \<open>metadata_cache_max_entries\<close> results, one per key, each of them the result of a call of that
  very key that ended without an error; and what a lookup returns was observed less than
  the configured time to live ago, and not in the future.
\<close>
theorem metadata_cache_sound:
  assumes "shared ttl mx (m, ws)"
  shows "int (length (co_cache m)) \<le> max 1 mx \<and> distinct (map fst (co_cache m)) \<and>
    (case cacheGet key now m of
       (None, m') \<Rightarrow> True
     | (Some (result, observed), m') \<Rightarrow>
         observed \<le> now \<and> now < observed + ttl \<and>
         (\<exists>i < length (co_heap m). mc_done (co_heap m ! i) \<and> mc_err (co_heap m ! i) = None \<and>
            mc_key (co_heap m ! i) = key \<and> mc_result (co_heap m ! i) = Some result))"
proof -
  have inv: "from_calls m" "cache_ok m" "co_ttl m = ttl" "co_max m = (if ttl \<le> 0 then 0 else mx)"
    using shared_inv [OF assms] by simp_all
  have "int (length (co_cache m)) \<le> max 1 mx" "distinct (map fst (co_cache m))"
    using inv by (auto simp: cache_ok_def split: if_splits)
  moreover have "observed \<le> now \<and> now < observed + ttl \<and>
      (\<exists>i < length (co_heap m). mc_done (co_heap m ! i) \<and> mc_err (co_heap m ! i) = None \<and>
         mc_key (co_heap m ! i) = key \<and> mc_result (co_heap m ! i) = Some result)"
    if "cacheGet key now m = (Some (result, observed), m')" for result observed m'
  proof -
    from that obtain e where e: "map_of (co_cache m) key = Some e" "result = me_result e" "observed = me_observed e"
        "\<not> now - observed < 0" "\<not> now - observed \<ge> co_ttl m"
      by (auto simp: cacheGet_def Let_def split: option.splits if_splits)
    from inv(1) map_of_SomeD [OF e(1)] e(2)
    have "\<exists>i < length (co_heap m). mc_done (co_heap m ! i) \<and> mc_err (co_heap m ! i) = None \<and>
        mc_key (co_heap m ! i) = key \<and> mc_result (co_heap m ! i) = Some result"
      unfolding from_calls_def by blast
    with e inv(3) show ?thesis by simp
  qed
  ultimately show ?thesis by (cases "cacheGet key now m") (auto split: option.splits)
qed

theorem metadata_cache_sound_witness:
  "shared 0 0 (joined, [(version_key, 0)]) \<and> int (length (co_cache joined)) \<le> 1"
  using metadata_cache_sound [OF shared_joined] shared_joined by simp

text \<open>
  Coalescing can be lost. After a caller has given up, a second one starts a run of the
  same command; when the abandoned run then ends, \<open>finish\<close> removes the second run from the
  map, and a third caller starts another: two runs of one command, both wanted and neither
  cancelled, are in flight at once.
\<close>
theorem coalescing_lost:
  "\<exists>m ws i j. shared 0 0 (m, ws) \<and> i \<noteq> j \<and> i < length (co_heap m) \<and> j < length (co_heap m) \<and>
     mc_key (co_heap m ! i) = mc_key (co_heap m ! j) \<and>
     \<not> mc_done (co_heap m ! i) \<and> \<not> mc_done (co_heap m ! j) \<and>
     i \<in> snd ` set ws \<and> j \<in> snd ` set ws"
proof -
  define m1 where "m1 = release_call version_key 0 joined"
  define m2 where "m2 = snd (join_call version_key m1)"
  define m3 where "m3 = finish_call version_key 0 None (Some request_cancelled) 0 m2"
  define m4 where "m4 = snd (join_call version_key m3)"
  note eval = joined_def join_call_def newMetadataCoalescer_def Let_def release_call_def set_call_def
    m1_def m2_def m3_def m4_def finish_call_def
  have join2: "join_call version_key m1 = ((1, True), m2)" and join3: "join_call version_key m3 = ((2, True), m4)"
    by (simp_all add: eval)
  have s1: "shared 0 0 (m1, [])"
    using shared.step [OF shared_joined] share_step.leaving [of joined "[]" version_key 0 "[]"]
    by (simp add: m1_def)
  have s2: "shared 0 0 (m2, [(version_key, 1)])"
    using shared.step [OF s1] share_step.joining [OF version_key_def join2] by blast
  have s3: "shared 0 0 (m3, [(version_key, 1)])"
  proof -
    have "0 < length (co_heap m2)" "\<not> mc_done (co_heap m2 ! 0)" "version_key = mc_key (co_heap m2 ! 0)"
      by (simp_all add: eval)
    then show ?thesis unfolding m3_def by (intro shared.step [OF s2] share_step.finishing)
  qed
  have s4: "shared 0 0 (m4, [(version_key, 2), (version_key, 1)])"
    using shared.step [OF s3] share_step.joining [OF version_key_def join3] by blast
  show ?thesis
    by (intro exI [of _ m4] exI [of _ "[(version_key, 2), (version_key, 1)]"] exI [of _ 1] exI [of _ 2])
      (use s4 in \<open>simp add: eval\<close>)
qed

end
