(* ===== verification/Selection.thy ===== *)
theory Selection
  imports Registry Snapshots Window Metadata
begin

text \<open>
  The selection of snapshots of \<open>internal/mcpserver/selection.go\<close>: which snapshots a request
  selects, what of them is shown, and how a prefix or \<open>latest\<close> becomes one snapshot.
  \<open>RunMetadata\<close> is an argument, a function of the repository, the argument vector and the
  rest of the system \<open>'s\<close>, which it may change: what it answers depends on the cache, on
  the callers it shares a run with and on the child process (see \<open>Metadata\<close>).
\<close>

type_synonym 's metadata = "string \<Rightarrow> string list \<Rightarrow> 's \<Rightarrow> (run_result \<times> observation) res \<times> 's"

section \<open>Scopes\<close>

definition pathIsUnderAllow :: "string \<Rightarrow> string \<Rightarrow> bool" where
  "pathIsUnderAllow child parent =
     (if child = parent then True
      else if parent = ''/'' then length child > 0 \<and> child ! 0 = CHR ''/''
      else length child > length parent \<and> take (length parent) child = parent \<and>
           child ! length parent = CHR ''/'')"

definition pathsOverlap :: "string \<Rightarrow> string \<Rightarrow> bool" where
  "pathsOverlap a b \<longleftrightarrow> pathIsUnderAllow a b \<or> pathIsUnderAllow b a"

definition statsSnapshotAllowed :: "entry \<Rightarrow> snapshot \<Rightarrow> bool" where
  "statsSnapshotAllowed e s =
     (if pp_allowed (en_paths e) = [] then True
      else if sn_paths s = [] then False
      else list_all (\<lambda>raw. case CleanPath raw of
               Inl _ \<Rightarrow> False
             | Inr cleaned \<Rightarrow> is_allowed (en_paths e) cleaned) (sn_paths s))"

definition policyVisible :: "entry \<Rightarrow> snapshot \<Rightarrow> bool" where
  "policyVisible e s =
     snapshot_visible (sn_hostname s) (sn_tags s) (sn_paths s) (en_hosts e) (en_tags e) (en_paths e)"

section \<open>What is shown\<close>

definition publicSnapshot :: "entry \<Rightarrow> snapshot \<Rightarrow> snapshot" where
  "publicSnapshot e s =
     s\<lparr>sn_summary := (if statsSnapshotAllowed e s then sn_summary s else None),
       sn_paths := map SanitizeAndRedact (filter_paths (en_paths e) (sn_paths s)),
       sn_tags := map SanitizeAndRedact (filter_tags (en_tags e) (sn_tags s)),
       sn_hostname := SanitizeAndRedact (sn_hostname s),
       sn_program_version := SanitizeAndRedact (sn_program_version s),
       sn_username := [], sn_parent := [], sn_tree := []\<rparr>"

section \<open>Filters\<close>

definition matchesSnapshotFilters :: "snapshot \<Rightarrow> string \<Rightarrow> string list \<Rightarrow> string \<Rightarrow> bool" where
  "matchesSnapshotFilters s host tags requestPath =
     (if host \<noteq> [] \<and> sn_hostname s \<noteq> host then False
      else if \<not> list_all (\<lambda>t. list_ex (\<lambda>u. u = t) (sn_tags s)) tags then False
      else if requestPath = [] then True
      else list_ex (\<lambda>p. case CleanPath p of
               Inl _ \<Rightarrow> False
             | Inr cleaned \<Rightarrow> pathsOverlap requestPath cleaned) (sn_paths s))"

definition snapshotIDMatches :: "string \<Rightarrow> string \<Rightarrow> bool" where
  "snapshotIDMatches snapshotID selector =
     (if length selector > length snapshotID then False
      else equal_fold (take (length selector) snapshotID) selector)"

definition validateLatestScope :: "entry \<Rightarrow> string \<Rightarrow> string list \<Rightarrow> string \<Rightarrow> unit res" where
  "validateLatestScope e host tags requestPath =
     (if host = [] \<and> tags = [] \<and> requestPath = [] \<and> length (hp_allowed (en_hosts e)) \<noteq> 1
      then Inl (new_error InvalidArgument ''latest requires a host, tag, or path filter'')
      else Inr ())"

section \<open>Selecting\<close>

text \<open>The checks on the request: the options of the command and the cleaned scope.\<close>

definition selection_opts ::
    "entry \<Rightarrow> string \<Rightarrow> string \<Rightarrow> string list \<Rightarrow> string \<Rightarrow> (snapshots_opts \<times> string) res" where
  "selection_opts e selector host tags requestPath =
     (case (if host \<noteq> [] then check_host (en_hosts e) host else Inr ()) of
        Inl err \<Rightarrow> Inl err
      | Inr _ \<Rightarrow>
     (case (if tags \<noteq> [] then check_each_tag (en_tags e) tags else Inr ()) of
        Inl err \<Rightarrow> Inl err
      | Inr _ \<Rightarrow>
     (case (if requestPath \<noteq> [] then check_path (en_paths e) requestPath else Inr []) of
        Inl err \<Rightarrow> Inl err
      | Inr cleaned \<Rightarrow>
          Inr (no_snapshots_opts\<lparr>
                 so_hosts := (if host \<noteq> [] then [host]
                              else if length (hp_allowed (en_hosts e)) = 1 then hp_allowed (en_hosts e)
                              else []),
                 so_tags := tags,
                 so_ids := (if selector \<noteq> [] \<and> selector \<noteq> ''latest'' \<and> length selector = 64
                            then [selector] else [])\<rparr>, cleaned))))"

text \<open>The command, its run and the parsing of what it printed.\<close>

definition fetch_snapshots ::
    "'s metadata \<Rightarrow> string \<Rightarrow> (go_error \<Rightarrow> go_error) \<Rightarrow> snapshots_opts \<Rightarrow> 's \<Rightarrow>
     (snapshot list \<times> observation) res \<times> 's" where
  "fetch_snapshots metadata rid bad opts w =
     (case BuildSnapshotsArgv opts of
        Inl err \<Rightarrow> (Inl (bad err), w)
      | Inr argv \<Rightarrow>
     (case metadata rid argv w of
        (Inl err, w') \<Rightarrow> (Inl err, w')
      | (Inr (res, obs), w') \<Rightarrow>
          (case ParseSnapshots (rr_stdout res) of
             Inl err \<Rightarrow> (Inl err, w')
           | Inr snapshots \<Rightarrow> (Inr (snapshots, obs), w'))))"

definition bad_filter :: "go_error \<Rightarrow> go_error" where
  "bad_filter err = new_error InvalidArgument (error_string err)"

definition selected ::
    "entry \<Rightarrow> string \<Rightarrow> string \<Rightarrow> string list \<Rightarrow> string \<Rightarrow> time_window \<Rightarrow> snapshot \<Rightarrow> bool" where
  "selected e selector host tags requestPath window s =
     (if \<not> policyVisible e s then False
      else if \<not> window_contains window (sn_time s) \<or> \<not> matchesSnapshotFilters s host tags requestPath
        then False
      else if selector \<noteq> [] \<and> selector \<noteq> ''latest'' \<and> \<not> snapshotIDMatches (sn_id s) selector then False
      else True)"

definition visibleSnapshots ::
    "'s metadata \<Rightarrow> entry \<Rightarrow> string \<Rightarrow> string \<Rightarrow> string \<Rightarrow> string list \<Rightarrow> string \<Rightarrow> time_window \<Rightarrow> 's \<Rightarrow>
     snapshot list res \<times> 's" where
  "visibleSnapshots metadata e rid selector host tags requestPath window w =
     (case selection_opts e selector host tags requestPath of
        Inl err \<Rightarrow> (Inl err, w)
      | Inr (opts, scope) \<Rightarrow>
     (case fetch_snapshots metadata rid bad_filter opts w of
        (Inl err, w') \<Rightarrow> (Inl err, w')
      | (Inr (snapshots, _), w') \<Rightarrow>
          (Inr (filter (selected e selector host tags scope window) snapshots), w')))"

definition resolve_one :: "string \<Rightarrow> snapshot list \<Rightarrow> snapshot res" where
  "resolve_one selector snapshots =
     (if length snapshots = 0 then Inl (new_error SnapshotNotFound ''snapshot not found'')
      else if selector \<noteq> ''latest'' \<and> length snapshots > 1
        then Inl (new_error AmbiguousSnapshot ''snapshot id prefix matches multiple snapshots'')
      else Inr (snapshots ! 0))"

definition resolveVisibleSnapshot ::
    "'s metadata \<Rightarrow> entry \<Rightarrow> string \<Rightarrow> string \<Rightarrow> string \<Rightarrow> string list \<Rightarrow> string \<Rightarrow> time_window \<Rightarrow> 's \<Rightarrow>
     snapshot res \<times> 's" where
  "resolveVisibleSnapshot metadata e rid selector host tags requestPath window w =
     (case visibleSnapshots metadata e rid selector host tags requestPath window w of
        (Inl err, w') \<Rightarrow> (Inl err, w')
      | (Inr snapshots, w') \<Rightarrow> (resolve_one selector snapshots, w'))"

text \<open>
  The map from ids to snapshots keeps the last snapshot of an id; the ids are looked up in
  their order, up to the first that is gone or no longer visible.
\<close>

definition by_id :: "snapshot list \<Rightarrow> string \<Rightarrow> snapshot option" where
  "by_id snapshots sid = map_of (rev (map (\<lambda>s. (sn_id s, s)) snapshots)) sid"

definition restore_selection :: "entry \<Rightarrow> snapshot list \<Rightarrow> string list \<Rightarrow> snapshot list res" where
  "restore_selection e snapshots ids =
     map_res (\<lambda>sid. case by_id snapshots sid of
         Some s \<Rightarrow>
           if policyVisible e s then Inr s
           else Inl (new_error StaleSelection ''snapshot selection changed; restart pagination'')
       | None \<Rightarrow> Inl (new_error StaleSelection ''snapshot selection changed; restart pagination'')) ids"

definition snapshotsByIDs ::
    "'s metadata \<Rightarrow> entry \<Rightarrow> string \<Rightarrow> string list \<Rightarrow> 's \<Rightarrow> snapshot list res \<times> 's" where
  "snapshotsByIDs metadata e rid ids w =
     (if ids = [] then (Inl (new_error StaleSelection ''snapshot selection is empty or stale''), w)
      else case fetch_snapshots metadata rid
                  (with_cause (new_error InternalError ''invalid stored snapshot selection''))
                  (no_snapshots_opts\<lparr>so_ids := ids\<rparr>) w of
        (Inl err, w') \<Rightarrow> (Inl err, w')
      | (Inr (snapshots, _), w') \<Rightarrow> (restore_selection e snapshots ids, w'))"

section \<open>Scope tests agree\<close>

text \<open>\<open>pathIsUnderAllow\<close> is \<open>policy.pathUnder\<close> written with slices.\<close>

lemma slice_prefix:
  "length child > length parent \<and> take (length parent) child = parent \<and> child ! length parent = c \<longleftrightarrow>
   prefix (parent @ [c]) child"
proof
  assume a: "length child > length parent \<and> take (length parent) child = parent \<and> child ! length parent = c"
  then have "child = parent @ child ! length parent # drop (Suc (length parent)) child"
    by (metis id_take_nth_drop)
  with a show "prefix (parent @ [c]) child"
    by (metis append.assoc append_Cons append_Nil prefixI)
qed (auto elim!: prefixE)

lemma pathIsUnderAllow_eq: "pathIsUnderAllow child parent = path_under child parent"
  using slice_prefix [of parent child "CHR ''/''"]
  by (cases child) (auto simp: pathIsUnderAllow_def path_under_def)

section \<open>What is selected\<close>

lemma policyVisible_scope:
  assumes "policyVisible e s"
  shows "allows_host (en_hosts e) (sn_hostname s)"
    and "tp_set (en_tags e) \<noteq> {} \<Longrightarrow> \<exists>t \<in> set (sn_tags s). t \<in> tp_set (en_tags e)"
    and "pp_allowed (en_paths e) \<noteq> [] \<Longrightarrow> filter_paths (en_paths e) (sn_paths s) \<noteq> []"
  using assms by (auto simp: policyVisible_def snapshot_visible_def list_ex_iff split: if_splits)

lemma matchesSnapshotFilters_iff:
  "matchesSnapshotFilters s host tags scope \<longleftrightarrow>
     (host = [] \<or> sn_hostname s = host) \<and> set tags \<subseteq> set (sn_tags s) \<and>
     (scope = [] \<or> (\<exists>p \<in> set (sn_paths s). \<exists>c. CleanPath p = Inr c \<and>
        (path_under scope c \<or> path_under c scope)))"
proof -
  have root: "(case CleanPath p of Inl _ \<Rightarrow> False | Inr c \<Rightarrow> pathsOverlap scope c) \<longleftrightarrow>
      (\<exists>c. CleanPath p = Inr c \<and> (path_under scope c \<or> path_under c scope))" for p
    by (simp add: pathsOverlap_def pathIsUnderAllow_eq split: sum.split)
  show ?thesis
    unfolding matchesSnapshotFilters_def root by (auto simp: list_all_iff list_ex_iff)
qed

lemma visibleSnapshots_Inr:
  assumes "visibleSnapshots metadata e rid selector host tags path window w = (Inr ss, w')"
  obtains opts scope argv res obs parsed where
    "selection_opts e selector host tags path = Inr (opts, scope)"
    "BuildSnapshotsArgv opts = Inr argv" "metadata rid argv w = (Inr (res, obs), w')"
    "ParseSnapshots (rr_stdout res) = Inr parsed"
    "ss = filter (selected e selector host tags scope window) parsed"
  using assms
  by (auto simp: visibleSnapshots_def fetch_snapshots_def split: sum.splits prod.splits)

lemma selection_scope:
  assumes "selection_opts e selector host tags path = Inr (opts, scope)"
  shows "if path = [] then scope = [] else check_path (en_paths e) path = Inr scope"
  using assms by (auto simp: selection_opts_def split: sum.splits if_splits)

lemma parsed_sorted:
  assumes "ParseSnapshots bytes = Inr ss"
  shows "sorted_wrt (\<lambda>a b. \<not> snapshot_before b a) ss"
  using ParseSnapshots_Inr [OF assms] snap.sorted_sort_by by metis

lemma resolve_one_Inr:
  "resolve_one selector ss = Inr s \<longleftrightarrow>
     (\<exists>rest. ss = s # rest \<and> (selector \<noteq> ''latest'' \<longrightarrow> rest = []))"
  by (cases ss) (auto simp: resolve_one_def)

lemma by_id_Some:
  assumes "by_id ss sid = Some s"
  shows "s \<in> set ss" and "sn_id s = sid"
  using map_of_SomeD [OF assms [unfolded by_id_def]] by auto

lemma restore_selection_Inr:
  assumes "restore_selection e parsed ids = Inr ss"
  shows "list_all2 (\<lambda>sid s. sn_id s = sid \<and> s \<in> set parsed \<and> policyVisible e s) ids ss"
  using assms unfolding restore_selection_def map_res_Inr
  by (rule list_all2_mono) (auto dest: by_id_Some split: option.splits if_splits)

lemma snapshotsByIDs_Inr:
  assumes "snapshotsByIDs metadata e rid ids w = (Inr ss, w')"
  shows "ids \<noteq> [] \<and> list_all concrete_id ids \<and>
    (\<exists>argv res obs parsed. metadata rid argv w = (Inr (res, obs), w') \<and>
       ParseSnapshots (rr_stdout res) = Inr parsed \<and>
       list_all2 (\<lambda>sid s. sn_id s = sid \<and> s \<in> set parsed \<and> policyVisible e s) ids ss)"
proof -
  from assms obtain argv res obs parsed where r: "ids \<noteq> []"
    "BuildSnapshotsArgv (no_snapshots_opts\<lparr>so_ids := ids\<rparr>) = Inr argv"
    "metadata rid argv w = (Inr (res, obs), w')" "ParseSnapshots (rr_stdout res) = Inr parsed"
    "restore_selection e parsed ids = Inr ss"
    by (auto simp: snapshotsByIDs_def fetch_snapshots_def split: if_splits sum.splits prod.splits)
  have "add_ids flag sids start = Inr out \<Longrightarrow> list_all concrete_id sids" for flag sids start out
    by (induction flag sids start rule: add_ids.induct) (auto simp: concrete_id_def split: if_splits)
  then have "list_all concrete_id ids"
    using r(2) by (auto simp: BuildSnapshotsArgv_def no_snapshots_opts_def)
  with r(1,3,4) restore_selection_Inr [OF r(5)] show ?thesis by blast
qed

section \<open>What a request sees of the repository\<close>

text \<open>
  \<open>seen_now metadata rid parsed s'\<close>: a metadata call of this repository ended in the state
  \<open>s'\<close> with an output that holds the snapshots \<open>parsed\<close>.
\<close>

definition seen_now :: "'s metadata \<Rightarrow> string \<Rightarrow> snapshot list \<Rightarrow> 's \<Rightarrow> bool" where
  "seen_now metadata rid parsed s' \<longleftrightarrow>
     (\<exists>argv res obs s. metadata rid argv s = (Inr (res, obs), s') \<and>
        ParseSnapshots (rr_stdout res) = Inr parsed)"

lemma snapshotsByIDs_seen:
  assumes "snapshotsByIDs metadata e rid ids w = (Inr ss, w')"
  shows "ss \<noteq> [] \<and> map sn_id ss = ids \<and> list_all (policyVisible e) ss \<and>
    (\<exists>parsed. seen_now metadata rid parsed w' \<and> set ss \<subseteq> set parsed)"
proof -
  note r = snapshotsByIDs_Inr [OF assms]
  then obtain parsed where parsed: "seen_now metadata rid parsed w'"
    "list_all2 (\<lambda>sid s. sn_id s = sid \<and> s \<in> set parsed \<and> policyVisible e s) ids ss"
    unfolding seen_now_def by blast
  from parsed(2) have "map sn_id ss = ids \<and> list_all (policyVisible e) ss \<and> set ss \<subseteq> set parsed"
    by (induction rule: list_all2_induct) auto
  with parsed(1) r show ?thesis by auto
qed

lemma visibleSnapshots_seen:
  assumes "visibleSnapshots metadata e rid selector host tags path window w = (Inr ss, w')"
  shows "list_all (\<lambda>s. policyVisible e s \<and> window_contains window (sn_time s)) ss \<and>
    (\<exists>parsed. seen_now metadata rid parsed w' \<and> set ss \<subseteq> set parsed)"
proof -
  from assms obtain opts scope argv res obs parsed where
    fetch: "metadata rid argv w = (Inr (res, obs), w')" "ParseSnapshots (rr_stdout res) = Inr parsed"
    and ss: "ss = filter (selected e selector host tags scope window) parsed"
    by (rule visibleSnapshots_Inr)
  then have "seen_now metadata rid parsed w'" unfolding seen_now_def by blast
  moreover have "list_all (\<lambda>s. policyVisible e s \<and> window_contains window (sn_time s)) ss"
    by (auto simp: ss list_all_iff selected_def split: if_splits)
  ultimately show ?thesis using ss by auto
qed

lemma resolveVisibleSnapshot_seen:
  assumes "resolveVisibleSnapshot metadata e rid selector host tags path window w = (Inr s, w')"
  shows "policyVisible e s \<and> window_contains window (sn_time s) \<and>
    (\<exists>parsed. seen_now metadata rid parsed w' \<and> s \<in> set parsed)"
proof -
  from assms obtain ss where "visibleSnapshots metadata e rid selector host tags path window w = (Inr ss, w')"
    and "resolve_one selector ss = Inr s"
    by (auto simp: resolveVisibleSnapshot_def split: prod.splits sum.splits)
  from visibleSnapshots_seen [OF this(1)] this(2) show ?thesis
    by (auto simp: resolve_one_Inr)
qed

section \<open>Properties\<close>

text \<open>
  C20. What is shown of a snapshot. Every path of a public snapshot is the sanitized form of a
  path that is allowed and lies on or below a root of the snapshot, every tag the sanitized
  form of an allowed tag of the snapshot; the summary, which counts the whole snapshot, is
  shown only when every root is allowed; user name, parent and tree are never shown.
\<close>
theorem publicSnapshot_confined:
  "(\<forall>p \<in> set (sn_paths (publicSnapshot e s)). \<exists>v root c. p = SanitizeAndRedact v \<and>
      is_allowed (en_paths e) v \<and> root \<in> set (sn_paths s) \<and> CleanPath root = Inr c \<and> path_under v c) \<and>
   (\<forall>t \<in> set (sn_tags (publicSnapshot e s)). \<exists>u. t = SanitizeAndRedact u \<and> u \<in> set (sn_tags s) \<and>
      (tp_set (en_tags e) = {} \<or> u \<in> tp_set (en_tags e))) \<and>
   (sn_summary (publicSnapshot e s) = None \<or> pp_allowed (en_paths e) = [] \<or>
      (\<forall>root \<in> set (sn_paths s). \<exists>c. CleanPath root = Inr c \<and> is_allowed (en_paths e) c)) \<and>
   sn_username (publicSnapshot e s) = [] \<and> sn_parent (publicSnapshot e s) = [] \<and>
   sn_tree (publicSnapshot e s) = []"
proof -
  have "\<exists>v root c. p = SanitizeAndRedact v \<and> is_allowed (en_paths e) v \<and> root \<in> set (sn_paths s) \<and>
      CleanPath root = Inr c \<and> path_under v c" if "p \<in> set (sn_paths (publicSnapshot e s))" for p
  proof -
    from that obtain v where v: "v \<in> set (filter_paths (en_paths e) (sn_paths s))" "p = SanitizeAndRedact v"
      by (auto simp: publicSnapshot_def)
    then obtain root c where "root \<in> set (sn_paths s)" "CleanPath root = Inr c" "v \<in> visible_of (en_paths e) c"
      by (auto simp: filter_paths_set)
    with v(2) visible_of_under show ?thesis by blast
  qed
  moreover have "\<exists>u. t = SanitizeAndRedact u \<and> u \<in> set (sn_tags s) \<and>
      (tp_set (en_tags e) = {} \<or> u \<in> tp_set (en_tags e))" if "t \<in> set (sn_tags (publicSnapshot e s))" for t
    using that by (auto simp: publicSnapshot_def filter_tags_def split: if_splits)
  moreover have "\<exists>c. CleanPath root = Inr c \<and> is_allowed (en_paths e) c"
    if "statsSnapshotAllowed e s" "pp_allowed (en_paths e) \<noteq> []" "root \<in> set (sn_paths s)" for root
    using that by (cases "CleanPath root") (auto simp: statsSnapshotAllowed_def list_all_iff split: if_splits)
  ultimately show ?thesis by (auto simp: publicSnapshot_def)
qed

text \<open>A listing of one snapshot, as restic prints it, and a repository that sees everything.\<close>

definition sample_doc :: string where
  "sample_doc = ''[{\"id\":\"deadbeef\"}]''"

definition sample_snapshot :: snapshot where
  "sample_snapshot =
     \<lparr>sn_time = zero_time, sn_parent = [], sn_tree = [], sn_paths = [], sn_hostname = [],
      sn_username = [], sn_tags = [], sn_id = ''deadbeef'', sn_program_version = [], sn_summary = None\<rparr>"

definition open_entry :: entry where
  "open_entry =
     \<lparr>en_id = ''home'', en_label = [], en_backend = BackendLocal, en_hosts = new_host_policy [],
      en_tags = new_tag_policy [], en_paths = \<lparr>pp_allowed = []\<rparr>, en_slots = 1, en_child_env = []\<rparr>"

definition printed :: "string \<Rightarrow> unit metadata" where
  "printed out rid argv w =
     (Inr (\<lparr>rr_stdout = out, rr_stderr = [], rr_exit_code = 0, rr_duration = 0\<rparr>, no_observation), w)"

lemma sample_parse: "ParseSnapshots sample_doc = Inr [sample_snapshot]"
proof -
  let ?raw = "zero_raw_snapshot\<lparr>rs_id := ''deadbeef''\<rparr>"
  have trim: "trim_space sample_doc = sample_doc"
    by (simp add: sample_doc_def trim_space_def rune_chunks_ascii byte_def is_space_def)
  have json: "json_unmarshal sample_doc = Some (JArr [JObj [(''id'', JStr ''deadbeef'')]])"
    by (simp add: sample_doc_def json_unmarshal_def scan_simps)
  have dec: "dec_raw_snapshots (JArr [JObj [(''id'', JStr ''deadbeef'')]]) = Some [?raw]"
    by (simp add: dec_raw_snapshots_def raw_snapshot_field_def dec_simps unquote.simps unquote_head_def)
  have "SanitizeString ''deadbeef'' = ''deadbeef''" "SanitizeString [] = []"
    by (simp_all add: sanitize_simps)
  then have "normalizeSnapshot ?raw = Inr sample_snapshot"
    by (simp add: normalizeSnapshot_def zero_raw_snapshot_def valid_snapshot_id_def is_hex_def
        runes_def clean_snapshot_paths_def check_snapshot_tags_def rune_chunks_ascii byte_def
        Let_def sample_snapshot_def)
  moreover have "sample_doc \<noteq> []" by (simp add: sample_doc_def)
  ultimately show ?thesis
    unfolding ParseSnapshots_def trim Let_def json by (simp add: dec)
qed

lemma sample_resolve:
  "resolveVisibleSnapshot (printed sample_doc) open_entry ''home'' ''DEADBEEF'' [] [] []
     \<lparr>tw_after = None, tw_before = None\<rparr> () = (Inr sample_snapshot, ())"
proof -
  have "selected open_entry ''DEADBEEF'' [] [] [] \<lparr>tw_after = None, tw_before = None\<rparr> sample_snapshot"
    by (simp add: selected_def policyVisible_def snapshot_visible_def open_entry_def sample_snapshot_def
        allows_host_def check_host_def new_host_policy_def new_tag_policy_def window_contains_def
        matchesSnapshotFilters_def snapshotIDMatches_def equal_fold_def to_lower_def lower_char_def
        byte_in_def byte_def char_of_def bit_Suc_0_iff)
  then show ?thesis
    by (simp add: resolveVisibleSnapshot_def visibleSnapshots_def selection_opts_def fetch_snapshots_def
        printed_def sample_parse BuildSnapshotsArgv_def no_snapshots_opts_def open_entry_def [symmetric]
        resolve_one_def) (simp add: open_entry_def new_host_policy_def)
qed

lemma sample_by_ids:
  "snapshotsByIDs (printed sample_doc) open_entry ''home'' [''deadbeef''] () = (Inr [sample_snapshot], ())"
proof -
  have "policyVisible open_entry sample_snapshot" "sn_id sample_snapshot = ''deadbeef''"
    by (simp_all add: policyVisible_def snapshot_visible_def open_entry_def sample_snapshot_def
        allows_host_def check_host_def new_host_policy_def new_tag_policy_def)
  then show ?thesis
    by (simp add: snapshotsByIDs_def fetch_snapshots_def printed_def sample_parse
        BuildSnapshotsArgv_def no_snapshots_opts_def valid_snapshot_id_def is_hex_def runes_def
        rune_chunks_ascii byte_def restore_selection_def by_id_def)
qed

theorem publicSnapshot_confined_witness:
  "sn_paths (publicSnapshot open_entry (sample_snapshot\<lparr>sn_paths := [''/srv//./data/'']\<rparr>)) =
     [SanitizeAndRedact ''/srv/data''] \<and>
   (\<exists>v. SanitizeAndRedact ''/srv/data'' = SanitizeAndRedact v \<and> is_allowed (en_paths open_entry) v \<and>
      path_under v ''/srv/data'')"
proof -
  let ?s = "sample_snapshot\<lparr>sn_paths := [''/srv//./data/'']\<rparr>"
  have shown: "sn_paths (publicSnapshot open_entry ?s) = [SanitizeAndRedact ''/srv/data'']"
    by (simp add: publicSnapshot_def filter_paths_def CleanPath_srv_data open_entry_def push_unseen_def)
  have "SanitizeAndRedact ''/srv/data'' \<in> set (sn_paths (publicSnapshot open_entry ?s))"
    by (simp add: shown)
  from bspec [OF conjunct1 [OF publicSnapshot_confined] this] shown show ?thesis
    by (auto simp: CleanPath_srv_data)
qed

text \<open>
  C36. A selector names at most one snapshot. When a request resolves to a snapshot, it is one
  that restic printed, visible under the policy, in the window and matching the filters and
  the selector. For a prefix no other visible match exists; for \<open>latest\<close> no visible match is
  newer. The scope the filters use is the requested path after its check.
\<close>
theorem resolveVisibleSnapshot_spec:
  assumes "resolveVisibleSnapshot metadata e rid selector host tags path window w = (Inr s, w')"
  shows "\<exists>argv res obs parsed scope. metadata rid argv w = (Inr (res, obs), w') \<and>
    ParseSnapshots (rr_stdout res) = Inr parsed \<and> s \<in> set parsed \<and>
    (if path = [] then scope = [] else check_path (en_paths e) path = Inr scope) \<and>
    policyVisible e s \<and> window_contains window (sn_time s) \<and> matchesSnapshotFilters s host tags scope \<and>
    (selector \<noteq> [] \<longrightarrow> selector \<noteq> ''latest'' \<longrightarrow>
       equal_fold (take (length selector) (sn_id s)) selector) \<and>
    (\<forall>t \<in> set parsed. selected e selector host tags scope window t \<longrightarrow>
       (if selector = ''latest'' then \<not> snapshot_before t s else t = s))"
proof -
  from assms obtain ss where vis: "visibleSnapshots metadata e rid selector host tags path window w = (Inr ss, w')"
    and one: "resolve_one selector ss = Inr s"
    by (auto simp: resolveVisibleSnapshot_def split: prod.splits sum.splits)
  from vis obtain opts scope argv res obs parsed where
    fetch: "selection_opts e selector host tags path = Inr (opts, scope)"
      "metadata rid argv w = (Inr (res, obs), w')" "ParseSnapshots (rr_stdout res) = Inr parsed"
    and ss: "ss = filter (selected e selector host tags scope window) parsed"
    by (rule visibleSnapshots_Inr)
  from one obtain rest where rest: "ss = s # rest" "selector \<noteq> ''latest'' \<longrightarrow> rest = []"
    by (auto simp: resolve_one_Inr)
  then have s: "s \<in> set parsed" "selected e selector host tags scope window s"
    using arg_cong [OF ss, of set] by auto
  have "if selector = ''latest'' then \<not> snapshot_before t s else t = s"
    if "t \<in> set parsed" "selected e selector host tags scope window t" for t
  proof -
    have t: "t \<in> set (s # rest)" using that ss rest(1) by auto
    have "sorted_wrt (\<lambda>a b. \<not> snapshot_before b a) (s # rest)"
      using parsed_sorted [OF fetch(3)] sorted_wrt_filter ss rest(1) by metis
    with t rest(2) show ?thesis by (auto simp: snapshot_before_def)
  qed
  then have unique: "\<forall>t \<in> set parsed. selected e selector host tags scope window t \<longrightarrow>
       (if selector = ''latest'' then \<not> snapshot_before t s else t = s)" by blast
  have sel: "policyVisible e s" "window_contains window (sn_time s)"
    "matchesSnapshotFilters s host tags scope"
    "selector \<noteq> [] \<longrightarrow> selector \<noteq> ''latest'' \<longrightarrow> equal_fold (take (length selector) (sn_id s)) selector"
    using s(2) unfolding selected_def snapshotIDMatches_def by (auto split: if_splits)
  show ?thesis
    by (intro exI conjI) (rule fetch(2) fetch(3) s(1) selection_scope [OF fetch(1)] sel unique)+
qed

theorem resolveVisibleSnapshot_spec_witness:
  "policyVisible open_entry sample_snapshot"
  using resolveVisibleSnapshot_spec [OF sample_resolve] by blast

text \<open>
  Continuing a page re-authorizes it. The snapshots of a stored selection are given back
  in the stored order, each with its id, each among those restic printed now and visible
  under the policy now; otherwise the call fails.
\<close>
theorem snapshotsByIDs_current:
  assumes "snapshotsByIDs metadata e rid ids w = (Inr ss, w')"
  shows "ids \<noteq> [] \<and> list_all concrete_id ids \<and>
    (\<exists>argv res obs parsed. metadata rid argv w = (Inr (res, obs), w') \<and>
       ParseSnapshots (rr_stdout res) = Inr parsed \<and>
       list_all2 (\<lambda>sid s. sn_id s = sid \<and> s \<in> set parsed \<and> policyVisible e s) ids ss)"
  by (rule snapshotsByIDs_Inr [OF assms])

theorem snapshotsByIDs_current_witness:
  "\<exists>ss. snapshotsByIDs (printed sample_doc) open_entry ''home'' [''deadbeef''] () = (Inr ss, ()) \<and>
     list_all2 (\<lambda>sid s. sn_id s = sid \<and> policyVisible open_entry s) [''deadbeef''] ss"
  using snapshotsByIDs_current [OF sample_by_ids] sample_by_ids by (auto simp: list_all2_Cons1)

end
