(* ===== verification/Contract.thy ===== *)
theory Contract
  imports Selection Cursor ScanFind
begin

text \<open>
  The response contract of \<open>internal/mcpserver/contract.go\<close> and the dependencies of
  \<open>server.go\<close>: the data every tool answers with, the success envelope and its bound, the
  error payload, and the audit of refusals. A handler is a function of its input and of the
  state \<open>world\<close> it changes, the cursor store, the audit trail and the rest of the system.
  \<open>json.Marshal\<close> is a field of the dependencies: the code uses only whether it fails and how
  long its result is.
\<close>

section \<open>Tool data\<close>

record window_data =
  wd_after :: "string option"
  wd_before :: "string option"
  wd_bounded :: bool

record capabilities_limits =
  cl_command_timeout_sec :: int
  cl_expensive_timeout_sec :: int
  cl_max_snapshots :: int
  cl_max_nodes :: int
  cl_max_find_results :: int
  cl_max_output_bytes :: int
  cl_max_scan_bytes :: int
  cl_max_decoded :: int
  cl_max_response_bytes :: int
  cl_per_repo :: int
  cl_global :: int
  cl_cache_ttl_sec :: int
  cl_cache_entries :: int

record capabilities_data =
  cd_server_version :: string
  cd_restic_version :: string
  cd_repository_ids :: "string list"
  cd_supported :: "string list"
  cd_unsupported :: "string list"
  cd_allowed_commands :: "string list"
  cd_forbidden_commands :: "string list"
  cd_tools :: "string list"
  cd_cost_classes :: "string list"
  cd_limits :: capabilities_limits
  cd_warnings :: "string list"

record cache_data =
  mc_enabled :: bool
  mc_hit :: bool
  mc_observed_at :: string
  mc_age_seconds :: int
  mc_ttl_seconds :: int

record freshness_scope =
  fc_hosts :: "string list"
  fc_tags :: "string list"
  fc_paths :: "string list"
  fc_window :: window_data

record freshness_group =
  fg_key :: string
  fg_hostname :: string
  fg_tags :: "string list"
  fg_latest_id :: string
  fg_latest_time :: string
  fg_age_seconds :: int
  fg_cadence :: string
  fg_overdue :: "bool option"
  fg_partial :: bool
  fg_count :: nat

record hidden_scope =
  hd_hosts :: bool
  hd_tags :: bool
  hd_paths :: bool

record freshness_data =
  fd_observed_at :: string
  fd_status :: string
  fd_group_by :: string
  fd_cadence :: string
  fd_scope :: freshness_scope
  fd_groups :: "freshness_group list"
  fd_no_visible :: bool
  fd_partial :: bool
  fd_incomplete :: bool
  fd_hidden :: hidden_scope
  fd_notes :: "string list"

record list_snapshots_data =
  ls_snapshots :: "snapshot list"
  ls_count :: int
  ls_total :: int
  ls_offset :: int
  ls_limit :: int
  ls_window :: window_data
  ls_next_cursor :: "string option"
  ls_freshness :: "freshness_data option"
  ls_cache :: "cache_data option"

record browse_data =
  bd_path :: string
  bd_nodes :: "node list"
  bd_count :: int
  bd_total :: "int option"
  bd_recursive :: bool
  bd_incomplete :: bool
  bd_scan_complete :: bool
  bd_budget_exhausted :: bool
  bd_next_cursor :: "string option"

record find_data =
  fi_groups :: "find_group list"
  fi_count :: int
  fi_total :: "int option"
  fi_incomplete :: bool
  fi_scan_complete :: bool
  fi_budget_exhausted :: bool
  fi_window :: window_data
  fi_next_cursor :: "string option"

record stats_data =
  sd_mode :: string
  sd_stats :: stats_result
  sd_method :: string
  sd_notes :: "string list"
  sd_selected :: int
  sd_excluded :: int
  sd_window :: window_data

text \<open>The value of the field \<open>Data\<close> of an envelope.\<close>

datatype tool_data =
    CapabilitiesData capabilities_data
  | RepositoriesData "public_info list"
  | ListData list_snapshots_data
  | SnapshotData snapshot
  | BrowseData browse_data
  | FindData find_data
  | StatsData stats_data

section \<open>Envelopes and results\<close>

record envelope =
  nv_cost :: cost_class
  nv_truncated :: bool
  nv_data :: tool_data
  nv_warnings :: "string list"

record tool_error =
  te_code :: string
  te_message :: string
  te_detail :: "string option"

text \<open>
  A \<open>CallToolResult\<close>: the encoded envelope with the envelope itself, or an error payload.
  \<open>Panicked\<close> stands for a handler that indexes a slice out of its bounds.
\<close>

datatype tool_result = ToolOk string envelope | ToolError tool_error | Panicked

record deps =
  dp_registry :: registry
  dp_restic_version :: string
  dp_server_version :: string
  dp_max_response :: int
  dp_marshal :: "envelope \<Rightarrow> string option"

record 's world =
  wo_cursors :: cursor_store
  wo_log :: log
  wo_rest :: 's

text \<open>What the clock and the random source answer during one request.\<close>

record moment =
  at_take :: int
  at_issue :: int
  at_random :: "go_error + (nat \<Rightarrow> char)"
  at_log :: int
  at_observed :: int

text \<open>Handlers never return a Go error; the second component is the world they leave.\<close>

type_synonym 's answer = "tool_result \<times> 's world"

definition errTool :: "go_error \<Rightarrow> tool_result" where
  "errTool err =
     (case as_app err of
        Some ae \<Rightarrow>
          ToolError \<lparr>te_code = code_string (err_code ae),
            te_message = SanitizeAndRedact (err_message ae),
            te_detail = (if err_detail ae \<noteq> [] then Some (SanitizeAndRedact (err_detail ae)) else None)\<rparr>
      | None \<Rightarrow>
          ToolError \<lparr>te_code = code_string InternalError,
            te_message = SanitizeAndRedact (Clip (SanitizeAndRedact (error_string err)) 200),
            te_detail = None\<rparr>)"

definition okResult :: "deps \<Rightarrow> cost_class \<Rightarrow> tool_data \<Rightarrow> bool \<Rightarrow> string list \<Rightarrow> tool_result" where
  "okResult d cost data truncated warnings =
     (let env = \<lparr>nv_cost = cost, nv_truncated = truncated, nv_data = data, nv_warnings = warnings\<rparr> in
      case dp_marshal d env of
        None \<Rightarrow> errTool (new_error InternalError ''encode failed'')
      | Some raw \<Rightarrow>
          if dp_max_response d > 0 \<and> int (length raw) > dp_max_response d
          then errTool (new_error ResponseLimitExceeded
                 ''public response exceeds configured max_response_bytes'')
          else ToolOk raw env)"

definition auditPreResticRejection ::
    "int \<Rightarrow> string \<Rightarrow> string \<Rightarrow> go_error \<Rightarrow> log \<Rightarrow> log" where
  "auditPreResticRejection now tool repoID err l =
     (case as_app err of
        None \<Rightarrow> l
      | Some ae \<Rightarrow>
          if err_code ae \<noteq> NotAllowed \<and> err_code ae \<noteq> RepositoryNotFound then l
          else log_event now
            (no_event\<lparr>ev_action := ''tool_rejected'', ev_tool := tool,
               ev_repository := (if err_code ae = NotAllowed then repoID else []),
               ev_status := (if err_code ae = NotAllowed then ''denied'' else ''error''),
               ev_error_code := code_string (err_code ae), ev_message := err_message ae\<rparr>) l)"

definition failTool :: "moment \<Rightarrow> string \<Rightarrow> string \<Rightarrow> go_error \<Rightarrow> 's world \<Rightarrow> 's answer" where
  "failTool t tool repoID err w =
     (errTool err, w\<lparr>wo_log := auditPreResticRejection (at_log t) tool repoID err (wo_log w)\<rparr>)"

definition requireRepo :: "deps \<Rightarrow> string \<Rightarrow> entry res" where
  "requireRepo d rid =
     (if rid = [] then Inl (new_error InvalidArgument ''repository_id is required'')
      else get_entry (dp_registry d) rid)"

definition windowOutput :: "string \<Rightarrow> string \<Rightarrow> window_data" where
  "windowOutput after before =
     \<lparr>wd_after = (if after \<noteq> [] then Some after else None),
      wd_before = (if before \<noteq> [] then Some before else None),
      wd_bounded = (after \<noteq> [] \<or> before \<noteq> [])\<rparr>"

section \<open>The rest of the system, for a handler\<close>

text \<open>
  \<open>Run\<close> answers like \<open>RunMetadata\<close> without the observation. \<open>RunScan\<close> either ends before the
  consumer is called or shows it the standard output of the child; \<open>sc_end\<close> is the error the
  run then ends with, given whether the consumer stopped it, and \<open>sc_failed\<close> the error it ends
  with when the consumer failed.
\<close>

record scan_run =
  sc_stream :: string
  sc_end :: "bool \<Rightarrow> go_error option"
  sc_failed :: "go_error \<Rightarrow> go_error"

record 's services =
  sv_metadata :: "'s metadata"
  sv_run :: "string \<Rightarrow> string list \<Rightarrow> 's \<Rightarrow> run_result res \<times> 's"
  sv_scan :: "string \<Rightarrow> string list \<Rightarrow> 's \<Rightarrow> scan_run res \<times> 's"

text \<open>
  The closures of the two scanning handlers: \<open>scan\<close> is assigned inside the consumer and read
  after the run.
\<close>

definition run_scan :: "'s services \<Rightarrow> string \<Rightarrow> string list \<Rightarrow> (string \<Rightarrow> 'r res) \<Rightarrow> ('r \<Rightarrow> scan_stats) \<Rightarrow>
    's \<Rightarrow> 'r res \<times> 's" where
  "run_scan sv rid argv scanner stats w =
     (case sv_scan sv rid argv w of
        (Inl err, w') \<Rightarrow> (Inl err, w')
      | (Inr sc, w') \<Rightarrow>
          (case scanner (sc_stream sc) of
             Inl err \<Rightarrow> (Inl (sc_failed sc err), w')
           | Inr scan \<Rightarrow>
               (case sc_end sc (ss_stopped_early (stats scan)) of
                  Some err \<Rightarrow> (Inl err, w')
                | None \<Rightarrow> (Inr scan, w'))))"

section \<open>The runner provides the scan interface\<close>

text \<open>
  What a child process shows a consumer and how its run ends, as \<open>exec_run_scan\<close> has it: the
  exceeded error output and, unless the consumer stopped, the deadline and the cancellation
  come before the consumer's own error.
\<close>

definition undisturbed :: "run_request \<Rightarrow> process \<Rightarrow> bool \<Rightarrow> go_error option" where
  "undisturbed req p stopped =
     (if cb_exceeded (capped_writes (output_limit req) (pr_stderr p))
        then Some (new_error OutputLimitExceeded ''restic stderr exceeded configured limit'')
      else if \<not> stopped \<and> pr_deadline p then Some (new_error Timeout ''restic command timed out'')
      else if \<not> stopped \<and> pr_cancelled p then Some (new_error Cancelled ''request cancelled'')
      else None)"

definition scan_run_of :: "run_request \<Rightarrow> process \<Rightarrow> scan_run res" where
  "scan_run_of req p =
     (case AssertArgvAllowed (rq_argv req) of
        Inl err \<Rightarrow> Inl (refuse_argv err)
      | Inr _ \<Rightarrow>
     (case pr_pipe p of
        Some e \<Rightarrow> Inl (with_cause (new_error InternalError ''failed to create stdout pipe'') e)
      | None \<Rightarrow>
     (case pr_start p of
        Some e \<Rightarrow> Inl (exec_failed e)
      | None \<Rightarrow>
          Inr \<lparr>sc_stream = concat (pr_stdout p),
               sc_end = (\<lambda>stopped. case undisturbed req p stopped of
                   Some err \<Rightarrow> Some err
                 | None \<Rightarrow> if stopped then None
                     else snd (reap \<lparr>rr_stdout = [], rr_stderr = [], rr_exit_code = 0, rr_duration = 0\<rparr>
                                 (pr_wait p))),
               sc_failed = (\<lambda>e. case undisturbed req p False of Some err \<Rightarrow> err | None \<Rightarrow> e)\<rparr>)))"

lemma snd_reap: "snd (reap r c) = snd (reap r' c)"
  by (simp add: reap_def split: reaped.split)

lemma scan_run_of_exec:
  assumes "\<And>out. snd (f out) \<noteq> None \<Longrightarrow> \<not> fst (f out)"
  shows "snd (exec_run_scan req (Some f) p) =
    (case scan_run_of req p of
       Inl e \<Rightarrow> Some e
     | Inr sc \<Rightarrow> (case f (sc_stream sc) of
           (stopped, None) \<Rightarrow> sc_end sc stopped
         | (stopped, Some e) \<Rightarrow> Some (sc_failed sc e)))"
proof (cases "f (concat (pr_stdout p))")
  case (Pair stopped err)
  with assms [of "concat (pr_stdout p)"] have "err \<noteq> None \<Longrightarrow> \<not> stopped" by simp
  with Pair show ?thesis
    by (cases err)
      (auto simp: exec_run_scan_def scan_run_of_def undisturbed_def Let_def intro: snd_reap split: sum.split option.split)
qed

section \<open>Answers\<close>

lemma okResult_cases:
  assumes "okResult d cost data truncated warnings = r"
  obtains (ok) raw where "r = ToolOk raw \<lparr>nv_cost = cost, nv_truncated = truncated, nv_data = data, nv_warnings = warnings\<rparr>"
      "dp_max_response d > 0 \<longrightarrow> int (length raw) \<le> dp_max_response d"
    | (err) e where "r = ToolError e"
  using assms
  by (auto simp: okResult_def Let_def errTool_def new_error_def split: option.splits if_splits)

lemma errTool_not_ok [simp]: "errTool err \<noteq> ToolOk raw env" "errTool err \<noteq> Panicked"
  by (simp_all add: errTool_def split: option.split)

lemma failTool_not_ok [simp]: "failTool t tool rid err w \<noteq> (ToolOk raw env, w')"
  by (simp add: failTool_def)

lemma okResult_ToolOk:
  "okResult d cost data truncated warnings = ToolOk raw env \<longleftrightarrow>
     env = \<lparr>nv_cost = cost, nv_truncated = truncated, nv_data = data, nv_warnings = warnings\<rparr> \<and>
     dp_marshal d env = Some raw \<and> (dp_max_response d > 0 \<longrightarrow> int (length raw) \<le> dp_max_response d)"
  by (auto simp: okResult_def Let_def split: option.splits)

end
