(* ===== verification/Freshness.thy ===== *)
theory Freshness
  imports Contract
begin

text \<open>
  The freshness summary of \<open>internal/mcpserver/freshness.go\<close>: the latest visible snapshot of
  every host, or host and tag set, its age and the judgment against an expected cadence.
  Durations are nanoseconds. \<open>time.ParseDuration\<close>, which goes through floating point for
  fractions, is an argument. The Go map of groups is ranged over and the result sorted by its
  keys, which are distinct, so an association list in the order of insertion stands for it.
\<close>

section \<open>The request\<close>

definition minExpectedCadence :: int where "minExpectedCadence = minute"
definition maxExpectedCadence :: int where "maxExpectedCadence = 10 * 365 * 24 * (60 * minute)"

definition parseExpectedCadence :: "(string \<Rightarrow> int option) \<Rightarrow> string \<Rightarrow> int res" where
  "parseExpectedCadence parse_duration val =
     (let bad = Inl (new_error InvalidArgument
                  ''expected_cadence must be a Go duration between 1m and 87600h'') in
      if val = [] then Inr 0
      else case parse_duration val of
        None \<Rightarrow> bad
      | Some cadence \<Rightarrow>
          if cadence < minExpectedCadence \<or> cadence > maxExpectedCadence then bad else Inr cadence)"

definition validateFreshnessGroupBy :: "string \<Rightarrow> string res" where
  "validateFreshnessGroupBy val =
     (if val = [] \<or> val = ''host'' then Inr ''host''
      else if val = ''host_tag'' then Inr ''host_tag''
      else Inl (new_error InvalidArgument ''freshness_group_by must be host or host_tag''))"

section \<open>The summary\<close>

text \<open>\<open>Duration.String\<close> from a second on, and \<open>Time.Sub\<close>, which saturates.\<close>

definition duration_string :: "int \<Rightarrow> string" where
  "duration_string d =
     (let secs = nat (d div second); mins = secs div 60; hours = mins div 60
      in (if hours > 0 then dec hours @ ''h'' else []) @
         (if mins > 0 then dec (mins mod 60) @ ''m'' else []) @
         dec (secs mod 60) @ format_fraction (nat (d mod second)) @ ''s'')"

definition time_sub :: "instant \<Rightarrow> instant \<Rightarrow> int" where
  "time_sub a b = max (- (2 ^ 63)) (min (2 ^ 63 - 1) (a - b))"

definition pathScopeRestricted :: "entry \<Rightarrow> bool" where
  "pathScopeRestricted e =
     (if pp_allowed (en_paths e) = [] then False
      else \<not> list_ex (\<lambda>allowed. allowed = ''/'') (pp_allowed (en_paths e)))"

definition freshnessGroupKey :: "snapshot \<Rightarrow> string \<Rightarrow> string \<times> string list" where
  "freshnessGroupKey s groupBy =
     (let tags = sort (sn_tags s) in
      if groupBy = ''host_tag'' then (sn_hostname s @ ''|'' @ join '','' tags, tags)
      else (sn_hostname s, tags))"

definition new_group :: "(string \<Rightarrow> bool) \<Rightarrow> string \<Rightarrow> string list \<Rightarrow> snapshot \<Rightarrow> freshness_group" where
  "new_group partial_of key tags s =
     \<lparr>fg_key = key, fg_hostname = sn_hostname s, fg_tags = tags, fg_latest_id = sn_id s,
      fg_latest_time = format_time (sn_time s), fg_age_seconds = 0, fg_cadence = [],
      fg_overdue = None, fg_partial = partial_of (sn_id s), fg_count = 0\<rparr>"

definition add_to_group ::
    "(string \<Rightarrow> bool) \<Rightarrow> string \<Rightarrow> snapshot \<Rightarrow> (string \<times> freshness_group) list \<Rightarrow> (string \<times> freshness_group) list" where
  "add_to_group partial_of groupBy s groups =
     (case freshnessGroupKey s groupBy of
        (key, tags) \<Rightarrow>
          let g = (case map_of groups key of Some g \<Rightarrow> g | None \<Rightarrow> new_group partial_of key tags s)
          in AList.update key (g\<lparr>fg_count := fg_count g + 1\<rparr>) groups)"

definition group_snapshots ::
    "(string \<Rightarrow> bool) \<Rightarrow> string \<Rightarrow> snapshot list \<Rightarrow> (string \<times> freshness_group) list" where
  "group_snapshots partial_of groupBy ss = fold (add_to_group partial_of groupBy) ss []"

definition judge_group :: "int \<Rightarrow> instant \<Rightarrow> freshness_group \<Rightarrow> freshness_group option" where
  "judge_group cadence observed g =
     (case parse_time (fg_latest_time g) of
        None \<Rightarrow> None
      | Some latest \<Rightarrow>
          let age = max 0 (time_sub observed latest); g1 = g\<lparr>fg_age_seconds := age div second\<rparr>
          in Some (if cadence > 0
               then g1\<lparr>fg_overdue := Some (age > cadence), fg_cadence := duration_string cadence\<rparr>
               else g1))"

definition freshness_status :: "freshness_group list \<Rightarrow> bool \<Rightarrow> int \<Rightarrow> bool \<Rightarrow> string" where
  "freshness_status groups incomplete cadence overdue =
     (if groups = [] then ''no_visible_snapshots''
      else if incomplete then ''incomplete''
      else if cadence = 0 then ''recency_only''
      else if overdue then ''overdue''
      else ''within_cadence'')"

definition freshness_notes :: "string \<Rightarrow> bool \<Rightarrow> string list" where
  "freshness_notes status partial =
     [''Freshness uses snapshot creation metadata only; it does not verify restorability, cryptographic integrity, or successful data verification.'',
      ''Visible scope is filtered by the repository allowlists and the requested window. Hidden counts are intentionally omitted.''] @
     (if status = ''no_visible_snapshots''
        then [''\"No visible snapshots\" does not prove that no backups exist; hidden or unavailable scope may still exist.'']
      else if status = ''recency_only''
        then [''No expected cadence was supplied; recency is reported without a healthy or unhealthy judgment.'']
      else []) @
     (if partial
        then [''Some visible snapshots expose only an allowlisted path intersection; whole-snapshot backup summaries remain suppressed.'']
      else [])"

definition buildFreshnessAt ::
    "entry \<Rightarrow> snapshot list \<Rightarrow> (string \<Rightarrow> bool) \<Rightarrow> freshness_scope \<Rightarrow> string \<Rightarrow> int \<Rightarrow> bool \<Rightarrow> instant \<Rightarrow> freshness_data" where
  "buildFreshnessAt e ss partial_of scope groupBy cadence incomplete observed =
     (let judged = List.map_filter (judge_group cadence observed) (map snd (group_snapshots partial_of groupBy ss));
          groups = sort_by (\<lambda>a b. fg_key a < fg_key b) judged;
          overdue = list_ex (\<lambda>g. fg_overdue g = Some True) judged;
          partial = list_ex (\<lambda>s. partial_of (sn_id s)) ss;
          status = freshness_status groups incomplete cadence overdue
      in \<lparr>fd_observed_at = format_time observed, fd_status = status, fd_group_by = groupBy,
          fd_cadence = (if cadence > 0 then duration_string cadence else []), fd_scope = scope,
          fd_groups = groups, fd_no_visible = (ss = []), fd_partial = partial,
          fd_incomplete = incomplete,
          fd_hidden = \<lparr>hd_hosts = (hp_allowed (en_hosts e) \<noteq> []), hd_tags = (tp_allowed (en_tags e) \<noteq> []),
                       hd_paths = pathScopeRestricted e\<rparr>,
          fd_notes = freshness_notes status partial\<rparr>)"

section \<open>Groups\<close>

definition key_of :: "string \<Rightarrow> snapshot \<Rightarrow> string" where
  "key_of groupBy s = fst (freshnessGroupKey s groupBy)"

text \<open>
  What the groups of the snapshots seen so far are: one per key, opened by the first snapshot
  with the key and counting all of them.
\<close>

definition groups_inv :: "(string \<Rightarrow> bool) \<Rightarrow> string \<Rightarrow> snapshot list \<Rightarrow> (string \<times> freshness_group) list \<Rightarrow> bool" where
  "groups_inv partial_of groupBy ss groups \<longleftrightarrow>
     distinct (map fst groups) \<and>
     (\<forall>k. map_of groups k =
        (case filter (\<lambda>s. key_of groupBy s = k) ss of
           [] \<Rightarrow> None
         | s # rest \<Rightarrow> Some ((new_group partial_of k (snd (freshnessGroupKey s groupBy)) s)
             \<lparr>fg_count := Suc (length rest)\<rparr>)))"

lemma add_to_group_inv:
  assumes "groups_inv partial_of groupBy ss groups"
  shows "groups_inv partial_of groupBy (ss @ [s]) (add_to_group partial_of groupBy s groups)"
proof -
  obtain key tags where k: "freshnessGroupKey s groupBy = (key, tags)" by fastforce
  have "key_of groupBy s = key" by (simp add: key_of_def k)
  with assms k show ?thesis
    by (auto simp: groups_inv_def add_to_group_def Let_def distinct_update update_conv'
        new_group_def split: list.splits)
qed

lemma group_snapshots_inv: "groups_inv partial_of groupBy ss (group_snapshots partial_of groupBy ss)"
proof (induction ss rule: rev_induct)
  case Nil
  show ?case by (simp add: groups_inv_def group_snapshots_def)
next
  case (snoc s ss)
  then show ?case using add_to_group_inv by (simp add: group_snapshots_def)
qed

lemma group_snapshots_mem:
  "(k, g) \<in> set (group_snapshots partial_of groupBy ss) \<longleftrightarrow>
     (\<exists>s rest. filter (\<lambda>s. key_of groupBy s = k) ss = s # rest \<and>
        g = (new_group partial_of k (snd (freshnessGroupKey s groupBy)) s)\<lparr>fg_count := Suc (length rest)\<rparr>)"
proof -
  have inv: "groups_inv partial_of groupBy ss (group_snapshots partial_of groupBy ss)"
    by (rule group_snapshots_inv)
  then have "distinct (map fst (group_snapshots partial_of groupBy ss))" by (simp add: groups_inv_def)
  then have "(k, g) \<in> set (group_snapshots partial_of groupBy ss) \<longleftrightarrow>
      map_of (group_snapshots partial_of groupBy ss) k = Some g" by simp
  also have "\<dots> \<longleftrightarrow> (\<exists>s rest. filter (\<lambda>s. key_of groupBy s = k) ss = s # rest \<and>
        g = (new_group partial_of k (snd (freshnessGroupKey s groupBy)) s)\<lparr>fg_count := Suc (length rest)\<rparr>)"
    using inv by (auto simp: groups_inv_def split: list.splits)
  finally show ?thesis .
qed

text \<open>The group of a key whose first snapshot is \<open>s\<close>, as the summary shows it.\<close>

definition judged_group ::
    "(string \<Rightarrow> bool) \<Rightarrow> string \<Rightarrow> int \<Rightarrow> instant \<Rightarrow> snapshot \<Rightarrow> nat \<Rightarrow> string \<Rightarrow> freshness_group" where
  "judged_group partial_of groupBy cadence observed s n k =
     (new_group partial_of k (snd (freshnessGroupKey s groupBy)) s)
       \<lparr>fg_count := n, fg_age_seconds := max 0 (time_sub observed (sn_time s)) div second,
        fg_overdue := (if cadence > 0 then Some (max 0 (time_sub observed (sn_time s)) > cadence) else None),
        fg_cadence := (if cadence > 0 then duration_string cadence else [])\<rparr>"

lemma judged_group_simps [simp]:
  "fg_key (judged_group partial_of groupBy cadence observed s n k) = k"
  "fg_count (judged_group partial_of groupBy cadence observed s n k) = n"
  "fg_latest_id (judged_group partial_of groupBy cadence observed s n k) = sn_id s"
  "fg_latest_time (judged_group partial_of groupBy cadence observed s n k) = format_time (sn_time s)"
  "fg_age_seconds (judged_group partial_of groupBy cadence observed s n k) =
     max 0 (time_sub observed (sn_time s)) div second"
  "fg_overdue (judged_group partial_of groupBy cadence observed s n k) =
     (if cadence > 0 then Some (max 0 (time_sub observed (sn_time s)) > cadence) else None)"
  by (simp_all add: judged_group_def new_group_def)

lemma freshness_member:
  assumes "\<forall>s \<in> set ss. in_years (sn_time s)"
  shows "g \<in> set (fd_groups (buildFreshnessAt e ss partial_of scope groupBy cadence incomplete observed)) \<longleftrightarrow>
    (\<exists>s rest. filter (\<lambda>s. key_of groupBy s = fg_key g) ss = s # rest \<and>
       g = judged_group partial_of groupBy cadence observed s (Suc (length rest)) (fg_key g))"
    (is "?L \<longleftrightarrow> ?R")
proof -
  have key: "judge_group cadence observed h = Some g \<Longrightarrow> fg_key g = fg_key h" for h
    by (auto simp: judge_group_def Let_def split: option.splits if_splits)
  have opened: "k = fg_key g"
    if "judge_group cadence observed ((new_group partial_of k tags s)\<lparr>fg_count := n\<rparr>) = Some g" for k tags s n
    using key [OF that] by (simp add: new_group_def)
  have "?L \<longleftrightarrow> (\<exists>k h. (k, h) \<in> set (group_snapshots partial_of groupBy ss) \<and> judge_group cadence observed h = Some g)"
    by (force simp: buildFreshnessAt_def Let_def List.map_filter_def)
  also have "\<dots> \<longleftrightarrow> (\<exists>s rest. filter (\<lambda>s. key_of groupBy s = fg_key g) ss = s # rest \<and>
      judge_group cadence observed ((new_group partial_of (fg_key g) (snd (freshnessGroupKey s groupBy)) s)
        \<lparr>fg_count := Suc (length rest)\<rparr>) = Some g)"
    unfolding group_snapshots_mem by (auto dest: opened)
  also have "\<dots> \<longleftrightarrow> ?R"
  proof -
    have years: "parse_time (format_time (sn_time s)) = Some (sn_time s)"
      if "filter (\<lambda>s. key_of groupBy s = fg_key g) ss = s # rest" for s rest
    proof -
      have "s \<in> set (filter (\<lambda>s. key_of groupBy s = fg_key g) ss)" using that by simp
      then show ?thesis using assms by (simp add: parse_format)
    qed
    show ?thesis
      by (intro ex_cong1 conj_cong refl) (auto simp: judge_group_def judged_group_def years new_group_def Let_def)
  qed
  finally show ?thesis .
qed

lemma freshness_keys:
  "sorted_wrt (\<lambda>a b. fg_key a < fg_key b)
     (fd_groups (buildFreshnessAt e ss partial_of scope groupBy cadence incomplete observed))"
proof -
  define gs where "gs = group_snapshots partial_of groupBy ss"
  define judged where "judged = List.map_filter (judge_group cadence observed) (map snd gs)"
  have keys: "fg_key h = k" if "(k, h) \<in> set gs" for k h
    using that unfolding gs_def group_snapshots_mem by (auto simp: new_group_def)
  then have "map fg_key (map snd gs) = map fst gs" by (auto intro!: map_cong simp: comp_def)
  moreover have "distinct (map fst gs)"
    using group_snapshots_inv [of partial_of groupBy ss] by (simp add: groups_inv_def gs_def)
  ultimately have start: "distinct (map fg_key (map snd gs))" by metis
  have "judge_group cadence observed h = Some g \<Longrightarrow> fg_key g = fg_key h" for h g
    by (auto simp: judge_group_def Let_def split: option.splits if_splits)
  then have dist: "distinct (map fg_key (List.map_filter (judge_group cadence observed) hs))"
    if "distinct (map fg_key hs)" for hs
    using that by (induction hs) (force simp: List.map_filter_def)+
  then have "distinct (map fg_key judged)"
    using start by (simp only: judged_def)
  then have "distinct (map fg_key (sort_by (\<lambda>a b. fg_key a < fg_key b) judged))"
    by (metis mset_eq_imp_distinct_iff mset_map mset_sort_by)
  moreover have "sorted_wrt (\<lambda>a b. \<not> fg_key b < fg_key a) (sort_by (\<lambda>a b. fg_key a < fg_key b) judged)"
    by (rule weak_order.sorted_sort_by [OF weak_order_key])
  then have "sorted (map fg_key (sort_by (\<lambda>a b. fg_key a < fg_key b) judged))"
    by (simp add: sorted_map not_less)
  ultimately have "sorted_wrt (<) (map fg_key (sort_by (\<lambda>a b. fg_key a < fg_key b) judged))"
    by (simp add: strict_sorted_iff)
  then show ?thesis
    by (simp add: buildFreshnessAt_def Let_def judged_def gs_def sorted_wrt_map)
qed

section \<open>Properties\<close>

lemma filter_head_first:
  assumes "filter P ss = s # rest" and "sorted_wrt (\<lambda>a b. sn_time b \<le> sn_time a) ss"
  shows "s \<in> set ss \<and> P s \<and> (\<forall>t \<in> set ss. P t \<longrightarrow> sn_time t \<le> sn_time s)"
proof -
  have "s \<in> set (filter P ss)" using assms(1) by simp
  moreover have "sorted_wrt (\<lambda>a b. sn_time b \<le> sn_time a) (s # rest)"
    using sorted_wrt_filter [OF assms(2), of P] assms(1) by simp
  moreover have "t \<in> set ss \<Longrightarrow> P t \<Longrightarrow> t \<in> set (s # rest)" for t
    unfolding assms(1) [symmetric] by simp
  ultimately show ?thesis by auto
qed

text \<open>
  C37. The groups of a freshness summary. For snapshots listed newest first whose times lie in
  the years 0 to 9999, the groups have distinct ascending keys, every snapshot falls into one,
  and each group counts its snapshots, names the newest of them and gives its age, never
  negative, as of the observation.
\<close>
theorem freshness_groups:
  fixes e :: entry and partial_of :: "string \<Rightarrow> bool" and scope :: freshness_scope and groupBy :: string
    and cadence observed :: int and incomplete :: bool and ss :: "snapshot list"
  assumes "\<forall>s \<in> set ss. in_years (sn_time s)" and "sorted_wrt (\<lambda>a b. sn_time b \<le> sn_time a) ss"
  defines "groups \<equiv> fd_groups (buildFreshnessAt e ss partial_of scope groupBy cadence incomplete observed)"
  shows "sorted_wrt (\<lambda>a b. fg_key a < fg_key b) groups \<and>
    fg_key ` set groups = key_of groupBy ` set ss \<and>
    (\<forall>g \<in> set groups. fg_count g = length (filter (\<lambda>s. key_of groupBy s = fg_key g) ss) \<and>
       (\<exists>s \<in> set ss. key_of groupBy s = fg_key g \<and> fg_latest_id g = sn_id s \<and>
          fg_latest_time g = format_time (sn_time s) \<and>
          (\<forall>t \<in> set ss. key_of groupBy t = fg_key g \<longrightarrow> sn_time t \<le> sn_time s) \<and>
          fg_age_seconds g = max 0 (time_sub observed (sn_time s)) div second \<and>
          fg_overdue g = (if cadence > 0 then Some (max 0 (time_sub observed (sn_time s)) > cadence) else None)))"
proof (intro conjI)
  show "sorted_wrt (\<lambda>a b. fg_key a < fg_key b) groups"
    unfolding groups_def by (rule freshness_keys)
  note member = freshness_member [OF assms(1), where partial_of = partial_of and e = e and scope = scope
      and groupBy = groupBy and cadence = cadence and incomplete = incomplete and observed = observed,
      folded groups_def]
  have each: "fg_count g = length (filter (\<lambda>s. key_of groupBy s = fg_key g) ss) \<and>
       (\<exists>s \<in> set ss. key_of groupBy s = fg_key g \<and> fg_latest_id g = sn_id s \<and>
          fg_latest_time g = format_time (sn_time s) \<and>
          (\<forall>t \<in> set ss. key_of groupBy t = fg_key g \<longrightarrow> sn_time t \<le> sn_time s) \<and>
          fg_age_seconds g = max 0 (time_sub observed (sn_time s)) div second \<and>
          fg_overdue g = (if cadence > 0 then Some (max 0 (time_sub observed (sn_time s)) > cadence) else None))"
    if "g \<in> set groups" for g
  proof -
    define k where "k = fg_key g"
    from that [unfolded member] obtain s rest where f: "filter (\<lambda>s. key_of groupBy s = k) ss = s # rest"
      and eq: "g = judged_group partial_of groupBy cadence observed s (Suc (length rest)) k"
      unfolding k_def by blast
    from filter_head_first [OF f assms(2)] show ?thesis
      unfolding k_def [symmetric] f by (subst (1 2 3 4 5) eq) (intro conjI bexI [of _ s]; simp)
  qed
  then show "\<forall>g \<in> set groups. fg_count g = length (filter (\<lambda>s. key_of groupBy s = fg_key g) ss) \<and>
       (\<exists>s \<in> set ss. key_of groupBy s = fg_key g \<and> fg_latest_id g = sn_id s \<and>
          fg_latest_time g = format_time (sn_time s) \<and>
          (\<forall>t \<in> set ss. key_of groupBy t = fg_key g \<longrightarrow> sn_time t \<le> sn_time s) \<and>
          fg_age_seconds g = max 0 (time_sub observed (sn_time s)) div second \<and>
          fg_overdue g = (if cadence > 0 then Some (max 0 (time_sub observed (sn_time s)) > cadence) else None))"
    by blast
  have "\<exists>g \<in> set groups. fg_key g = key_of groupBy s" if "s \<in> set ss" for s
  proof -
    have "s \<in> set (filter (\<lambda>t. key_of groupBy t = key_of groupBy s) ss)" using that by simp
    then obtain t rest where f: "filter (\<lambda>t. key_of groupBy t = key_of groupBy s) ss = t # rest"
      by (metis list.exhaust list.set(1) empty_iff)
    define g where "g = judged_group partial_of groupBy cadence observed t (Suc (length rest)) (key_of groupBy s)"
    have "fg_key g = key_of groupBy s" by (simp add: g_def)
    moreover have "g \<in> set groups"
      unfolding member by (intro exI [of _ t] exI [of _ rest]) (simp add: f g_def)
    ultimately show ?thesis by blast
  qed
  moreover have "fg_key g \<in> key_of groupBy ` set ss" if "g \<in> set groups" for g
    using each [OF that] by (metis imageI)
  ultimately show "fg_key ` set groups = key_of groupBy ` set ss" by force
qed

definition sample_scope :: freshness_scope where
  "sample_scope = \<lparr>fc_hosts = [], fc_tags = [], fc_paths = [], fc_window = windowOutput [] []\<rparr>"

lemma year_one: "in_years zero_time"
  by code_simp

theorem freshness_groups_witness:
  "\<exists>g. fd_groups (buildFreshnessAt open_entry [sample_snapshot] (\<lambda>_. False) sample_scope ''host'' 0 False 0) = [g] \<and>
     fg_count g = 1 \<and> fg_latest_id g = ''deadbeef''"
proof -
  define gs where
    "gs = fd_groups (buildFreshnessAt open_entry [sample_snapshot] (\<lambda>_. False) sample_scope ''host'' 0 False 0)"
  have years: "\<forall>s \<in> set [sample_snapshot]. in_years (sn_time s)"
    by (simp add: sample_snapshot_def year_one)
  have srt: "sorted_wrt (\<lambda>a b. sn_time b \<le> sn_time a) [sample_snapshot]" by simp
  note groups = freshness_groups [OF years srt, where e = open_entry and partial_of = "\<lambda>_. False"
      and scope = sample_scope and groupBy = "''host''" and cadence = 0 and incomplete = False and observed = 0,
      folded gs_def]
  have key: "key_of ''host'' sample_snapshot = []"
    by (simp add: key_of_def freshnessGroupKey_def sample_snapshot_def)
  have one: "fg_key ` set gs = {[]}" and sorted: "sorted_wrt (\<lambda>a b. fg_key a < fg_key b) gs"
    using conjunct1 [OF groups] conjunct1 [OF conjunct2 [OF groups]]
    by (simp_all only: key list.set image_insert image_empty)
  then obtain g rest where gs: "gs = g # rest" by (cases gs) auto
  have all: "fg_key h = []" if "h \<in> set gs" for h using that one by blast
  have "rest = []"
  proof (cases rest)
    case (Cons h t)
    then have "fg_key g < fg_key h" using sorted gs by simp
    moreover have "fg_key g = []" by (rule all) (simp add: gs)
    moreover have "fg_key h = []" by (rule all) (simp add: gs Cons)
    ultimately show ?thesis by simp
  qed simp
  moreover have "fg_count g = 1" "fg_latest_id g = sn_id sample_snapshot"
    using conjunct2 [OF conjunct2 [OF groups]] all [of g] gs by (simp_all add: key)
  moreover have "sn_id sample_snapshot = ''deadbeef''" by (simp add: sample_snapshot_def)
  ultimately show ?thesis unfolding gs_def [symmetric] gs by simp
qed

text \<open>
  \<open>within_cadence\<close> means what it says. With a cadence, the summary reports
  \<open>within_cadence\<close> exactly when there is a snapshot, the listing was not incomplete, and
  every snapshot's group has its newest snapshot no older than the cadence.
\<close>
theorem within_cadence_iff:
  assumes "\<forall>s \<in> set ss. in_years (sn_time s)" and "sorted_wrt (\<lambda>a b. sn_time b \<le> sn_time a) ss"
    and "cadence > 0"
  shows "fd_status (buildFreshnessAt e ss partial_of scope groupBy cadence incomplete observed) = ''within_cadence'' \<longleftrightarrow>
    ss \<noteq> [] \<and> \<not> incomplete \<and>
    (\<forall>s \<in> set ss. \<exists>t \<in> set ss. key_of groupBy t = key_of groupBy s \<and> time_sub observed (sn_time t) \<le> cadence)"
proof -
  let ?fd = "buildFreshnessAt e ss partial_of scope groupBy cadence incomplete observed"
  have member: "g \<in> set (fd_groups ?fd) \<longleftrightarrow> (\<exists>s rest. filter (\<lambda>s. key_of groupBy s = fg_key g) ss = s # rest \<and>
       g = judged_group partial_of groupBy cadence observed s (Suc (length rest)) (fg_key g))" for g
    by (rule freshness_member [OF assms(1)])
  have status: "fd_status ?fd = freshness_status (fd_groups ?fd) incomplete cadence
      (list_ex (\<lambda>g. fg_overdue g = Some True) (fd_groups ?fd))"
    by (simp add: buildFreshnessAt_def Let_def freshness_status_def list_ex_iff)
  have group: "\<exists>s \<in> set ss. key_of groupBy s = k \<and> (\<forall>t \<in> set ss. key_of groupBy t = k \<longrightarrow> sn_time t \<le> sn_time s) \<and>
      (\<exists>g \<in> set (fd_groups ?fd). fg_key g = k \<and> fg_overdue g = Some (time_sub observed (sn_time s) > cadence))"
    if "u \<in> set ss" "key_of groupBy u = k" for u k
  proof -
    have "u \<in> set (filter (\<lambda>s. key_of groupBy s = k) ss)" using that by simp
    then obtain s rest where f: "filter (\<lambda>s. key_of groupBy s = k) ss = s # rest"
      by (metis list.exhaust list.set(1) empty_iff)
    define g where "g = judged_group partial_of groupBy cadence observed s (Suc (length rest)) k"
    have "g \<in> set (fd_groups ?fd)"
      unfolding member by (intro exI [of _ s] exI [of _ rest]) (simp add: f g_def)
    moreover have "fg_key g = k" "fg_overdue g = Some (time_sub observed (sn_time s) > cadence)"
      using assms(3) by (auto simp: g_def)
    ultimately show ?thesis using filter_head_first [OF f assms(2)] by blast
  qed
  have none: "fd_groups ?fd = [] \<longleftrightarrow> ss = []"
    using group member by (metis list.set_intros(1) list.set(1) empty_iff filter.simps(1) list.distinct(1) neq_Nil_conv)
  have mono: "sn_time t \<le> sn_time s \<Longrightarrow> time_sub observed (sn_time s) \<le> time_sub observed (sn_time t)" for s t
    by (auto simp: time_sub_def)
  have overdue: "(\<exists>g \<in> set (fd_groups ?fd). fg_overdue g = Some True) \<longleftrightarrow>
      (\<exists>s \<in> set ss. \<forall>t \<in> set ss. key_of groupBy t = key_of groupBy s \<longrightarrow> cadence < time_sub observed (sn_time t))"
  proof
    assume "\<exists>g \<in> set (fd_groups ?fd). fg_overdue g = Some True"
    then obtain g where g: "g \<in> set (fd_groups ?fd)" "fg_overdue g = Some True" by blast
    then obtain s rest where f: "filter (\<lambda>s. key_of groupBy s = fg_key g) ss = s # rest"
      and "g = judged_group partial_of groupBy cadence observed s (Suc (length rest)) (fg_key g)"
      using member by blast
    then have "fg_overdue g = Some (max 0 (time_sub observed (sn_time s)) > cadence)"
      using assms(3) by (metis judged_group_simps(6))
    then have late: "cadence < time_sub observed (sn_time s)" using g(2) assms(3) by auto
    note head = filter_head_first [OF f assms(2)]
    have "cadence < time_sub observed (sn_time t)" if "t \<in> set ss" "key_of groupBy t = key_of groupBy s" for t
    proof -
      have "sn_time t \<le> sn_time s" using head that by simp
      from mono [OF this] late show ?thesis by simp
    qed
    with head show "\<exists>s \<in> set ss. \<forall>t \<in> set ss. key_of groupBy t = key_of groupBy s \<longrightarrow>
        cadence < time_sub observed (sn_time t)" by blast
  next
    assume "\<exists>s \<in> set ss. \<forall>t \<in> set ss. key_of groupBy t = key_of groupBy s \<longrightarrow> cadence < time_sub observed (sn_time t)"
    then obtain u where u: "u \<in> set ss"
      "\<forall>t \<in> set ss. key_of groupBy t = key_of groupBy u \<longrightarrow> cadence < time_sub observed (sn_time t)" by blast
    from group [OF u(1) refl] obtain s g where "s \<in> set ss" "key_of groupBy s = key_of groupBy u"
        "g \<in> set (fd_groups ?fd)" "fg_overdue g = Some (time_sub observed (sn_time s) > cadence)" by blast
    with u(2) show "\<exists>g \<in> set (fd_groups ?fd). fg_overdue g = Some True" by auto
  qed
  show ?thesis
    unfolding status freshness_status_def list_ex_iff none overdue using assms(3)
    by (simp add: not_less [symmetric])
qed

theorem within_cadence_iff_witness:
  "fd_status (buildFreshnessAt open_entry [sample_snapshot] (\<lambda>_. False) sample_scope ''host'' minute False 0)
     \<noteq> ''within_cadence''"
proof -
  have "\<forall>s \<in> set [sample_snapshot]. in_years (sn_time s)"
    by (simp add: sample_snapshot_def year_one)
  then show ?thesis
    using within_cadence_iff [of "[sample_snapshot]" minute open_entry "\<lambda>_. False" sample_scope "''host''" False 0]
    by (simp add: sample_snapshot_def zero_time_def time_sub_def minute_def second_def)
qed

text \<open>
  Different groups can share a key. Grouped by host and tags, a snapshot with the one tag
  \<open>a,b\<close> and one with the tags \<open>a\<close> and \<open>b\<close> fall into one group, and the summary reports the
  first, centuries old, as within a cadence of one hour because the second is recent.
\<close>
theorem freshness_groups_merge:
  "\<exists>s t. sn_hostname s = sn_hostname t \<and> set (sn_tags s) \<noteq> set (sn_tags t) \<and>
     time_sub 0 (sn_time s) > 60 * minute \<and>
     fd_status (buildFreshnessAt open_entry [t, s] (\<lambda>_. False) sample_scope ''host_tag'' (60 * minute) False 0) =
       ''within_cadence''"
proof -
  define t s where "t = sample_snapshot\<lparr>sn_time := 0, sn_tags := [''a'', ''b'']\<rparr>"
    and "s = sample_snapshot\<lparr>sn_tags := [''a,b'']\<rparr>"
  have "date_of_days 0 = (1970, 1, 1)" by code_simp
  then have "in_years 0" by (simp add: in_years_def second_ns_def)
  then have parse: "parse_time (format_time 0) = Some 0" by (rule parse_format)
  have sort: "sort [''a'', ''b''] = [''a'', ''b'']" by (simp add: less_eq_char_def)
  have keys: "freshnessGroupKey t ''host_tag'' = (''|a,b'', [''a'', ''b''])"
    "fst (freshnessGroupKey s ''host_tag'') = ''|a,b''"
    unfolding freshnessGroupKey_def t_def s_def by (simp add: sort sample_snapshot_def Let_def)
      (simp add: sample_snapshot_def Let_def)
  then obtain tags where key_s: "freshnessGroupKey s ''host_tag'' = (''|a,b'', tags)" by (metis prod.collapse)
  have "group_snapshots (\<lambda>_. False) ''host_tag'' [t, s] =
      [(''|a,b'', (new_group (\<lambda>_. False) ''|a,b'' [''a'', ''b''] t)\<lparr>fg_count := 2\<rparr>)]"
    by (simp add: group_snapshots_def add_to_group_def keys(1) key_s new_group_def Let_def)
  moreover have "sn_time t = 0" by (simp add: t_def)
  ultimately have "fd_status (buildFreshnessAt open_entry [t, s] (\<lambda>_. False) sample_scope ''host_tag'' (60 * minute) False 0) =
       ''within_cadence''"
    by (simp add: buildFreshnessAt_def Let_def List.map_filter_def judge_group_def new_group_def parse
        freshness_status_def time_sub_def minute_def second_def)
  moreover have "sn_hostname s = sn_hostname t" "set (sn_tags s) \<noteq> set (sn_tags t)"
    "time_sub 0 (sn_time s) > 60 * minute"
    by (simp_all add: s_def t_def sample_snapshot_def zero_time_def time_sub_def minute_def second_def)
  ultimately show ?thesis by blast
qed

end
