(* ===== verification/ListSnapshots.thy ===== *)
theory ListSnapshots
  imports Freshness
begin

text \<open>
  The handler \<open>list_snapshots\<close> of \<open>internal/mcpserver/handlers.go\<close>: its first page, with the
  optional freshness summary, and the pages a continuation cursor leads to.
\<close>

record list_snapshots_in =
  li_repository :: string
  li_host :: string
  li_tags :: "string list"
  li_path :: string
  li_limit :: int
  li_offset :: int
  li_after :: string
  li_before :: string
  li_cursor :: string
  li_freshness :: bool
  li_cadence :: string
  li_group_by :: string

definition list_tool :: string where "list_tool = ''list_snapshots''"

section \<open>Metadata cache output\<close>

definition metadataCacheWarning :: "observation \<Rightarrow> string list" where
  "metadataCacheWarning obs =
     (if \<not> mo_hit obs then []
      else [''metadata_cache hit: this observation does not prove current authentication or backend reachability''])"

definition metadataCacheOutput :: "observation \<Rightarrow> cache_data" where
  "metadataCacheOutput obs =
     \<lparr>mc_enabled = mo_enabled obs, mc_hit = mo_hit obs,
      mc_observed_at = format_time (case mo_observed_at obs of None \<Rightarrow> zero_time | Some t \<Rightarrow> t),
      mc_age_seconds = mo_age_seconds obs, mc_ttl_seconds = mo_ttl_seconds obs\<rparr>"

definition cache_field :: "observation \<Rightarrow> cache_data option" where
  "cache_field obs = (if mo_enabled obs then Some (metadataCacheOutput obs) else None)"

section \<open>Cursors\<close>

text \<open>A marker at the zero time is no marker.\<close>

definition afterSnapshotMarker :: "snapshot \<Rightarrow> instant \<Rightarrow> string \<Rightarrow> bool" where
  "afterSnapshotMarker s lastTime lastID =
     (if lastTime = zero_time then True
      else if sn_time s < lastTime then True
      else sn_time s = lastTime \<and> lastID < sn_id s)"

definition issue_cursor :: "moment \<Rightarrow> cursor_state \<Rightarrow> 's world \<Rightarrow> string res \<times> 's world" where
  "issue_cursor t state w =
     (case issue (at_random t) (at_issue t) state (wo_cursors w) of (r, s) \<Rightarrow> (r, w\<lparr>wo_cursors := s\<rparr>))"

definition redeem_cursor :: "moment \<Rightarrow> string \<Rightarrow> string \<Rightarrow> string \<Rightarrow> 's world \<Rightarrow> cursor_state res \<times> 's world" where
  "redeem_cursor t token tool rid w =
     (case take_cursor token tool rid (at_take t) (wo_cursors w) of (r, s) \<Rightarrow> (r, w\<lparr>wo_cursors := s\<rparr>))"

text \<open>The filters a cursor of this tool carries.\<close>

record list_scope =
  lsc_host :: string
  lsc_tags :: "string list"
  lsc_path :: string
  lsc_after :: string
  lsc_before :: string

definition scope_of :: "cursor_state \<Rightarrow> list_scope" where
  "scope_of st = \<lparr>lsc_host = cs_host st, lsc_tags = cs_tags st, lsc_path = cs_path st,
     lsc_after = cs_after st, lsc_before = cs_before st\<rparr>"

definition next_state :: "string \<Rightarrow> list_scope \<Rightarrow> snapshot \<Rightarrow> int \<Rightarrow> int \<Rightarrow> cursor_state" where
  "next_state rid sc lst offset total_count =
     zero_cursor_state\<lparr>cs_tool := list_tool, cs_repository := rid, cs_host := lsc_host sc,
       cs_tags := lsc_tags sc, cs_path := lsc_path sc, cs_after := lsc_after sc, cs_before := lsc_before sc,
       cs_last_time := sn_time lst, cs_last_id := sn_id lst, cs_offset := offset, cs_total := total_count\<rparr>"

text \<open>
  The end both branches share: when it is needed, a further page gets a cursor whose marker is
  the last snapshot of this one, and the data goes into the envelope.
\<close>

definition answer_page ::
    "deps \<Rightarrow> moment \<Rightarrow> string \<Rightarrow> list_scope \<Rightarrow> bool \<Rightarrow> bool \<Rightarrow> observation \<Rightarrow> list_snapshots_data \<Rightarrow>
     's world \<Rightarrow> 's answer" where
  "answer_page d t rid sc truncated needed obs out w =
     (if \<not> needed then (okResult d CostLight (ListData out) truncated (metadataCacheWarning obs), w)
      else if ls_snapshots out = [] then (Panicked, w)
      else case issue_cursor t (next_state rid sc (last (ls_snapshots out))
                  (ls_offset out + ls_count out) (ls_total out)) w of
        (Inl err, w') \<Rightarrow> (errTool err, w')
      | (Inr token, w') \<Rightarrow>
          (okResult d CostLight (ListData (out\<lparr>ls_next_cursor := Some token\<rparr>)) truncated
             (metadataCacheWarning obs), w'))"

section \<open>A page behind a cursor\<close>

fun cursor_page :: "entry \<Rightarrow> (snapshot \<Rightarrow> bool) \<Rightarrow> int \<Rightarrow> snapshot list \<Rightarrow> snapshot list \<Rightarrow> snapshot list \<times> bool" where
  "cursor_page e wanted limit [] out = (out, False)"
| "cursor_page e wanted limit (s # ss) out =
     (if \<not> wanted s then cursor_page e wanted limit ss out
      else if int (length out) \<ge> limit then (out, True)
      else cursor_page e wanted limit ss (out @ [publicSnapshot e s]))"

definition cursor_opts :: "entry \<Rightarrow> string \<Rightarrow> string list \<Rightarrow> snapshots_opts res" where
  "cursor_opts e host tags =
     (case (if host \<noteq> [] then check_host (en_hosts e) host else Inr ()) of
        Inl err \<Rightarrow> Inl err
      | Inr _ \<Rightarrow>
     (case (if tags \<noteq> [] then check_each_tag (en_tags e) tags else Inr ()) of
        Inl err \<Rightarrow> Inl err
      | Inr _ \<Rightarrow>
          Inr (no_snapshots_opts\<lparr>
                 so_hosts := (if host \<noteq> [] then [host]
                              else if length (hp_allowed (en_hosts e)) = 1 then hp_allowed (en_hosts e)
                              else []),
                 so_tags := tags\<rparr>)))"

definition wanted_after :: "entry \<Rightarrow> time_window \<Rightarrow> cursor_state \<Rightarrow> snapshot \<Rightarrow> bool" where
  "wanted_after e window st s \<longleftrightarrow>
     window_contains window (sn_time s) \<and> policyVisible e s \<and>
     matchesSnapshotFilters s (cs_host st) (cs_tags st) (cs_path st) \<and>
     afterSnapshotMarker s (cs_last_time st) (cs_last_id st)"

definition listSnapshotsForCursor ::
    "'s metadata \<Rightarrow> entry \<Rightarrow> string \<Rightarrow> cursor_state \<Rightarrow> int \<Rightarrow> 's \<Rightarrow>
     (snapshot list \<times> bool \<times> observation) res \<times> 's" where
  "listSnapshotsForCursor metadata e rid st limit w =
     (case parseTimeWindow (cs_after st) (cs_before st) of
        Inl _ \<Rightarrow> (Inl (new_error CursorInvalid ''cursor carries an invalid time window''), w)
      | Inr window \<Rightarrow>
     (case cursor_opts e (cs_host st) (cs_tags st) of
        Inl err \<Rightarrow> (Inl err, w)
      | Inr opts \<Rightarrow>
     (case fetch_snapshots metadata rid bad_filter opts w of
        (Inl err, w') \<Rightarrow> (Inl err, w')
      | (Inr (snaps, obs), w') \<Rightarrow>
          (case cursor_page e (wanted_after e window st) limit snaps [] of
             (page, has_next) \<Rightarrow> (Inr (page, has_next, obs), w')))))"

definition list_continue ::
    "deps \<Rightarrow> 's services \<Rightarrow> moment \<Rightarrow> list_snapshots_in \<Rightarrow> entry \<Rightarrow> int \<Rightarrow> 's world \<Rightarrow> 's answer" where
  "list_continue d sv t inp e limit w =
     (let rid = li_repository inp in
      if li_offset inp \<noteq> 0 \<or> li_host inp \<noteq> [] \<or> li_tags inp \<noteq> [] \<or> li_path inp \<noteq> [] \<or>
         li_after inp \<noteq> [] \<or> li_before inp \<noteq> []
        then failTool t list_tool rid (new_error InvalidArgument
          ''cursor carries the original filters; pass only repository_id, cursor, and optionally limit'') w
      else case redeem_cursor t (li_cursor inp) list_tool rid w of
        (Inl err, w1) \<Rightarrow> failTool t list_tool rid err w1
      | (Inr st, w1) \<Rightarrow>
          (case listSnapshotsForCursor (sv_metadata sv) e rid st limit (wo_rest w1) of
             (Inl err, s) \<Rightarrow> failTool t list_tool rid err (w1\<lparr>wo_rest := s\<rparr>)
           | (Inr (page, has_next, obs), s) \<Rightarrow>
               answer_page d t rid (scope_of st) has_next has_next obs
                 \<lparr>ls_snapshots = page, ls_count = int (length page), ls_total = cs_total st,
                  ls_offset = cs_offset st, ls_limit = limit,
                  ls_window = windowOutput (cs_after st) (cs_before st), ls_next_cursor = None,
                  ls_freshness = None, ls_cache = cache_field obs\<rparr>
                 (w1\<lparr>wo_rest := s\<rparr>)))"

section \<open>The first page\<close>

definition state_host :: "entry \<Rightarrow> string \<Rightarrow> string" where
  "state_host e host =
     (if host \<noteq> [] then host
      else if length (hp_allowed (en_hosts e)) = 1 then hp_allowed (en_hosts e) ! 0 else [])"

text \<open>The map from ids to partial visibility: the last snapshot of an id decides.\<close>

definition partial_by_id :: "entry \<Rightarrow> snapshot list \<Rightarrow> string \<Rightarrow> bool" where
  "partial_by_id e ss sid =
     (case map_of (rev (map (\<lambda>s. (sn_id s, \<not> statsSnapshotAllowed e s)) ss)) sid of
        None \<Rightarrow> False | Some b \<Rightarrow> b)"

definition first_freshness ::
    "moment \<Rightarrow> entry \<Rightarrow> list_scope \<Rightarrow> snapshot list \<Rightarrow> (string \<Rightarrow> bool) \<Rightarrow> string \<Rightarrow> int \<Rightarrow> freshness_data" where
  "first_freshness t e sc pub partial_of groupBy cadence =
     buildFreshnessAt e pub partial_of
       \<lparr>fc_hosts = (if lsc_host sc \<noteq> [] then [lsc_host sc] else hp_allowed (en_hosts e)),
        fc_tags = (if lsc_tags sc \<noteq> [] then lsc_tags sc else tp_allowed (en_tags e)),
        fc_paths = (if lsc_path sc \<noteq> [] then [lsc_path sc] else pp_allowed (en_paths e)),
        fc_window = windowOutput (lsc_after sc) (lsc_before sc)\<rparr>
       groupBy cadence False (at_observed t)"

definition wanted_first :: "entry \<Rightarrow> time_window \<Rightarrow> string \<Rightarrow> string list \<Rightarrow> string \<Rightarrow> snapshot \<Rightarrow> bool" where
  "wanted_first e window host tags scope s \<longleftrightarrow>
     window_contains window (sn_time s) \<and> policyVisible e s \<and> matchesSnapshotFilters s host tags scope"

text \<open>
  The options of the first page are those of \<open>visibleSnapshots\<close> without a selector. A failure
  of the command or of the parser is not audited as a refusal, one of the checks is.
\<close>

definition list_first ::
    "deps \<Rightarrow> 's services \<Rightarrow> moment \<Rightarrow> list_snapshots_in \<Rightarrow> entry \<Rightarrow> int \<Rightarrow> time_window \<Rightarrow> string \<Rightarrow> int \<Rightarrow>
     's world \<Rightarrow> 's answer" where
  "list_first d sv t inp e limit window groupBy cadence w =
     (let rid = li_repository inp in
      case selection_opts e [] (li_host inp) (li_tags inp) (li_path inp) of
        Inl err \<Rightarrow> failTool t list_tool rid err w
      | Inr (opts, scope) \<Rightarrow>
     (case BuildSnapshotsArgv opts of
        Inl err \<Rightarrow> failTool t list_tool rid (bad_filter err) w
      | Inr _ \<Rightarrow>
     (case fetch_snapshots (sv_metadata sv) rid bad_filter opts (wo_rest w) of
        (Inl err, s) \<Rightarrow> (errTool err, w\<lparr>wo_rest := s\<rparr>)
      | (Inr (snaps, obs), s) \<Rightarrow>
          let sc = \<lparr>lsc_host = state_host e (li_host inp), lsc_tags = li_tags inp, lsc_path = scope,
                    lsc_after = fst (normalized window), lsc_before = snd (normalized window)\<rparr>;
              kept = filter (wanted_first e window (li_host inp) (li_tags inp) scope) snaps;
              pub = map (publicSnapshot e) kept;
              total_count = int (length pub);
              start = min (li_offset inp) total_count;
              stop = min (start + limit) total_count;
              page = take (nat (stop - start)) (drop (nat start) pub);
              truncated = (stop < total_count)
          in answer_page d t rid sc truncated (truncated \<and> page \<noteq> []) obs
               \<lparr>ls_snapshots = page, ls_count = int (length page), ls_total = total_count,
                ls_offset = start, ls_limit = limit, ls_window = windowOutput (lsc_after sc) (lsc_before sc),
                ls_next_cursor = None,
                ls_freshness = (if li_freshness inp
                    then Some (first_freshness t e sc pub (partial_by_id e kept) groupBy cadence) else None),
                ls_cache = cache_field obs\<rparr>
               (w\<lparr>wo_rest := s\<rparr>))))"

section \<open>The handler\<close>

definition page_limit :: "int \<Rightarrow> int \<Rightarrow> int" where
  "page_limit requested mx = (if requested = 0 \<or> requested > mx then mx else requested)"

definition makeListSnapshots ::
    "deps \<Rightarrow> 's services \<Rightarrow> (string \<Rightarrow> int option) \<Rightarrow> moment \<Rightarrow> list_snapshots_in \<Rightarrow> 's world \<Rightarrow> 's answer" where
  "makeListSnapshots d sv parse_duration t inp w =
     (let rid = li_repository inp; fail = (\<lambda>err. failTool t list_tool rid err w) in
      case requireRepo d rid of
        Inl err \<Rightarrow> fail err
      | Inr e \<Rightarrow>
          if li_limit inp < 0 then fail (new_error InvalidArgument ''limit must be >= 0'')
          else if li_offset inp < 0 then fail (new_error InvalidArgument ''offset must be >= 0'')
          else
            let limit = page_limit (li_limit inp) (lm_max_snapshots (rg_limits (dp_registry d))) in
            case parseTimeWindow (li_after inp) (li_before inp) of
              Inl err \<Rightarrow> fail err
            | Inr window \<Rightarrow>
           (case validateFreshnessGroupBy (li_group_by inp) of
              Inl err \<Rightarrow> fail err
            | Inr groupBy \<Rightarrow>
           (case parseExpectedCadence parse_duration (li_cadence inp) of
              Inl err \<Rightarrow> fail err
            | Inr cadence \<Rightarrow>
                if li_cursor inp \<noteq> [] \<and> li_freshness inp
                  then fail (new_error InvalidArgument
                    ''include_freshness is computed from the first-page selection and cannot be combined with a cursor'')
                else if li_cursor inp \<noteq> [] then list_continue d sv t inp e limit w
                else list_first d sv t inp e limit window groupBy cadence w)))"

end
