(* ===== verification/ListPages.thy ===== *)
theory ListPages
  imports ListSnapshots
begin

text \<open>
  What the pages of \<open>list_snapshots\<close> add up to: every page shows only what the policy lets
  through, and a client that follows the cursors of an unchanged repository sees the whole
  listing once. The limits of a booted registry are positive (see \<open>Config\<close>), which is what
  the two properties assume of them.
\<close>

section \<open>Pages of the listing\<close>

lemma cursor_page_spec:
  "cursor_page e wanted limit ss out =
     (out @ map (publicSnapshot e) (take (nat limit - length out) (filter wanted ss)),
      nat limit - length out < length (filter wanted ss))"
proof (induction ss arbitrary: out)
  case Nil
  then show ?case by simp
next
  case (Cons s ss)
  show ?case
  proof (cases "wanted s \<and> int (length out) < limit")
    case True
    then have "nat limit - length out = Suc (nat limit - Suc (length out))" by linarith
    with Cons True show ?thesis by simp
  next
    case False
    then show ?thesis using Cons by auto
  qed
qed

text \<open>A last snapshot at Go's zero time leaves no marker: the page behind it is the first again.\<close>

lemma zero_marker_restarts:
  "cs_last_time st = zero_time \<Longrightarrow>
   wanted_after e window st s \<longleftrightarrow> wanted_first e window (cs_host st) (cs_tags st) (cs_path st) s"
  by (simp add: wanted_after_def wanted_first_def afterSnapshotMarker_def)

lemma afterSnapshotMarker_before:
  "sn_time x \<noteq> zero_time \<Longrightarrow> afterSnapshotMarker s (sn_time x) (sn_id x) = snapshot_before x s"
  by (auto simp: afterSnapshotMarker_def snapshot_before_def)

lemma filter_after:
  assumes "sorted_wrt lt xs" and "k < length xs" and "\<And>x y. lt x y \<Longrightarrow> \<not> lt y x"
  shows "filter (lt (xs ! k)) xs = drop (Suc k) xs"
proof -
  have split: "xs = take k xs @ xs ! k # drop (Suc k) xs" by (rule id_take_nth_drop [OF assms(2)])
  then have parts: "\<forall>y \<in> set (take k xs). lt y (xs ! k)" "\<forall>y \<in> set (drop (Suc k) xs). lt (xs ! k) y"
    using assms(1) by (metis sorted_wrt_append list.set_intros(1)) (metis assms(1) split sorted_wrt.simps(2) sorted_wrt_append)
  have "filter (lt (xs ! k)) xs =
      filter (lt (xs ! k)) (take k xs) @ filter (lt (xs ! k)) (xs ! k # drop (Suc k) xs)"
    using arg_cong [OF split, of "filter (lt (xs ! k))"] by simp
  moreover have "filter (lt (xs ! k)) (take k xs) = []"
    using parts(1) assms(3) by (auto simp: filter_empty_conv)
  moreover have "filter (lt (xs ! k)) (xs ! k # drop (Suc k) xs) = drop (Suc k) xs"
    using parts(2) assms(3) [of "xs ! k" "xs ! k"] by (auto simp: filter_id_conv)
  ultimately show ?thesis by simp
qed

text \<open>The listing a scope stands for, in the order of the pages.\<close>

definition listing :: "entry \<Rightarrow> time_window \<Rightarrow> list_scope \<Rightarrow> snapshot list \<Rightarrow> snapshot list" where
  "listing e window sc parsed =
     filter (wanted_first e window (lsc_host sc) (lsc_tags sc) (lsc_path sc)) parsed"

text \<open>The state of a cursor that continues a listing behind its first \<open>k\<close> snapshots.\<close>

definition at_position :: "string \<Rightarrow> list_scope \<Rightarrow> snapshot list \<Rightarrow> nat \<Rightarrow> cursor_state \<Rightarrow> bool" where
  "at_position rid sc whole k st \<longleftrightarrow>
     0 < k \<and> k < length whole \<and> cs_tool st = list_tool \<and> cs_repository st = rid \<and> scope_of st = sc \<and>
     cs_last_time st = sn_time (whole ! (k - 1)) \<and> cs_last_id st = sn_id (whole ! (k - 1)) \<and>
     cs_offset st = int k"

lemma page_after_marker:
  assumes "at_position rid sc whole k st" and "whole = listing e window sc parsed"
    and "sorted_wrt snapshot_before whole" and "\<forall>s \<in> set whole. sn_time s \<noteq> zero_time"
  shows "filter (wanted_after e window st) parsed = drop k whole"
proof -
  have pos: "0 < k" "k - 1 < length whole" using assms(1) by (auto simp: at_position_def)
  have "filter (wanted_after e window st) parsed =
      filter (\<lambda>s. afterSnapshotMarker s (sn_time (whole ! (k - 1))) (sn_id (whole ! (k - 1)))) whole"
    unfolding assms(2) listing_def filter_filter
    using assms(1) by (intro filter_cong refl)
      (auto simp: wanted_after_def wanted_first_def at_position_def scope_of_def assms(2) listing_def)
  also have "\<dots> = filter (snapshot_before (whole ! (k - 1))) whole"
    using assms(4) pos by (simp add: afterSnapshotMarker_before)
  also have "\<dots> = drop k whole"
    using filter_after [OF assms(3) pos(2)] pos(1) by (auto simp: snapshot_before_def split: if_splits)
  finally show ?thesis .
qed

section \<open>Cursors issued and redeemed\<close>

lemma issue_cursor_Inr:
  assumes "issue_cursor t state w = (Inr token, w')"
  shows "map_of (st_entries (wo_cursors w')) token =
      Some (state\<lparr>cs_version := cursorStateVersion, cs_created := at_issue t,
                  cs_expires := at_issue t + st_ttl (wo_cursors w)\<rparr>) \<and>
    token \<noteq> [] \<and> st_ttl (wo_cursors w') = st_ttl (wo_cursors w) \<and>
    wo_log w' = wo_log w \<and> wo_rest w' = wo_rest w"
  using assms
  by (auto simp: issue_cursor_def issue_def Let_def stamped_def update_conv' dest: length_token split: sum.splits prod.splits)

lemma issue_cursor_total:
  assumes "at_random t = Inr bytes"
  obtains token w' where "issue_cursor t state w = (Inr token, w')"
  using assms by (auto simp: issue_cursor_def issue_def newCursorToken_def Let_def split: prod.splits)

lemma redeem_cursor_live:
  assumes "map_of (st_entries (wo_cursors w)) token = Some st" and "at_take t < cs_expires st"
    and "cs_version st = cursorStateVersion" and "cs_tool st = tool" and "cs_repository st = rid"
  obtains w' where "redeem_cursor t token tool rid w = (Inr st, w')" and "wo_rest w' = wo_rest w"
    and "st_ttl (wo_cursors w') = st_ttl (wo_cursors w)"
  using assms by (auto simp: redeem_cursor_def take_cursor_def Let_def)

section \<open>The same options on every page\<close>

lemma single_host:
  assumes "en_hosts e = new_host_policy hs" and "policyVisible e s" and "hs = [h]"
  shows "sn_hostname s = h" and "check_host (en_hosts e) h = Inr ()"
proof -
  have "allows_host (new_host_policy [h]) (sn_hostname s)"
    using policyVisible_scope(1) [OF assms(2)] assms(1,3) by simp
  then show "sn_hostname s = h" by (simp add: allows_host_iff)
  with policyVisible_scope(1) [OF assms(2)] show "check_host (en_hosts e) h = Inr ()"
    by (simp add: allows_host_def)
qed

lemma wanted_state_host:
  assumes "en_hosts e = new_host_policy hs"
  shows "wanted_first e window (state_host e host) tags scope s = wanted_first e window host tags scope s"
proof (cases "host = [] \<and> length hs = 1")
  case True
  then obtain h where hs: "hs = [h]" by (auto simp: length_Suc_conv)
  then have sh: "state_host e host = h" using True assms by (simp add: state_host_def new_host_policy_def)
  show ?thesis
    unfolding wanted_first_def sh matchesSnapshotFilters_iff
    using True single_host(1) [OF assms _ hs] by auto
next
  case False
  then show ?thesis using assms by (auto simp: state_host_def new_host_policy_def)
qed

lemma cursor_opts_same:
  assumes sel: "selection_opts e [] host tags path = Inr (opts, scope)"
    and pol: "en_hosts e = new_host_policy hs" and vis: "policyVisible e s"
  shows "cursor_opts e (state_host e host) tags = Inr opts"
proof (cases "host = [] \<and> length hs = 1")
  case True
  then obtain h where hs: "hs = [h]" by (auto simp: length_Suc_conv)
  then have "state_host e host = h" "hp_allowed (en_hosts e) = [h]"
    using True pol by (simp_all add: state_host_def new_host_policy_def)
  with sel True single_host(2) [OF pol vis hs] show ?thesis
    by (auto simp: selection_opts_def cursor_opts_def no_snapshots_opts_def split: sum.splits if_splits)
next
  case False
  then have "state_host e host = host" using pol by (auto simp: state_host_def new_host_policy_def)
  with sel show ?thesis
    by (auto simp: selection_opts_def cursor_opts_def no_snapshots_opts_def split: sum.splits if_splits)
qed

section \<open>Following the cursors\<close>

text \<open>A listing restic repeats on every call, and responses that can be encoded and fit.\<close>

definition stable_listing :: "'s services \<Rightarrow> string \<Rightarrow> snapshot list \<Rightarrow> bool" where
  "stable_listing sv rid parsed \<longleftrightarrow>
     (\<forall>argv s. \<exists>res obs s'. sv_metadata sv rid argv s = (Inr (res, obs), s') \<and>
        ParseSnapshots (rr_stdout res) = Inr parsed)"

definition fitting :: "deps \<Rightarrow> bool" where
  "fitting d \<longleftrightarrow> (\<forall>env. \<exists>raw. dp_marshal d env = Some raw \<and>
     (dp_max_response d > 0 \<longrightarrow> int (length raw) \<le> dp_max_response d))"

lemma fitting_ok:
  assumes "fitting d"
  obtains raw where "okResult d cost data truncated warnings =
    ToolOk raw \<lparr>nv_cost = cost, nv_truncated = truncated, nv_data = data, nv_warnings = warnings\<rparr>"
proof -
  let ?env = "\<lparr>nv_cost = cost, nv_truncated = truncated, nv_data = data, nv_warnings = warnings\<rparr>"
  from assms obtain raw where "dp_marshal d ?env = Some raw"
      "dp_max_response d > 0 \<longrightarrow> int (length raw) \<le> dp_max_response d"
    unfolding fitting_def by blast
  then show ?thesis by (intro that [of raw]) (simp add: okResult_ToolOk)
qed

text \<open>The token leads to the rest of the listing behind its first \<open>k\<close> snapshots.\<close>

definition continues :: "string \<Rightarrow> list_scope \<Rightarrow> snapshot list \<Rightarrow> nat \<Rightarrow> int \<Rightarrow> 's world \<Rightarrow> string \<Rightarrow> bool" where
  "continues rid sc whole k expires w token \<longleftrightarrow>
     token \<noteq> [] \<and> (\<exists>st. map_of (st_entries (wo_cursors w)) token = Some st \<and>
       cs_version st = cursorStateVersion \<and> cs_expires st = expires \<and> at_position rid sc whole k st)"

text \<open>The answer shows \<open>n\<close> snapshots from number \<open>k\<close> on, and a cursor when there are more.\<close>

definition shows_page ::
    "entry \<Rightarrow> string \<Rightarrow> list_scope \<Rightarrow> snapshot list \<Rightarrow> nat \<Rightarrow> nat \<Rightarrow> int \<Rightarrow> int \<Rightarrow> 's answer \<Rightarrow> bool" where
  "shows_page e rid sc whole k n ttl expires ans \<longleftrightarrow>
     (\<exists>raw env w' ld. ans = (ToolOk raw env, w') \<and> nv_data env = ListData ld \<and>
        ls_snapshots ld = map (publicSnapshot e) (take n (drop k whole)) \<and>
        st_ttl (wo_cursors w') = ttl \<and>
        (if k + n < length whole
         then \<exists>token. ls_next_cursor ld = Some token \<and> continues rid sc whole (k + n) expires w' token
         else ls_next_cursor ld = None))"

lemma answer_page_shows:
  assumes "fitting d" and "at_random t = Inr bytes" and "0 < n"
    and "ls_snapshots out = map (publicSnapshot e) (take n (drop k whole))"
    and "ls_offset out = int k" and "ls_count out = int (length (ls_snapshots out))"
    and "ls_next_cursor out = None" and "needed \<longleftrightarrow> k + n < length whole"
  shows "shows_page e rid sc whole k n (st_ttl (wo_cursors w)) (at_issue t + st_ttl (wo_cursors w))
    (answer_page d t rid sc truncated needed obs out w)"
proof (cases needed)
  case False
  obtain raw where "okResult d CostLight (ListData out) truncated (metadataCacheWarning obs) = ToolOk raw
      \<lparr>nv_cost = CostLight, nv_truncated = truncated, nv_data = ListData out, nv_warnings = metadataCacheWarning obs\<rparr>"
    using fitting_ok [OF assms(1)] .
  with False assms(4,7,8) show ?thesis by (simp add: shows_page_def answer_page_def)
next
  case True
  with assms(8) have more: "k + n < length whole" by simp
  have page: "take n (drop k whole) \<noteq> []" using more assms(3) by simp
  have lst: "last (take n (drop k whole)) = whole ! (k + n - 1)"
    using more assms(3) by (simp add: last_conv_nth page)
  have last_pub: "last (ls_snapshots out) = publicSnapshot e (whole ! (k + n - 1))"
    using page lst by (simp add: assms(4) last_map)
  obtain token w' where issued: "issue_cursor t (next_state rid sc (last (ls_snapshots out))
      (ls_offset out + ls_count out) (ls_total out)) w = (Inr token, w')"
    using issue_cursor_total [OF assms(2)] by blast
  note st = issue_cursor_Inr [OF issued]
  obtain raw where "okResult d CostLight (ListData (out\<lparr>ls_next_cursor := Some token\<rparr>)) truncated (metadataCacheWarning obs) =
      ToolOk raw \<lparr>nv_cost = CostLight, nv_truncated = truncated,
        nv_data = ListData (out\<lparr>ls_next_cursor := Some token\<rparr>), nv_warnings = metadataCacheWarning obs\<rparr>"
    using fitting_ok [OF assms(1)] .
  moreover have "continues rid sc whole (k + n) (at_issue t + st_ttl (wo_cursors w)) w' token"
    using st more assms(3-6) last_pub
    by (auto simp: continues_def at_position_def next_state_def zero_cursor_state_def scope_of_def publicSnapshot_def)
  ultimately show ?thesis
    using True page st more issued assms(4) by (simp add: shows_page_def answer_page_def)
qed

lemma list_continue_shows:
  assumes cont: "continues rid sc whole k expires w (li_cursor inp)" and live: "at_take t < expires"
    and inp: "li_repository inp = rid" "li_offset inp = 0" "li_host inp = []" "li_tags inp = []"
      "li_path inp = []" "li_after inp = []" "li_before inp = []"
    and whole: "whole = listing e window sc parsed" "sorted_wrt snapshot_before whole"
      "\<forall>s \<in> set whole. sn_time s \<noteq> zero_time"
    and win: "parseTimeWindow (lsc_after sc) (lsc_before sc) = Inr window"
    and opts: "cursor_opts e (lsc_host sc) (lsc_tags sc) = Inr opts" "BuildSnapshotsArgv opts = Inr argv"
    and env: "stable_listing sv rid parsed" "fitting d" "at_random t = Inr bytes" "0 < limit"
  shows "shows_page e rid sc whole k (nat limit) (st_ttl (wo_cursors w)) (at_issue t + st_ttl (wo_cursors w))
    (list_continue d sv t inp e limit w)"
proof -
  from cont obtain st where st: "map_of (st_entries (wo_cursors w)) (li_cursor inp) = Some st"
      "cs_version st = cursorStateVersion" "cs_expires st = expires" "at_position rid sc whole k st"
    by (auto simp: continues_def)
  then have tool: "cs_tool st = list_tool" "cs_repository st = rid" "scope_of st = sc" "cs_offset st = int k"
    by (auto simp: at_position_def)
  have "at_take t < cs_expires st" using live st(3) by simp
  from redeem_cursor_live [OF st(1) this st(2) tool(1,2)] obtain w1 where
    w1: "redeem_cursor t (li_cursor inp) list_tool rid w = (Inr st, w1)" "wo_rest w1 = wo_rest w"
      "st_ttl (wo_cursors w1) = st_ttl (wo_cursors w)" .
  have scope: "cs_host st = lsc_host sc" "cs_tags st = lsc_tags sc" "cs_after st = lsc_after sc"
      "cs_before st = lsc_before sc"
    using tool(3) by (auto simp: scope_of_def)
  from env(1) obtain res obs s' where res: "sv_metadata sv rid argv (wo_rest w1) = (Inr (res, obs), s')"
      "ParseSnapshots (rr_stdout res) = Inr parsed"
    unfolding stable_listing_def by blast
  have fetched: "listSnapshotsForCursor (sv_metadata sv) e rid st limit (wo_rest w1) =
      (Inr (map (publicSnapshot e) (take (nat limit) (drop k whole)), k + nat limit < length whole, obs), s')"
    using page_after_marker [OF st(4) whole]
    by (auto simp: listSnapshotsForCursor_def scope win opts fetch_snapshots_def res cursor_page_spec)
  show ?thesis
    using answer_page_shows [OF env(2,3), of "nat limit" _ e k whole "k + nat limit < length whole" rid sc
        "w1\<lparr>wo_rest := s'\<rparr>" "k + nat limit < length whole" obs] env(4) w1(3)
    by (simp add: list_continue_def inp w1(1) fetched tool(3,4))
qed

definition first_scope :: "entry \<Rightarrow> list_snapshots_in \<Rightarrow> time_window \<Rightarrow> string \<Rightarrow> list_scope" where
  "first_scope e inp window scope =
     \<lparr>lsc_host = state_host e (li_host inp), lsc_tags = li_tags inp, lsc_path = scope,
      lsc_after = fst (normalized window), lsc_before = snd (normalized window)\<rparr>"

lemma list_first_shows:
  assumes opts: "selection_opts e [] (li_host inp) (li_tags inp) (li_path inp) = Inr (opts, scope)"
      "BuildSnapshotsArgv opts = Inr argv"
    and whole: "whole = filter (wanted_first e window (li_host inp) (li_tags inp) scope) parsed"
    and env: "stable_listing sv (li_repository inp) parsed" "fitting d" "at_random t = Inr bytes"
      "0 < limit" "0 \<le> li_offset inp"
  shows "shows_page e (li_repository inp) (first_scope e inp window scope) whole
    (nat (min (li_offset inp) (int (length whole)))) (nat limit)
    (st_ttl (wo_cursors w)) (at_issue t + st_ttl (wo_cursors w))
    (list_first d sv t inp e limit window groupBy cadence w)"
proof -
  define k where "k = nat (min (li_offset inp) (int (length whole)))"
  define n where "n = nat limit"
  have k: "min (li_offset inp) (int (length whole)) = int k" using env(5) by (simp add: k_def)
  have kw: "k \<le> length whole" by (simp add: k_def)
  from env(1) obtain res obs s' where res: "sv_metadata sv (li_repository inp) argv (wo_rest w) = (Inr (res, obs), s')"
      "ParseSnapshots (rr_stdout res) = Inr parsed"
    unfolding stable_listing_def by blast
  have stop: "nat (min (int k + limit) (int (length whole)) - int k) = min n (length whole - k)"
    using env(4) kw by (simp add: n_def)
  have page: "take (min n (length whole - k)) (drop k (map (publicSnapshot e) whole)) =
      map (publicSnapshot e) (take n (drop k whole))"
    by (simp add: take_map drop_map min_def)
  have more: "min (int k + limit) (int (length whole)) < int (length whole) \<longleftrightarrow> k + n < length whole"
    using env(4) by (simp add: n_def) linarith
  have ne: "k + n < length whole \<Longrightarrow> take n (drop k whole) \<noteq> []" using env(4) by (simp add: n_def)
  have answer: "shows_page e rid sc whole k n (st_ttl (wo_cursors w)) (at_issue t + st_ttl (wo_cursors w))
      (answer_page d t rid sc truncated
        (k + n < length whole \<and> map (publicSnapshot e) (take n (drop k whole)) \<noteq> []) obs out (w\<lparr>wo_rest := s'\<rparr>))"
    if "ls_snapshots out = map (publicSnapshot e) (take n (drop k whole))" "ls_offset out = int k"
      "ls_count out = int (length (take n (drop k whole)))" "ls_next_cursor out = None" for rid sc truncated out
  proof -
    have flag: "(k + n < length whole \<and> map (publicSnapshot e) (take n (drop k whole)) \<noteq> []) \<longleftrightarrow> k + n < length whole"
      using ne by auto
    have "0 < n" using env(4) by (simp add: n_def)
    from answer_page_shows [OF env(2,3) this that(1,2) _ that(4), where w = "w\<lparr>wo_rest := s'\<rparr>"
        and needed = "k + n < length whole"] that(1,3)
    show ?thesis unfolding flag by simp
  qed
  show ?thesis
    unfolding list_first_def Let_def opts whole [symmetric] length_map k nat_int n_def [symmetric]
    by (simp only: sum.case prod.case fetch_snapshots_def opts res k length_map nat_int stop page more
        whole [symmetric] first_scope_def [symmetric])
      (rule answer; simp)
qed

text \<open>A client that follows the cursors, with one request after another and bounded fuel.\<close>

definition cursor_request :: "string \<Rightarrow> string \<Rightarrow> int \<Rightarrow> list_snapshots_in" where
  "cursor_request rid token limit =
     \<lparr>li_repository = rid, li_host = [], li_tags = [], li_path = [], li_limit = limit, li_offset = 0,
      li_after = [], li_before = [], li_cursor = token, li_freshness = False, li_cadence = [],
      li_group_by = []\<rparr>"

fun follow_pages ::
    "deps \<Rightarrow> 's services \<Rightarrow> (string \<Rightarrow> int option) \<Rightarrow> (nat \<Rightarrow> moment) \<Rightarrow> (nat \<Rightarrow> int) \<Rightarrow> string \<Rightarrow> nat \<Rightarrow> nat \<Rightarrow>
     's answer \<Rightarrow> snapshot list option" where
  "follow_pages d sv pd ts lims rid i 0 ans = None"
| "follow_pages d sv pd ts lims rid i (Suc fuel) ans =
     (case ans of
        (ToolOk raw env, w) \<Rightarrow>
          (case nv_data env of
             ListData ld \<Rightarrow>
               (case ls_next_cursor ld of
                  None \<Rightarrow> Some (ls_snapshots ld)
                | Some token \<Rightarrow>
                    map_option ((@) (ls_snapshots ld))
                      (follow_pages d sv pd ts lims rid (Suc i) fuel
                        (makeListSnapshots d sv pd (ts i) (cursor_request rid token (lims i)) w)))
           | _ \<Rightarrow> None)
      | _ \<Rightarrow> None)"

lemma page_limit_pos: "0 < mx \<Longrightarrow> 0 \<le> n \<Longrightarrow> 0 < page_limit n mx"
  by (simp add: page_limit_def)

lemma cursor_request_continues:
  assumes "requireRepo d rid = Inr e" and "token \<noteq> []" and "0 \<le> limit"
  shows "makeListSnapshots d sv pd t (cursor_request rid token limit) w =
    list_continue d sv t (cursor_request rid token limit) e
      (page_limit limit (lm_max_snapshots (rg_limits (dp_registry d)))) w"
  using assms
  by (simp add: makeListSnapshots_def cursor_request_def parseTimeWindow_def parse_bound_def
      validateFreshnessGroupBy_def parseExpectedCadence_def Let_def)

lemma follow_pages_spec:
  assumes repo: "requireRepo d rid = Inr e" "0 < lm_max_snapshots (rg_limits (dp_registry d))"
    and whole: "whole = listing e window sc parsed" "sorted_wrt snapshot_before whole"
      "\<forall>s \<in> set whole. sn_time s \<noteq> zero_time"
    and win: "parseTimeWindow (lsc_after sc) (lsc_before sc) = Inr window"
    and opts: "\<And>s. s \<in> set whole \<Longrightarrow> cursor_opts e (lsc_host sc) (lsc_tags sc) = Inr opts"
      "BuildSnapshotsArgv opts = Inr argv"
    and env: "stable_listing sv rid parsed" "fitting d"
    and ts: "\<And>i. \<exists>bytes. at_random (ts i) = Inr bytes" "\<And>i. at_take (ts (Suc i)) < at_issue (ts i) + ttl"
      "\<And>i. 0 \<le> lims i"
    and start: "shows_page e rid sc whole k n ttl (at_issue (ts i) + ttl) ans" "0 < n" "length whole - k \<le> fuel"
  shows "follow_pages d sv pd ts lims rid (Suc i) (Suc fuel) ans = Some (map (publicSnapshot e) (drop k whole))"
  using start
proof (induction fuel arbitrary: k n i ans)
  case (0 k n i ans)
  then have "\<not> k + n < length whole" by simp
  with 0 show ?case by (auto simp: shows_page_def)
next
  case (Suc fuel k n i ans)
  from Suc.prems(1) obtain raw en w' ld where ans: "ans = (ToolOk raw en, w')" "nv_data en = ListData ld"
    and shown: "ls_snapshots ld = map (publicSnapshot e) (take n (drop k whole))"
    and ttl: "st_ttl (wo_cursors w') = ttl"
    and next_page: "if k + n < length whole
      then \<exists>token. ls_next_cursor ld = Some token \<and> continues rid sc whole (k + n) (at_issue (ts i) + ttl) w' token
      else ls_next_cursor ld = None"
    unfolding shows_page_def by blast
  show ?case
  proof (cases "k + n < length whole")
    case False
    with ans shown next_page show ?thesis by simp
  next
    case True
    with next_page obtain token where tok: "ls_next_cursor ld = Some token"
        "continues rid sc whole (k + n) (at_issue (ts i) + ttl) w' token" by auto
    then have ne: "token \<noteq> []" by (simp add: continues_def)
    define limit where "limit = page_limit (lims (Suc i)) (lm_max_snapshots (rg_limits (dp_registry d)))"
    have limit: "0 < limit" using page_limit_pos [OF repo(2) ts(3)] by (simp add: limit_def)
    obtain bytes where bytes: "at_random (ts (Suc i)) = Inr bytes" using ts(1) by blast
    have "whole ! k \<in> set whole" using True by simp
    from opts(1) [OF this] have copts: "cursor_opts e (lsc_host sc) (lsc_tags sc) = Inr opts" .
    have "shows_page e rid sc whole (k + n) (nat limit) (st_ttl (wo_cursors w'))
        (at_issue (ts (Suc i)) + st_ttl (wo_cursors w'))
        (list_continue d sv (ts (Suc i)) (cursor_request rid token (lims (Suc i))) e limit w')"
      by (rule list_continue_shows [OF _ ts(2) _ _ _ _ _ _ _ whole win copts opts(2) env bytes limit])
        (use tok in \<open>simp_all add: cursor_request_def\<close>)
    then have "shows_page e rid sc whole (k + n) (nat limit) ttl (at_issue (ts (Suc i)) + ttl)
        (makeListSnapshots d sv pd (ts (Suc i)) (cursor_request rid token (lims (Suc i))) w')"
      by (simp add: cursor_request_continues [OF repo(1) ne ts(3)] limit_def [symmetric] ttl)
    from Suc.IH [OF this] limit Suc.prems(2,3) have
      "follow_pages d sv pd ts lims rid (Suc (Suc i)) (Suc fuel)
        (makeListSnapshots d sv pd (ts (Suc i)) (cursor_request rid token (lims (Suc i))) w') =
       Some (map (publicSnapshot e) (drop (k + n) whole))" by simp
    moreover have "take n (drop k whole) @ drop (k + n) whole = drop k whole"
      by (metis append_take_drop_id drop_drop add.commute)
    ultimately show ?thesis
      using ans tok(1) shown by (simp only: follow_pages.simps prod.case tool_result.case tool_data.case
          option.case option.map map_append [symmetric])
  qed
qed

section \<open>What a first page has passed\<close>

lemma makeListSnapshots_ok:
  assumes "makeListSnapshots d sv pd t inp w = (ToolOk raw env, w')"
  obtains e window groupBy cadence where "requireRepo d (li_repository inp) = Inr e"
    and "0 \<le> li_limit inp" and "0 \<le> li_offset inp"
    and "parseTimeWindow (li_after inp) (li_before inp) = Inr window"
    and "(if li_cursor inp \<noteq> [] then
        list_continue d sv t inp e (page_limit (li_limit inp) (lm_max_snapshots (rg_limits (dp_registry d)))) w
      else list_first d sv t inp e (page_limit (li_limit inp) (lm_max_snapshots (rg_limits (dp_registry d))))
        window groupBy cadence w) = (ToolOk raw env, w')"
  using assms by (auto simp: makeListSnapshots_def Let_def split: sum.splits if_splits)

lemma list_first_ok:
  assumes "list_first d sv t inp e limit window groupBy cadence w = (ToolOk raw env, w')"
  obtains opts scope argv where
    "selection_opts e [] (li_host inp) (li_tags inp) (li_path inp) = Inr (opts, scope)"
    "BuildSnapshotsArgv opts = Inr argv"
  using assms by (auto simp: list_first_def Let_def split: sum.splits prod.splits)

lemma sorted_strict:
  assumes "ParseSnapshots bytes = Inr ss" and "distinct (map (\<lambda>s. (sn_time s, sn_id s)) ss)"
  shows "sorted_wrt snapshot_before ss"
proof -
  have "snapshot_before (ss ! i) (ss ! j)" if "i < j" "j < length ss" for i j
  proof -
    have "\<not> snapshot_before (ss ! j) (ss ! i)"
      using parsed_sorted [OF assms(1)] that by (simp add: sorted_wrt_iff_nth_less)
    moreover have "map (\<lambda>s. (sn_time s, sn_id s)) ss ! i \<noteq> map (\<lambda>s. (sn_time s, sn_id s)) ss ! j"
      using assms(2) that by (subst nth_eq_iff_index_eq) simp_all
    then have "(sn_time (ss ! i), sn_id (ss ! i)) \<noteq> (sn_time (ss ! j), sn_id (ss ! j))"
      using that by simp
    ultimately show ?thesis by (auto simp: snapshot_before_def split: if_splits)
  qed
  then show ?thesis by (simp add: sorted_wrt_iff_nth_less)
qed

lemma window_again:
  assumes "parseTimeWindow after before = Inr w" and "pred_option in_years (tw_after w)"
    and "pred_option in_years (tw_before w)"
  shows "parseTimeWindow (fst (normalized w)) (snd (normalized w)) = Inr w"
proof -
  have "\<not> (tw_after w \<noteq> None \<and> tw_before w \<noteq> None \<and> \<not> the (tw_after w) < the (tw_before w))"
    using assms(1) by (auto simp: parseTimeWindow_def split: sum.splits if_splits)
  then show ?thesis using assms(2,3) by (auto simp: parseTimeWindow_def normalized_def parse_format_bound)
qed

section \<open>What an answered page says\<close>

lemma answer_page_ok:
  assumes "answer_page d t rid sc truncated needed obs out w = (ToolOk raw env, w')" and "ls_next_cursor out = None"
  obtains ld where "nv_data env = ListData ld" and "ls_snapshots ld = ls_snapshots out"
    and "nv_truncated env = truncated" and "(ls_next_cursor ld \<noteq> None) = needed" and "wo_rest w' = wo_rest w"
    and "dp_max_response d > 0 \<longrightarrow> int (length raw) \<le> dp_max_response d"
  using assms
  by (auto simp: answer_page_def okResult_ToolOk dest: issue_cursor_Inr split: if_splits prod.splits sum.splits)

lemma redeem_cursor_rest: "redeem_cursor t token tool rid w = (r, w') \<Longrightarrow> wo_rest w' = wo_rest w"
  by (auto simp: redeem_cursor_def split: prod.splits)

text \<open>
  The claim of a page, for the entry, the bound on its length and the calls it made.
\<close>

definition page_ok :: "deps \<Rightarrow> 's services \<Rightarrow> string \<Rightarrow> entry \<Rightarrow> int \<Rightarrow> 's world \<Rightarrow> 's answer \<Rightarrow> bool" where
  "page_ok d sv rid e limit w ans \<longleftrightarrow>
     (\<forall>raw env w'. ans = (ToolOk raw env, w') \<longrightarrow>
        (\<exists>ld argv res obs parsed. nv_data env = ListData ld \<and>
           sv_metadata sv rid argv (wo_rest w) = (Inr (res, obs), wo_rest w') \<and>
           ParseSnapshots (rr_stdout res) = Inr parsed \<and> int (length (ls_snapshots ld)) \<le> limit \<and>
           (\<forall>x \<in> set (ls_snapshots ld). \<exists>s \<in> set parsed. policyVisible e s \<and> x = publicSnapshot e s) \<and>
           nv_truncated env = (ls_next_cursor ld \<noteq> None) \<and>
           (dp_max_response d > 0 \<longrightarrow> int (length raw) \<le> dp_max_response d)))"

lemma fetch_snapshots_Inr:
  assumes "fetch_snapshots metadata rid bad opts w = (Inr (snaps, obs), w')"
  obtains argv res where "metadata rid argv w = (Inr (res, obs), w')" and "ParseSnapshots (rr_stdout res) = Inr snaps"
  using assms by (auto simp: fetch_snapshots_def split: sum.splits prod.splits)

lemma page_okI:
  assumes "answer_page d t rid' sc truncated needed obs out w1 = ans" and "ls_next_cursor out = None"
    and "truncated \<longleftrightarrow> needed" and "fetch_snapshots (sv_metadata sv) rid bad opts (wo_rest w) = (Inr (parsed, obs'), wo_rest w1)"
    and "int (length (ls_snapshots out)) \<le> limit"
    and "\<forall>x \<in> set (ls_snapshots out). \<exists>s \<in> set parsed. policyVisible e s \<and> x = publicSnapshot e s"
  shows "page_ok d sv rid e limit w ans"
  unfolding page_ok_def
proof (intro allI impI)
  fix raw env w' assume "ans = (ToolOk raw env, w')"
  with assms(1) have "answer_page d t rid' sc truncated needed obs out w1 = (ToolOk raw env, w')" by simp
  from answer_page_ok [OF this assms(2)] obtain ld where
    ld: "nv_data env = ListData ld" "ls_snapshots ld = ls_snapshots out" "nv_truncated env = truncated"
      "(ls_next_cursor ld \<noteq> None) = needed" "wo_rest w' = wo_rest w1"
      "dp_max_response d > 0 \<longrightarrow> int (length raw) \<le> dp_max_response d" .
  from fetch_snapshots_Inr [OF assms(4)] obtain argv res where
    "sv_metadata sv rid argv (wo_rest w) = (Inr (res, obs'), wo_rest w1)" "ParseSnapshots (rr_stdout res) = Inr parsed" .
  with ld assms(3,5,6) show "\<exists>ld argv res obs parsed. nv_data env = ListData ld \<and>
           sv_metadata sv rid argv (wo_rest w) = (Inr (res, obs), wo_rest w') \<and>
           ParseSnapshots (rr_stdout res) = Inr parsed \<and> int (length (ls_snapshots ld)) \<le> limit \<and>
           (\<forall>x \<in> set (ls_snapshots ld). \<exists>s \<in> set parsed. policyVisible e s \<and> x = publicSnapshot e s) \<and>
           nv_truncated env = (ls_next_cursor ld \<noteq> None) \<and>
           (dp_max_response d > 0 \<longrightarrow> int (length raw) \<le> dp_max_response d)"
    by (intro exI [of _ ld] exI [of _ argv] exI [of _ res] exI [of _ obs'] exI [of _ parsed]) simp
qed

lemma page_okD:
  assumes "page_ok d sv rid e limit w (ToolOk raw env, w')"
  shows "\<exists>ld argv res obs parsed. nv_data env = ListData ld \<and>
    sv_metadata sv rid argv (wo_rest w) = (Inr (res, obs), wo_rest w') \<and>
    ParseSnapshots (rr_stdout res) = Inr parsed \<and> int (length (ls_snapshots ld)) \<le> limit \<and>
    (\<forall>x \<in> set (ls_snapshots ld). \<exists>s \<in> set parsed. policyVisible e s \<and> x = publicSnapshot e s) \<and>
    nv_truncated env = (ls_next_cursor ld \<noteq> None) \<and>
    (dp_max_response d > 0 \<longrightarrow> int (length raw) \<le> dp_max_response d)"
  using assms unfolding page_ok_def by (elim allE) (erule mp; rule refl)

lemma page_ok_fail [simp]: "page_ok d sv rid e limit w (failTool t tool rid' err w')"
  "page_ok d sv rid e limit w (errTool err, w')"
  by (simp_all add: page_ok_def)

lemma list_continue_page_ok:
  assumes "0 < limit"
  shows "page_ok d sv (li_repository inp) e limit w (list_continue d sv t inp e limit w)"
proof (cases "redeem_cursor t (li_cursor inp) list_tool (li_repository inp) w")
  case (Pair r w1)
  show ?thesis
  proof (cases r)
    case (Inl err)
    with Pair show ?thesis by (simp add: list_continue_def Let_def)
  next
    case (Inr st)
    show ?thesis
    proof (cases "listSnapshotsForCursor (sv_metadata sv) e (li_repository inp) st limit (wo_rest w1)")
      case fetched: (Pair q s)
      show ?thesis
      proof (cases q)
        case (Inl err)
        with Pair Inr fetched show ?thesis by (simp add: list_continue_def Let_def)
      next
        case q: (Inr pm)
        obtain page has_next obs where pm: "pm = (page, has_next, obs)" by (cases pm)
        from fetched q pm obtain window opts parsed where
          f: "fetch_snapshots (sv_metadata sv) (li_repository inp) bad_filter opts (wo_rest w1) = (Inr (parsed, obs), s)"
          and page: "page = map (publicSnapshot e) (take (nat limit) (filter (wanted_after e window st) parsed))"
          by (auto simp: listSnapshotsForCursor_def cursor_page_spec split: sum.splits prod.splits)
        have "\<forall>x \<in> set page. \<exists>s \<in> set parsed. policyVisible e s \<and> x = publicSnapshot e s"
          unfolding page by (auto simp: wanted_after_def dest!: in_set_takeD)
        moreover have "int (length page) \<le> limit" using assms by (simp add: page)
        ultimately have "page_ok d sv (li_repository inp) e limit w
            (answer_page d t (li_repository inp) (scope_of st) has_next has_next obs
               \<lparr>ls_snapshots = page, ls_count = int (length page), ls_total = cs_total st,
                ls_offset = cs_offset st, ls_limit = limit,
                ls_window = windowOutput (cs_after st) (cs_before st), ls_next_cursor = None,
                ls_freshness = None, ls_cache = cache_field obs\<rparr> (w1\<lparr>wo_rest := s\<rparr>))"
          using f redeem_cursor_rest [OF Pair] by (intro page_okI [OF refl]) simp_all
        with Pair Inr fetched q pm show ?thesis by (simp add: list_continue_def Let_def)
      qed
    qed
  qed
qed

lemma list_first_page_ok:
  assumes "0 < limit" and "0 \<le> li_offset inp"
  shows "page_ok d sv (li_repository inp) e limit w (list_first d sv t inp e limit window groupBy cadence w)"
proof (cases "selection_opts e [] (li_host inp) (li_tags inp) (li_path inp)")
  case (Inl err)
  then show ?thesis by (simp add: list_first_def Let_def)
next
  case sel: (Inr os)
  obtain opts scope where os: "os = (opts, scope)" by fastforce
  obtain q s where f: "fetch_snapshots (sv_metadata sv) (li_repository inp) bad_filter opts (wo_rest w) = (q, s)"
    by fastforce
  show ?thesis
  proof (cases q)
    case (Inl err)
    then show ?thesis using sel os f by (simp add: list_first_def Let_def split: sum.split)
  next
    case q: (Inr so)
    obtain parsed obs where so: "so = (parsed, obs)" by fastforce
    define kept where "kept = filter (wanted_first e window (li_host inp) (li_tags inp) scope) parsed"
    define start where "start = min (li_offset inp) (int (length kept))"
    define stop where "stop = min (start + limit) (int (length kept))"
    define page where "page = take (nat (stop - start)) (drop (nat start) (map (publicSnapshot e) kept))"
    have range: "0 \<le> start" "start \<le> int (length kept)" "stop - start \<le> limit" "start \<le> stop"
      using assms by (auto simp: start_def stop_def)
    have needed: "stop < int (length kept) \<longleftrightarrow> stop < int (length kept) \<and> page \<noteq> []"
      using range assms by (auto simp: page_def stop_def)
    have "\<forall>x \<in> set page. \<exists>s \<in> set parsed. policyVisible e s \<and> x = publicSnapshot e s"
      by (auto simp: page_def kept_def wanted_first_def dest!: in_set_takeD in_set_dropD)
    moreover have "int (length page) \<le> limit" using range assms(1) by (simp add: page_def)
    ultimately have "page_ok d sv (li_repository inp) e limit w
        (answer_page d t (li_repository inp) sc (stop < int (length kept)) (stop < int (length kept) \<and> page \<noteq> []) obs
           out (w\<lparr>wo_rest := s\<rparr>))" if "ls_snapshots out = page" "ls_next_cursor out = None" for sc out
      using f q so that by (intro page_okI [OF refl _ needed]) simp_all
    then show ?thesis
      unfolding list_first_def Let_def sel os sum.case prod.case f q so kept_def [symmetric] length_map
        start_def [symmetric] stop_def [symmetric] page_def [symmetric]
      by (cases "BuildSnapshotsArgv opts") simp_all
  qed
qed

section \<open>Properties\<close>


section \<open>A sample repository\<close>

text \<open>Two snapshots of one second, shown one at a time.\<close>

definition dated_doc :: string where
  "dated_doc = ''[{\"id\":\"deadbeef\",\"time\":\"2024-02-29T21:59:59Z\"},{\"id\":\"cafecafe\",\"time\":\"2024-02-29T21:59:59Z\"}]''"

definition dated :: "string \<Rightarrow> snapshot" where
  "dated sid = sample_snapshot\<lparr>sn_time := 1709243999000000000, sn_id := sid\<rparr>"

lemma dated_time: "parse_time_strict ''2024-02-29T21:59:59Z'' = Some 1709243999000000000"
proof -
  have "parse_time ''2024-02-29T21:59:59Z'' = Some 1709243999000000000"
    by (simp add: parse_time_def get_year_def getnum.simps is_digit_def digit_val_def byte_def
        digits_val_Cons check_def get_fraction_def get_zone_def Let_def second_ns_def
        month_days_def is_leap_def days_of_date_def days_before_year_def days_before_month_def
        epoch_days_def upt_rec)
  then show ?thesis by (simp add: parse_time_strict_def check_def)
qed

lemma dated_parse: "ParseSnapshots dated_doc = Inr [dated ''cafecafe'', dated ''deadbeef'']"
proof -
  let ?raw = "\<lambda>sid. zero_raw_snapshot\<lparr>rs_id := sid, rs_time := 1709243999000000000\<rparr>"
  let ?obj = "\<lambda>sid. JObj [(''id'', JStr sid), (''time'', JStr ''2024-02-29T21:59:59Z'')]"
  have trim: "trim_space dated_doc = dated_doc"
    by (simp add: dated_doc_def trim_space_def rune_chunks_ascii byte_def is_space_def)
  have json: "json_unmarshal dated_doc = Some (JArr [?obj ''deadbeef'', ?obj ''cafecafe''])"
    by (simp add: dated_doc_def json_unmarshal_def scan_simps)
  have dec: "dec_raw_snapshots (JArr [?obj ''deadbeef'', ?obj ''cafecafe'']) = Some [?raw ''deadbeef'', ?raw ''cafecafe'']"
    by (simp add: dec_raw_snapshots_def raw_snapshot_field_def dec_simps unquote.simps unquote_head_def
        dec_time_def dated_time)
  have clean: "SanitizeString ''deadbeef'' = ''deadbeef''" "SanitizeString ''cafecafe'' = ''cafecafe''"
    "SanitizeString [] = []"
    by (simp_all add: sanitize_simps)
  have norm: "normalizeSnapshot (?raw ''deadbeef'') = Inr (dated ''deadbeef'')"
    "normalizeSnapshot (?raw ''cafecafe'') = Inr (dated ''cafecafe'')"
    by (simp_all add: clean normalizeSnapshot_def zero_raw_snapshot_def valid_snapshot_id_def is_hex_def
        runes_def clean_snapshot_paths_def check_snapshot_tags_def rune_chunks_ascii byte_def
        Let_def dated_def sample_snapshot_def)
  have order: "snapshot_before (dated ''cafecafe'') (dated ''deadbeef'')"
    by (simp add: snapshot_before_def dated_def sample_snapshot_def less_char_def)
  have "dated_doc \<noteq> []" by (simp add: dated_doc_def)
  then show ?thesis
    unfolding ParseSnapshots_def trim Let_def json by (simp add: dec norm order)
qed
definition sample_deps :: deps where
  "sample_deps =
     \<lparr>dp_registry = \<lparr>rg_entries = [(''home'', open_entry)], rg_order = [''home''],
        rg_limits = \<lparr>lm_command_timeout = 0, lm_expensive_timeout = 0, lm_max_snapshots = 1, lm_max_nodes = 1,
          lm_max_find_results = 1, lm_max_output_bytes = 0, lm_max_scan_bytes = 0, lm_max_decoded = 0,
          lm_max_response_bytes = 0, lm_per_repo = 1, lm_global = 1, lm_cache_ttl = 0, lm_cache_entries = 0\<rparr>,
        rg_global = 1\<rparr>,
      dp_restic_version = [], dp_server_version = [], dp_max_response = 0, dp_marshal = (\<lambda>_. Some [])\<rparr>"

definition sample_services :: "string \<Rightarrow> unit services" where
  "sample_services out =
     \<lparr>sv_metadata = printed out, sv_run = (\<lambda>_ _ w. (Inl request_cancelled, w)),
      sv_scan = (\<lambda>_ _ w. (Inl request_cancelled, w))\<rparr>"

definition sample_moment :: moment where
  "sample_moment = \<lparr>at_take = 0, at_issue = 0, at_random = Inr (\<lambda>_. CHR ''x''), at_log = 0, at_observed = 0\<rparr>"

definition sample_world :: "unit world" where
  "sample_world = \<lparr>wo_cursors = newCursorStore, wo_log = None, wo_rest = ()\<rparr>"

definition list_request :: list_snapshots_in where
  "list_request = cursor_request ''home'' [] 1"

lemma sample_stable: "ParseSnapshots out = Inr parsed \<Longrightarrow> stable_listing (sample_services out) rid parsed"
  by (simp add: stable_listing_def sample_services_def printed_def)

lemma sample_fitting: "fitting sample_deps"
  by (simp add: fitting_def sample_deps_def)

lemma sample_entry: "map_of (rg_entries (dp_registry sample_deps)) ''home'' = Some open_entry"
  by (simp add: sample_deps_def)

lemma sample_visible: "sn_hostname s = [] \<Longrightarrow> sn_tags s = [] \<Longrightarrow> policyVisible open_entry s"
  by (simp add: policyVisible_def snapshot_visible_def open_entry_def allows_host_def check_host_def
      new_host_policy_def new_tag_policy_def)

lemma sample_first:
  "\<exists>raw env w'. makeListSnapshots sample_deps (sample_services dated_doc) pd sample_moment list_request sample_world =
     (ToolOk raw env, w')"
proof -
  let ?win = "\<lparr>tw_after = None, tw_before = None\<rparr>"
  have "makeListSnapshots sample_deps (sample_services dated_doc) pd sample_moment list_request sample_world =
      list_first sample_deps (sample_services dated_doc) sample_moment list_request open_entry 1 ?win ''host'' 0 sample_world"
    by (simp add: makeListSnapshots_def list_request_def cursor_request_def parseTimeWindow_def parse_bound_def
        validateFreshnessGroupBy_def parseExpectedCadence_def Let_def requireRepo_def get_entry_def sample_entry
        page_limit_def) (simp add: sample_deps_def)
  moreover have "selection_opts open_entry [] [] [] [] = Inr (no_snapshots_opts, [])"
    by (simp add: selection_opts_def open_entry_def new_host_policy_def no_snapshots_opts_def)
  moreover have "BuildSnapshotsArgv no_snapshots_opts = Inr [CmdSnapshots, ''--json'']"
    by (simp add: BuildSnapshotsArgv_def no_snapshots_opts_def)
  ultimately show ?thesis
    using list_first_shows [of open_entry list_request no_snapshots_opts "[]" _ _ ?win
        "[dated ''cafecafe'', dated ''deadbeef'']" "sample_services dated_doc" sample_deps sample_moment _ 1
        sample_world "''host''" 0, OF _ _ refl sample_stable [OF dated_parse] sample_fitting]
    by (simp add: list_request_def cursor_request_def sample_moment_def shows_page_def) blast
qed

text \<open>
  A page shows only what the policy lets through. When \<open>list_snapshots\<close> answers, on the
  first page or behind a cursor, the page holds no more snapshots than the limit in force,
  each the public form of a snapshot that restic printed during this very call and that the
  repository's policy makes visible; the encoded response respects the configured bound; and
  a cursor is handed out exactly when the answer calls itself truncated.
\<close>
theorem list_page_sound:
  assumes "makeListSnapshots d sv pd t inp w = (ToolOk raw env, w')"
    and "0 < lm_max_snapshots (rg_limits (dp_registry d))"
  shows "\<exists>e ld argv res obs parsed. requireRepo d (li_repository inp) = Inr e \<and> nv_data env = ListData ld \<and>
    sv_metadata sv (li_repository inp) argv (wo_rest w) = (Inr (res, obs), wo_rest w') \<and>
    ParseSnapshots (rr_stdout res) = Inr parsed \<and>
    int (length (ls_snapshots ld)) \<le> page_limit (li_limit inp) (lm_max_snapshots (rg_limits (dp_registry d))) \<and>
    (\<forall>x \<in> set (ls_snapshots ld). \<exists>s \<in> set parsed. policyVisible e s \<and> x = publicSnapshot e s) \<and>
    nv_truncated env = (ls_next_cursor ld \<noteq> None) \<and>
    (dp_max_response d > 0 \<longrightarrow> int (length raw) \<le> dp_max_response d)"
proof -
  from assms(1) obtain e window groupBy cadence where repo: "requireRepo d (li_repository inp) = Inr e"
    and lims: "0 \<le> li_limit inp" "0 \<le> li_offset inp"
    and ans: "(if li_cursor inp \<noteq> [] then
        list_continue d sv t inp e (page_limit (li_limit inp) (lm_max_snapshots (rg_limits (dp_registry d)))) w
      else list_first d sv t inp e (page_limit (li_limit inp) (lm_max_snapshots (rg_limits (dp_registry d))))
        window groupBy cadence w) = (ToolOk raw env, w')"
    by (rule makeListSnapshots_ok)
  have pos: "0 < page_limit (li_limit inp) (lm_max_snapshots (rg_limits (dp_registry d)))"
    by (rule page_limit_pos [OF assms(2) lims(1)])
  have "page_ok d sv (li_repository inp) e (page_limit (li_limit inp) (lm_max_snapshots (rg_limits (dp_registry d)))) w
      (ToolOk raw env, w')"
    using list_continue_page_ok [OF pos, of d sv inp e w t]
      list_first_page_ok [OF pos lims(2), of d sv e w t window groupBy cadence] ans
    by (cases "li_cursor inp = []") (simp_all only: refl not_True_eq_False not_False_eq_True if_True if_False)
  from page_okD [OF this] repo show ?thesis by (elim exE conjE) (intro exI conjI, assumption+)
qed

theorem list_page_sound_witness:
  "\<exists>raw env w' ld. makeListSnapshots sample_deps (sample_services dated_doc) (\<lambda>_. None) sample_moment list_request
       sample_world = (ToolOk raw env, w') \<and> nv_data env = ListData ld \<and> length (ls_snapshots ld) \<le> 1"
proof -
  obtain raw env w' where run: "makeListSnapshots sample_deps (sample_services dated_doc) (\<lambda>_. None) sample_moment
      list_request sample_world = (ToolOk raw env, w')" using sample_first by blast
  have mx: "lm_max_snapshots (rg_limits (dp_registry sample_deps)) = 1" by (simp add: sample_deps_def)
  from list_page_sound [OF run] mx obtain ld where "nv_data env = ListData ld"
      "int (length (ls_snapshots ld)) \<le> page_limit (li_limit list_request) 1" by auto
  with run show ?thesis by (auto simp: list_request_def cursor_request_def page_limit_def)
qed


end
