(* ===== verification/Browse.thy ===== *)
theory Browse
  imports ListPages
begin

text \<open>
  The handler \<open>browse_snapshot\<close> of \<open>internal/mcpserver/handlers.go\<close>: its scope, from the request
  or from a cursor, the re-authorization of that scope on every page, and the scan.
\<close>

record browse_in =
  bi_repository :: string
  bi_snapshot :: string
  bi_path :: string
  bi_recursive :: bool
  bi_limit :: int
  bi_host :: string
  bi_after :: string
  bi_before :: string
  bi_cursor :: string

definition browse_tool :: string where "browse_tool = ''browse_snapshot''"

section \<open>The scan\<close>

definition browse_accept :: "entry \<Rightarrow> string \<Rightarrow> node \<Rightarrow> bool" where
  "browse_accept e path n =
     (case CleanPath (nd_path n) of
        Inl _ \<Rightarrow> False
      | Inr cleaned \<Rightarrow> is_allowed (en_paths e) cleaned \<and> pathIsUnderAllow cleaned path)"

definition public_node :: "node \<Rightarrow> node" where
  "public_node n =
     n\<lparr>nd_path := SanitizeAndRedact (nd_path n), nd_name := SanitizeAndRedact (nd_name n),
       nd_type := SanitizeAndRedact (nd_type n), nd_mode := SanitizeAndRedact (nd_mode n)\<rparr>"

definition scan_limits_of :: "deps \<Rightarrow> scan_limits" where
  "scan_limits_of d =
     \<lparr>sl_max_bytes = lm_max_scan_bytes (rg_limits (dp_registry d)),
      sl_max_decoded = lm_max_decoded (rg_limits (dp_registry d))\<rparr>"

definition browseVisibleNodes ::
    "deps \<Rightarrow> 's services \<Rightarrow> entry \<Rightarrow> string \<Rightarrow> string \<Rightarrow> string \<Rightarrow> bool \<Rightarrow> int \<Rightarrow> int \<Rightarrow> 's \<Rightarrow> ls_result res \<times> 's" where
  "browseVisibleNodes d sv e rid snapshotID path recursive skip limit s =
     (case BuildLSArgv \<lparr>lo_snapshot = snapshotID, lo_dirs = [path], lo_recursive = recursive\<rparr> of
        Inl err \<Rightarrow> (Inl (bad_filter err), s)
      | Inr argv \<Rightarrow>
     (case run_scan sv rid argv
             (\<lambda>out. ScanLS out (scan_limits_of d) skip limit (browse_accept e path)) lr_stats s of
        (Inl err, s') \<Rightarrow> (Inl err, s')
      | (Inr scan, s') \<Rightarrow> (Inr (scan\<lparr>lr_nodes := map public_node (lr_nodes scan)\<rparr>), s')))"

section \<open>The scope of a page\<close>

definition first_browse_state ::
    "'s services \<Rightarrow> entry \<Rightarrow> browse_in \<Rightarrow> time_window \<Rightarrow> 's \<Rightarrow> cursor_state res \<times> 's" where
  "first_browse_state sv e inp window s =
     (if \<not> valid_snapshot_id (bi_snapshot inp) then (Inl (new_error InvalidArgument ''invalid snapshot_id''), s)
      else case check_path (en_paths e) (bi_path inp) of
        Inl err \<Rightarrow> (Inl err, s)
      | Inr path \<Rightarrow>
     (case (if bi_snapshot inp = ''latest'' then validateLatestScope e (bi_host inp) [] path else Inr ()) of
        Inl err \<Rightarrow> (Inl err, s)
      | Inr _ \<Rightarrow>
     (case resolveVisibleSnapshot (sv_metadata sv) e (bi_repository inp) (bi_snapshot inp) (bi_host inp) [] path
             window s of
        (Inl err, s') \<Rightarrow> (Inl err, s')
      | (Inr snap, s') \<Rightarrow>
          (Inr (zero_cursor_state\<lparr>cs_tool := browse_tool, cs_repository := bi_repository inp, cs_path := path,
                  cs_recursive := bi_recursive inp, cs_snapshot_ids := [sn_id snap]\<rparr>), s'))))"

definition browse_state ::
    "'s services \<Rightarrow> moment \<Rightarrow> entry \<Rightarrow> browse_in \<Rightarrow> time_window \<Rightarrow> 's world \<Rightarrow> cursor_state res \<times> 's world" where
  "browse_state sv t e inp window w =
     (if bi_cursor inp \<noteq> [] then
        (if bi_snapshot inp \<noteq> [] \<or> bi_path inp \<noteq> [] \<or> bi_host inp \<noteq> [] \<or> bi_recursive inp \<or>
            bi_after inp \<noteq> [] \<or> bi_before inp \<noteq> []
         then (Inl (new_error InvalidArgument
           ''cursor carries the original scope; pass only repository_id, cursor, and optionally limit''), w)
         else redeem_cursor t (bi_cursor inp) browse_tool (bi_repository inp) w)
      else (case first_browse_state sv e inp window (wo_rest w) of (r, s) \<Rightarrow> (r, w\<lparr>wo_rest := s\<rparr>)))"

section \<open>The handler\<close>

definition budget_warning :: "scan_stats \<Rightarrow> string list" where
  "budget_warning st =
     (if ss_budget_exhausted st then [''scan budget exhausted; this page is incomplete''] else [])"

definition browse_output :: "cursor_state \<Rightarrow> ls_result \<Rightarrow> browse_data" where
  "browse_output st r =
     \<lparr>bd_path = cs_path st, bd_nodes = lr_nodes r, bd_count = int (length (lr_nodes r)),
      bd_total = (if ss_complete (lr_stats r) then Some (int (ss_accepted (lr_stats r))) else None),
      bd_recursive = cs_recursive st, bd_incomplete = ss_budget_exhausted (lr_stats r),
      bd_scan_complete = ss_complete (lr_stats r), bd_budget_exhausted = ss_budget_exhausted (lr_stats r),
      bd_next_cursor = None\<rparr>"

definition browse_answer :: "deps \<Rightarrow> moment \<Rightarrow> string \<Rightarrow> cursor_state \<Rightarrow> ls_result \<Rightarrow> 's world \<Rightarrow> 's answer" where
  "browse_answer d t rid st r w =
     (let truncated = (ss_more (lr_stats r) \<or> ss_budget_exhausted (lr_stats r)); out = browse_output st r;
          answer = (\<lambda>out. okResult d CostModerate (BrowseData out) truncated (budget_warning (lr_stats r))) in
      if ss_more (lr_stats r) \<and> lr_nodes r \<noteq> [] then
        (case issue_cursor t
                (zero_cursor_state\<lparr>cs_tool := browse_tool, cs_repository := rid, cs_path := cs_path st,
                   cs_recursive := cs_recursive st, cs_snapshot_ids := cs_snapshot_ids st,
                   cs_offset := cs_offset st + int (length (lr_nodes r))\<rparr>) w of
           (Inl err, w') \<Rightarrow> (errTool err, w')
         | (Inr token, w') \<Rightarrow> (answer (out\<lparr>bd_next_cursor := Some token\<rparr>), w'))
      else (answer out, w))"

text \<open>The page behind a scope: the snapshot and the path are authorized again, then scanned.\<close>

definition browse_page ::
    "deps \<Rightarrow> 's services \<Rightarrow> moment \<Rightarrow> entry \<Rightarrow> string \<Rightarrow> int \<Rightarrow> cursor_state \<Rightarrow> 's world \<Rightarrow> 's answer" where
  "browse_page d sv t e rid limit st w =
     (case snapshotsByIDs (sv_metadata sv) e rid (cs_snapshot_ids st) (wo_rest w) of
        (Inl err, s) \<Rightarrow> failTool t browse_tool rid err (w\<lparr>wo_rest := s\<rparr>)
      | (Inr [], s) \<Rightarrow> (Panicked, w\<lparr>wo_rest := s\<rparr>)
      | (Inr (snap # _), s) \<Rightarrow>
     (case check_path (en_paths e) (cs_path st) of
        Inl err \<Rightarrow> failTool t browse_tool rid err (w\<lparr>wo_rest := s\<rparr>)
      | Inr _ \<Rightarrow>
     (case browseVisibleNodes d sv e rid (sn_id snap) (cs_path st) (cs_recursive st) (cs_offset st) limit s of
        (Inl err, s') \<Rightarrow> (errTool err, w\<lparr>wo_rest := s'\<rparr>)
      | (Inr r, s') \<Rightarrow> browse_answer d t rid st r (w\<lparr>wo_rest := s'\<rparr>))))"

definition makeBrowseSnapshot ::
    "deps \<Rightarrow> 's services \<Rightarrow> moment \<Rightarrow> browse_in \<Rightarrow> 's world \<Rightarrow> 's answer" where
  "makeBrowseSnapshot d sv t inp w =
     (let rid = bi_repository inp; fail = failTool t browse_tool rid in
      case requireRepo d rid of
        Inl err \<Rightarrow> fail err w
      | Inr e \<Rightarrow>
          if bi_limit inp < 0 then fail (new_error InvalidArgument ''limit must be >= 0'') w
          else case parseTimeWindow (bi_after inp) (bi_before inp) of
            Inl err \<Rightarrow> fail err w
          | Inr window \<Rightarrow>
         (case browse_state sv t e inp window w of
            (Inl err, w1) \<Rightarrow> fail err w1
          | (Inr st, w1) \<Rightarrow>
              browse_page d sv t e rid
                (page_limit (bi_limit inp) (lm_max_nodes (rg_limits (dp_registry d)))) st w1))"

section \<open>What a page shows\<close>

lemma CleanPath_fixed: "CleanPath p = Inr c \<Longrightarrow> canonical p \<Longrightarrow> c = p"
  by (simp add: CleanPath_Inr path_clean_id)

lemma browse_accept_iff:
  assumes "canonical (nd_path n)"
  shows "browse_accept e path n \<longleftrightarrow>
    CleanPath (nd_path n) = Inr (nd_path n) \<and> is_allowed (en_paths e) (nd_path n) \<and> path_under (nd_path n) path"
  using CleanPath_fixed [OF _ assms]
  by (auto simp: browse_accept_def pathIsUnderAllow_eq split: sum.split)

lemma run_scan_Inr:
  assumes "run_scan sv rid argv scanner stats w = (Inr r, w')"
  obtains sc where "sv_scan sv rid argv w = (Inr sc, w')" "scanner (sc_stream sc) = Inr r"
    "sc_end sc (ss_stopped_early (stats r)) = None"
  using assms by (auto simp: run_scan_def split: sum.splits prod.splits option.splits)

lemma ScanLS_complete:
  assumes "ScanLS data lims skip limit acc = Inr r" and "ss_complete (lr_stats r)"
  shows "\<not> ss_more (lr_stats r) \<and> \<not> ss_budget_exhausted (lr_stats r) \<and>
    (\<exists>ns. ls_nodes (fst (scan_lines data)) = Inr ns \<and> ss_accepted (lr_stats r) = length (filter acc ns))"
  using ScanLS_result [OF assms(1)] assms(2) by (auto split: sum.splits)

text \<open>What a page of nodes may hold: entries below the path, each the public form of one.\<close>

definition confined_node :: "entry \<Rightarrow> string \<Rightarrow> node \<Rightarrow> bool" where
  "confined_node e path n \<longleftrightarrow>
     (\<exists>raw. n = public_node raw \<and> canonical (nd_path raw) \<and> is_allowed (en_paths e) (nd_path raw) \<and>
        path_under (nd_path raw) path)"

lemma confined_nodes:
  assumes "list_all (\<lambda>n. browse_accept e path n \<and> canonical (nd_path n)) ns"
  shows "list_all (confined_node e path) (map public_node ns)"
  using assms
  by (induction ns) (use browse_accept_iff in \<open>force simp: confined_node_def\<close>)+

lemma browseVisibleNodes_Inr:
  assumes "browseVisibleNodes d sv e rid sid path recursive skip limit s = (Inr r, s')"
  obtains argv sc scan where
    "BuildLSArgv \<lparr>lo_snapshot = sid, lo_dirs = [path], lo_recursive = recursive\<rparr> = Inr argv"
    "sv_scan sv rid argv s = (Inr sc, s')"
    "ScanLS (sc_stream sc) (scan_limits_of d) skip limit (browse_accept e path) = Inr scan"
    "r = scan\<lparr>lr_nodes := map public_node (lr_nodes scan)\<rparr>"
  using assms
  by (auto simp: browseVisibleNodes_def split: sum.splits prod.splits elim: run_scan_Inr)

lemma browse_answer_ToolOk:
  assumes "browse_answer d t rid st r w = (ToolOk raw env, w')"
  obtains cursor where "nv_data env = BrowseData ((browse_output st r)\<lparr>bd_next_cursor := cursor\<rparr>)"
    "nv_truncated env \<longleftrightarrow> ss_more (lr_stats r) \<or> ss_budget_exhausted (lr_stats r)"
    "cursor \<noteq> None \<longrightarrow> ss_more (lr_stats r)"
proof -
  have same: "browse_output st r = (browse_output st r)\<lparr>bd_next_cursor := None\<rparr>"
    by (simp add: browse_output_def)
  from assms that show ?thesis
    unfolding browse_answer_def Let_def
    by (auto simp: okResult_ToolOk split: if_splits sum.splits prod.splits intro: same)
qed

lemma browse_page_ToolOk:
  assumes "browse_page d sv t e rid limit st w = (ToolOk raw env, w')"
  obtains snap rest s1 r s2 where
    "snapshotsByIDs (sv_metadata sv) e rid (cs_snapshot_ids st) (wo_rest w) = (Inr (snap # rest), s1)"
    "\<exists>p. check_path (en_paths e) (cs_path st) = Inr p"
    "browseVisibleNodes d sv e rid (sn_id snap) (cs_path st) (cs_recursive st) (cs_offset st) limit s1 = (Inr r, s2)"
    "browse_answer d t rid st r (w\<lparr>wo_rest := s2\<rparr>) = (ToolOk raw env, w')"
  using assms
  by (auto simp: browse_page_def split: sum.splits prod.splits list.splits)

lemma makeBrowseSnapshot_ToolOk:
  assumes "makeBrowseSnapshot d sv t inp w = (ToolOk raw env, w')"
  obtains e window st w1 where "requireRepo d (bi_repository inp) = Inr e" "0 \<le> bi_limit inp"
    "parseTimeWindow (bi_after inp) (bi_before inp) = Inr window"
    "browse_state sv t e inp window w = (Inr st, w1)"
    "browse_page d sv t e (bi_repository inp)
       (page_limit (bi_limit inp) (lm_max_nodes (rg_limits (dp_registry d)))) st w1 = (ToolOk raw env, w')"
  using assms
  by (auto simp: makeBrowseSnapshot_def Let_def split: sum.splits prod.splits if_splits)

text \<open>
  C4. What \<open>browse_snapshot\<close> shows, from a request or from a cursor. The snapshot was looked
  up again by this very request and is visible under the policy; the directory passes the
  policy's check; every entry is the public form of one whose canonical path is allowed and
  lies at or below that directory; there are at most \<open>limit\<close> of them. A total is stated
  only for a scan that read everything restic printed, and then it is the number of entries
  the policy lets through; a next page is offered only when there is one.
\<close>

theorem browse_confined:
  assumes "makeBrowseSnapshot d sv t inp w = (ToolOk raw env, w')"
  shows "\<exists>e out snap argv sc parsed s1 s2. requireRepo d (bi_repository inp) = Inr e \<and>
    nv_data env = BrowseData out \<and> seen_now (sv_metadata sv) (bi_repository inp) parsed s1 \<and>
    snap \<in> set parsed \<and> policyVisible e snap \<and>
    BuildLSArgv \<lparr>lo_snapshot = sn_id snap, lo_dirs = [bd_path out], lo_recursive = bd_recursive out\<rparr> = Inr argv \<and>
    sv_scan sv (bi_repository inp) argv s1 = (Inr sc, s2) \<and>
    (\<exists>p. check_path (en_paths e) (bd_path out) = Inr p) \<and>
    list_all (confined_node e (bd_path out)) (bd_nodes out) \<and>
    int (length (bd_nodes out)) \<le> max 0 (page_limit (bi_limit inp) (lm_max_nodes (rg_limits (dp_registry d)))) \<and>
    (bd_total out \<noteq> None \<longrightarrow> bd_next_cursor out = None \<and> \<not> nv_truncated env \<and>
       (\<exists>ns. ls_nodes (fst (scan_lines (sc_stream sc))) = Inr ns \<and>
          bd_total out = Some (int (length (filter (browse_accept e (bd_path out)) ns)))))"
proof -
  from assms obtain e window st w1 where e: "requireRepo d (bi_repository inp) = Inr e"
    and page: "browse_page d sv t e (bi_repository inp)
       (page_limit (bi_limit inp) (lm_max_nodes (rg_limits (dp_registry d)))) st w1 = (ToolOk raw env, w')"
    by (rule makeBrowseSnapshot_ToolOk)
  define limit where "limit = page_limit (bi_limit inp) (lm_max_nodes (rg_limits (dp_registry d)))"
  from page obtain snap rest s1 r s2 where
    snap: "snapshotsByIDs (sv_metadata sv) e (bi_repository inp) (cs_snapshot_ids st) (wo_rest w1) = (Inr (snap # rest), s1)"
    and path': "\<exists>p. check_path (en_paths e) (cs_path st) = Inr p"
    and nodes: "browseVisibleNodes d sv e (bi_repository inp) (sn_id snap) (cs_path st) (cs_recursive st)
      (cs_offset st) limit s1 = (Inr r, s2)"
    and answer: "browse_answer d t (bi_repository inp) st r (w1\<lparr>wo_rest := s2\<rparr>) = (ToolOk raw env, w')"
    unfolding limit_def by (rule browse_page_ToolOk)
  from nodes obtain argv sc scan where
    argv: "BuildLSArgv \<lparr>lo_snapshot = sn_id snap, lo_dirs = [cs_path st], lo_recursive = cs_recursive st\<rparr> = Inr argv"
      "sv_scan sv (bi_repository inp) argv s1 = (Inr sc, s2)"
    and scan: "ScanLS (sc_stream sc) (scan_limits_of d) (cs_offset st) limit (browse_accept e (cs_path st)) = Inr scan"
    and r: "r = scan\<lparr>lr_nodes := map public_node (lr_nodes scan)\<rparr>"
    by (rule browseVisibleNodes_Inr)
  from path' obtain p where path: "check_path (en_paths e) (cs_path st) = Inr p" ..
  from answer obtain cursor where env: "nv_data env = BrowseData ((browse_output st r)\<lparr>bd_next_cursor := cursor\<rparr>)"
    "nv_truncated env \<longleftrightarrow> ss_more (lr_stats r) \<or> ss_budget_exhausted (lr_stats r)"
    "cursor \<noteq> None \<longrightarrow> ss_more (lr_stats r)"
    by (rule browse_answer_ToolOk)
  define out where "out = (browse_output st r)\<lparr>bd_next_cursor := cursor\<rparr>"
  have fields: "bd_path out = cs_path st" "bd_recursive out = cs_recursive st" "bd_next_cursor out = cursor"
      "bd_nodes out = map public_node (lr_nodes scan)"
      "bd_total out = (if ss_complete (lr_stats scan) then Some (int (ss_accepted (lr_stats scan))) else None)"
    by (simp_all add: out_def browse_output_def r)
  note found = ScanLS_result [OF scan]
  from snapshotsByIDs_seen [OF snap] obtain parsed where
    now: "seen_now (sv_metadata sv) (bi_repository inp) parsed s1" "snap \<in> set parsed" "policyVisible e snap"
    by auto
  have nodes_ok: "list_all (confined_node e (bd_path out)) (bd_nodes out)"
    unfolding fields using found by (intro confined_nodes) blast
  have few: "int (length (bd_nodes out)) \<le> max 0 limit"
    unfolding fields length_map using found by linarith
  have total: "bd_total out \<noteq> None \<longrightarrow> bd_next_cursor out = None \<and> \<not> nv_truncated env \<and>
      (\<exists>ns. ls_nodes (fst (scan_lines (sc_stream sc))) = Inr ns \<and>
        bd_total out = Some (int (length (filter (browse_accept e (bd_path out)) ns))))"
    using ScanLS_complete [OF scan] env(2,3) by (auto simp: fields r)
  show ?thesis
    unfolding limit_def [symmetric]
    by (intro exI conjI) (rule e env(1) [folded out_def] now argv [folded fields(1,2)] path [folded fields(1)]
      nodes_ok few total)+
qed

text \<open>
  A page of a listing with the files \<open>/b\<close> and \<open>/a\<close>, behind a cursor that browses \<open>/b\<close>.
\<close>

definition browse_services :: "unit services" where
  "browse_services = (sample_services sample_doc)
     \<lparr>sv_scan := (\<lambda>_ _ w. (Inr \<lparr>sc_stream = sample_listing, sc_end = (\<lambda>_. None), sc_failed = (\<lambda>e. e)\<rparr>, w))\<rparr>"

definition sample_browse_state :: cursor_state where
  "sample_browse_state = zero_cursor_state\<lparr>cs_version := cursorStateVersion, cs_expires := 1,
     cs_tool := browse_tool, cs_repository := ''home'', cs_path := ''/b'', cs_snapshot_ids := [''deadbeef'']\<rparr>"

definition browse_world :: "unit world" where
  "browse_world = sample_world\<lparr>wo_cursors := newCursorStore\<lparr>st_entries := [(''token'', sample_browse_state)]\<rparr>\<rparr>"

definition browse_request :: browse_in where
  "browse_request = \<lparr>bi_repository = ''home'', bi_snapshot = [], bi_path = [], bi_recursive = False, bi_limit = 0,
     bi_host = [], bi_after = [], bi_before = [], bi_cursor = ''token''\<rparr>"

lemma sample_output: "dp_marshal sample_deps env = Some []" "dp_max_response sample_deps = 0"
  by (simp_all add: sample_deps_def)

lemma sample_confined_scan:
  "\<exists>r. ScanLS sample_listing (scan_limits_of sample_deps) 0 1 (browse_accept open_entry ''/b'') = Inr r \<and>
     lr_nodes r = [sample_node ''/b''] \<and> \<not> ss_more (lr_stats r)"
proof -
  have "fits sample_listing (scan_limits_of sample_deps) [sample_node ''/b'', sample_node ''/a'']"
    using sample_nodes
    by (simp add: fits_def sample_deps_def scan_limits_of_def scanLimitsOrDefault_def sample_lines
        sample_listing_def [THEN arg_cong [of _ _ length]])
  note page = ScanLS_fits [OF this, of 0 1 "browse_accept open_entry ''/b''"]
  have "browse_accept open_entry ''/b'' (sample_node ''/b'')"
    "\<not> browse_accept open_entry ''/b'' (sample_node ''/a'')"
    by (simp_all add: browse_accept_def sample_node_path CleanPath_samples open_entry_def is_allowed_def
        pathIsUnderAllow_def)
  with page show ?thesis
    by (auto simp: paged_def zero_ls_result_def zero_scan_stats_def)
qed

lemma sample_browse:
  "\<exists>raw env w' out. makeBrowseSnapshot sample_deps browse_services sample_moment browse_request browse_world =
     (ToolOk raw env, w') \<and> nv_data env = BrowseData out \<and> bd_nodes out = [public_node (sample_node ''/b'')]"
proof -
  obtain r where r: "ScanLS sample_listing (scan_limits_of sample_deps) 0 1 (browse_accept open_entry ''/b'') = Inr r"
    "lr_nodes r = [sample_node ''/b'']" "\<not> ss_more (lr_stats r)"
    using sample_confined_scan by blast
  let ?w = "browse_world\<lparr>wo_cursors := newCursorStore\<rparr>"
  have st: "browse_state browse_services sample_moment open_entry browse_request \<lparr>tw_after = None, tw_before = None\<rparr>
      browse_world = (Inr sample_browse_state, ?w)"
    by (simp add: browse_state_def browse_request_def redeem_cursor_def browse_world_def take_cursor_def
        sample_moment_def sample_browse_state_def newCursorStore_def browse_tool_def)
  have ids: "snapshotsByIDs (sv_metadata browse_services) open_entry ''home'' [''deadbeef''] () = (Inr [sample_snapshot], ())"
    using sample_by_ids by (simp add: browse_services_def sample_services_def)
  have argv: "\<exists>argv. BuildLSArgv \<lparr>lo_snapshot = ''deadbeef'', lo_dirs = [''/b''], lo_recursive = False\<rparr> = Inr argv"
    by (simp add: BuildLSArgv_def valid_snapshot_id_def is_hex_def runes_def rune_chunks_ascii byte_def
        CleanPath_samples Let_def)
  then have nodes: "browseVisibleNodes sample_deps browse_services open_entry ''home'' ''deadbeef'' ''/b'' False 0 1 () =
      (Inr (r\<lparr>lr_nodes := [public_node (sample_node ''/b'')]\<rparr>), ())"
    using r by (auto simp: browseVisibleNodes_def run_scan_def browse_services_def)
  have page: "browse_page sample_deps browse_services sample_moment open_entry ''home'' 1 sample_browse_state ?w =
      browse_answer sample_deps sample_moment ''home'' sample_browse_state (r\<lparr>lr_nodes := [public_node (sample_node ''/b'')]\<rparr>) ?w"
    using ids nodes
    by (simp add: browse_page_def sample_browse_state_def zero_cursor_state_def browse_world_def sample_world_def
        sample_snapshot_def check_path_def CleanPath_samples open_entry_def is_allowed_def)
  have "makeBrowseSnapshot sample_deps browse_services sample_moment browse_request browse_world =
      browse_page sample_deps browse_services sample_moment open_entry ''home'' 1 sample_browse_state ?w"
    using st
    by (simp add: makeBrowseSnapshot_def browse_request_def parseTimeWindow_def parse_bound_def Let_def
        requireRepo_def get_entry_def sample_entry page_limit_def) (simp add: sample_deps_def)
  with r(3) show ?thesis
    by (simp add: page browse_answer_def okResult_def sample_output browse_output_def)
qed

theorem browse_confined_witness:
  "\<exists>raw env w' out. makeBrowseSnapshot sample_deps browse_services sample_moment browse_request browse_world =
     (ToolOk raw env, w') \<and> nv_data env = BrowseData out \<and> bd_nodes out \<noteq> [] \<and>
     list_all (confined_node open_entry (bd_path out)) (bd_nodes out)"
proof -
  obtain raw env w' out where run: "makeBrowseSnapshot sample_deps browse_services sample_moment browse_request
      browse_world = (ToolOk raw env, w')" "nv_data env = BrowseData out" "bd_nodes out \<noteq> []"
    using sample_browse by fastforce
  have "requireRepo sample_deps (bi_repository browse_request) = Inr open_entry"
    by (simp add: requireRepo_def get_entry_def sample_entry browse_request_def)
  with browse_confined [OF run(1)] run show ?thesis by auto
qed

end
