(* ===== verification/Tools.thy ===== *)
theory Tools
  imports ListPages Browse
begin

text \<open>
  The handlers \<open>restic_capabilities\<close>, \<open>list_repositories\<close>, \<open>get_snapshot\<close> and
  \<open>repository_stats\<close> of \<open>internal/mcpserver/handlers.go\<close>, with the list of tools of
  \<open>server.go\<close>.
\<close>

section \<open>Capabilities and repositories\<close>

definition toolNames :: "string list" where
  "toolNames =
     [''restic_capabilities'', ''list_repositories'', ''list_snapshots'', ''get_snapshot'',
      ''browse_snapshot'', ''find_files'', ''repository_stats'']"

definition limits_output :: "limits \<Rightarrow> capabilities_limits" where
  "limits_output lim =
     \<lparr>cl_command_timeout_sec = seconds_of (lm_command_timeout lim),
      cl_expensive_timeout_sec = seconds_of (lm_expensive_timeout lim),
      cl_max_snapshots = lm_max_snapshots lim, cl_max_nodes = lm_max_nodes lim,
      cl_max_find_results = lm_max_find_results lim, cl_max_output_bytes = lm_max_output_bytes lim,
      cl_max_scan_bytes = lm_max_scan_bytes lim, cl_max_decoded = lm_max_decoded lim,
      cl_max_response_bytes = lm_max_response_bytes lim, cl_per_repo = lm_per_repo lim,
      cl_global = lm_global lim, cl_cache_ttl_sec = seconds_of (lm_cache_ttl lim),
      cl_cache_entries = lm_cache_entries lim\<rparr>"

definition makeCapabilities :: "deps \<Rightarrow> 's world \<Rightarrow> 's answer" where
  "makeCapabilities d w =
     (okResult d CostLight
        (CapabilitiesData
          \<lparr>cd_server_version = dp_server_version d, cd_restic_version = dp_restic_version d,
           cd_repository_ids = registry_ids (dp_registry d),
           cd_supported = [''local'', ''s3'', ''b2'', ''rest''],
           cd_unsupported = [''sftp'', ''rclone'', ''azure'', ''gs'', ''swift'', ''other''],
           cd_allowed_commands = allowed_subcommands, cd_forbidden_commands = forbidden_subcommands,
           cd_tools = toolNames, cd_cost_classes = [''light'', ''moderate'', ''expensive''],
           cd_limits = limits_output (rg_limits (dp_registry d)),
           cd_warnings =
             [''This server is structurally read-only: no backup, restore, forget, prune, unlock, or repair tools.'',
              ''Restic may still create or update a local cache directory and may take repository locks during inspection.'',
              ''repository_stats is not a full integrity check; it does not run restic check --read-data.'',
              ''File names and paths from snapshots are sensitive; results are bounded and sanitized.'',
              ''Callers cannot supply repository URLs, backends, or secret paths.'']\<rparr>)
        False [], w)"

definition makeListRepositories :: "deps \<Rightarrow> 's world \<Rightarrow> 's answer" where
  "makeListRepositories d w =
     (okResult d CostLight (RepositoriesData (list_entries (dp_registry d))) False [], w)"

section \<open>get_snapshot\<close>

record get_snapshot_in =
  gi_repository :: string
  gi_snapshot :: string
  gi_host :: string
  gi_tags :: "string list"
  gi_path :: string
  gi_after :: string
  gi_before :: string

definition makeGetSnapshot ::
    "deps \<Rightarrow> 's services \<Rightarrow> moment \<Rightarrow> get_snapshot_in \<Rightarrow> 's world \<Rightarrow> 's answer" where
  "makeGetSnapshot d sv t inp w =
     (let rid = gi_repository inp; fail = failTool t ''get_snapshot'' rid in
      case requireRepo d rid of
        Inl err \<Rightarrow> fail err w
      | Inr e \<Rightarrow>
          if gi_snapshot inp = [] then fail (new_error InvalidArgument ''snapshot_id is required'') w
          else if \<not> valid_snapshot_id (gi_snapshot inp)
            then fail (new_error InvalidArgument ''invalid snapshot_id'') w
          else case parseTimeWindow (gi_after inp) (gi_before inp) of
            Inl err \<Rightarrow> fail err w
          | Inr window \<Rightarrow>
         (case (if gi_snapshot inp = ''latest''
                then validateLatestScope e (gi_host inp) (gi_tags inp) (gi_path inp) else Inr ()) of
            Inl err \<Rightarrow> fail err w
          | Inr _ \<Rightarrow>
         (case resolveVisibleSnapshot (sv_metadata sv) e rid (gi_snapshot inp) (gi_host inp) (gi_tags inp)
                 (gi_path inp) window (wo_rest w) of
            (Inl err, s) \<Rightarrow> fail err (w\<lparr>wo_rest := s\<rparr>)
          | (Inr snap, s) \<Rightarrow>
              (okResult d CostLight (SnapshotData (publicSnapshot e snap)) False [], w\<lparr>wo_rest := s\<rparr>))))"

section \<open>repository_stats\<close>

record stats_in =
  si_repository :: string
  si_mode :: string
  si_snapshot :: string
  si_host :: string
  si_tags :: "string list"
  si_path :: string
  si_after :: string
  si_before :: string

text \<open>The snapshots a request selects: one by its id, or all that match.\<close>

definition stats_selection ::
    "'s services \<Rightarrow> entry \<Rightarrow> stats_in \<Rightarrow> time_window \<Rightarrow> 's \<Rightarrow> snapshot list res \<times> 's" where
  "stats_selection sv e inp window s =
     (if si_snapshot inp \<noteq> [] then
        (case resolveVisibleSnapshot (sv_metadata sv) e (si_repository inp) (si_snapshot inp) (si_host inp)
                (si_tags inp) (si_path inp) window s of
           (Inl err, s') \<Rightarrow> (Inl err, s')
         | (Inr snap, s') \<Rightarrow> (Inr [snap], s'))
      else visibleSnapshots (sv_metadata sv) e (si_repository inp) [] (si_host inp) (si_tags inp)
             (si_path inp) window s)"

definition too_many :: go_error where
  "too_many = new_error InvalidArgument
     ''query matches too many snapshots; add a host, tag, path, after, before, or snapshot_id filter''"

text \<open>The snapshots whose every root is allowed; the others are excluded and counted.\<close>

definition stats_eligible :: "entry \<Rightarrow> int \<Rightarrow> snapshot list \<Rightarrow> (snapshot list \<times> nat) res" where
  "stats_eligible e mx snaps =
     (let eligible = filter (statsSnapshotAllowed e) snaps;
          excluded = length (filter (\<lambda>s. \<not> statsSnapshotAllowed e s) snaps)
      in if eligible = [] then
           (if excluded > 0 then Inl (new_error NotAllowed
              ''repository_stats cannot safely aggregate snapshots containing paths outside allowed_paths'')
            else Inl (new_error SnapshotNotFound ''no visible snapshots match the requested filters''))
         else if int (length eligible) > mx then Inl too_many
         else Inr (eligible, excluded))"

definition stats_output :: "string \<Rightarrow> stats_result \<Rightarrow> nat \<Rightarrow> nat \<Rightarrow> window_data \<Rightarrow> stats_data" where
  "stats_output mode st included excluded window =
     \<lparr>sd_mode = mode, sd_stats = st, sd_method = ''restic stats --json --mode '' @ mode,
      sd_notes =
        [''This is a counting/size summary, not a full repository integrity check.'',
         ''Statistics cover entire selected snapshots, not a path subtree.'',
         ''Snapshots containing roots outside allowed_paths are excluded.'',
         ''Data blobs were not fully re-read for bitrot detection.'',
         ''Restic may use a local cache and may lock the repository during this operation.''],
      sd_selected = int included, sd_excluded = int excluded, sd_window = window\<rparr>"

definition run_stats ::
    "deps \<Rightarrow> 's services \<Rightarrow> moment \<Rightarrow> string \<Rightarrow> string \<Rightarrow> time_window \<Rightarrow> snapshot list \<Rightarrow> nat \<Rightarrow>
     's world \<Rightarrow> 's answer" where
  "run_stats d sv t rid mode window eligible excluded w =
     (case BuildStatsArgv \<lparr>sto_mode = mode, sto_ids = map sn_id eligible\<rparr> of
        Inl err \<Rightarrow> failTool t ''repository_stats'' rid (bad_filter err) w
      | Inr argv \<Rightarrow>
     (case sv_run sv rid argv (wo_rest w) of
        (Inl err, s) \<Rightarrow> (errTool err, w\<lparr>wo_rest := s\<rparr>)
      | (Inr res, s) \<Rightarrow>
          (case ParseStats (rr_stdout res) of
             Inl err \<Rightarrow> (errTool err, w\<lparr>wo_rest := s\<rparr>)
           | Inr st \<Rightarrow>
               (okResult d (if mode = StatsRawData \<or> mode = StatsBlobsPerFile then CostExpensive else CostModerate)
                  (StatsData (stats_output mode st (length eligible) excluded
                    (windowOutput (fst (normalized window)) (snd (normalized window)))))
                  False [], w\<lparr>wo_rest := s\<rparr>))))"

definition makeRepositoryStats ::
    "deps \<Rightarrow> 's services \<Rightarrow> moment \<Rightarrow> stats_in \<Rightarrow> 's world \<Rightarrow> 's answer" where
  "makeRepositoryStats d sv t inp w =
     (let rid = si_repository inp; fail = failTool t ''repository_stats'' rid;
          mode = (if si_mode inp = [] then StatsRestoreSize else si_mode inp) in
      case requireRepo d rid of
        Inl err \<Rightarrow> fail err w
      | Inr e \<Rightarrow>
          if \<not> valid_stats_mode mode then fail (new_error InvalidArgument ''invalid stats mode'') w
          else if si_snapshot inp \<noteq> [] \<and> \<not> valid_snapshot_id (si_snapshot inp)
            then fail (new_error InvalidArgument ''invalid snapshot_id'') w
          else case parseTimeWindow (si_after inp) (si_before inp) of
            Inl err \<Rightarrow> fail err w
          | Inr window \<Rightarrow>
         (case (if si_snapshot inp = ''latest''
                then validateLatestScope e (si_host inp) (si_tags inp) (si_path inp) else Inr ()) of
            Inl err \<Rightarrow> fail err w
          | Inr _ \<Rightarrow>
         (case stats_selection sv e inp window (wo_rest w) of
            (Inl err, s) \<Rightarrow> fail err (w\<lparr>wo_rest := s\<rparr>)
          | (Inr snaps, s) \<Rightarrow>
              (case stats_eligible e (lm_max_snapshots (rg_limits (dp_registry d))) snaps of
                 Inl err \<Rightarrow> fail err (w\<lparr>wo_rest := s\<rparr>)
               | Inr (eligible, excluded) \<Rightarrow>
                   run_stats d sv t rid mode window eligible excluded (w\<lparr>wo_rest := s\<rparr>)))))"

section \<open>What is aggregated\<close>

lemma statsSnapshotAllowed_iff:
  "statsSnapshotAllowed e s \<longleftrightarrow> pp_allowed (en_paths e) = [] \<or>
     sn_paths s \<noteq> [] \<and> (\<forall>root \<in> set (sn_paths s). \<exists>c. CleanPath root = Inr c \<and> is_allowed (en_paths e) c)"
proof -
  have root: "(case CleanPath r of Inl _ \<Rightarrow> False | Inr c \<Rightarrow> is_allowed (en_paths e) c) \<longleftrightarrow>
      (\<exists>c. CleanPath r = Inr c \<and> is_allowed (en_paths e) c)" for r
    by (simp split: sum.split)
  show ?thesis unfolding statsSnapshotAllowed_def list_all_iff root by simp
qed

lemma stats_eligible_Inr:
  assumes "stats_eligible e mx snaps = Inr (eligible, excluded)"
  shows "eligible \<noteq> [] \<and> eligible = filter (statsSnapshotAllowed e) snaps \<and>
    length eligible + excluded = length snaps \<and> int (length eligible) \<le> mx"
  using assms sum_length_filter_compl [of "statsSnapshotAllowed e" snaps]
  by (auto simp: stats_eligible_def Let_def split: if_splits)

lemma stats_selection_seen:
  assumes "stats_selection sv e inp window s = (Inr snaps, s')"
  shows "list_all (\<lambda>x. policyVisible e x \<and> window_contains window (sn_time x)) snaps \<and>
    (\<exists>parsed. seen_now (sv_metadata sv) (si_repository inp) parsed s' \<and> set snaps \<subseteq> set parsed)"
  using assms
  by (auto simp: stats_selection_def list_all_iff split: if_splits sum.splits prod.splits
      dest!: visibleSnapshots_seen resolveVisibleSnapshot_seen)

lemma run_stats_ToolOk:
  assumes "run_stats d sv t rid mode window eligible excluded w = (ToolOk raw env, w')"
  obtains argv res st where "BuildStatsArgv \<lparr>sto_mode = mode, sto_ids = map sn_id eligible\<rparr> = Inr argv"
    "sv_run sv rid argv (wo_rest w) = (Inr res, wo_rest w')" "ParseStats (rr_stdout res) = Inr st"
    "nv_data env = StatsData (stats_output mode st (length eligible) excluded
       (windowOutput (fst (normalized window)) (snd (normalized window))))"
  using assms
  by (auto simp: run_stats_def okResult_ToolOk split: sum.splits prod.splits)

lemma makeRepositoryStats_ToolOk:
  assumes "makeRepositoryStats d sv t inp w = (ToolOk raw env, w')"
  obtains e window snaps s eligible excluded where "requireRepo d (si_repository inp) = Inr e"
    "parseTimeWindow (si_after inp) (si_before inp) = Inr window"
    "stats_selection sv e inp window (wo_rest w) = (Inr snaps, s)"
    "stats_eligible e (lm_max_snapshots (rg_limits (dp_registry d))) snaps = Inr (eligible, excluded)"
    "run_stats d sv t (si_repository inp) (if si_mode inp = [] then StatsRestoreSize else si_mode inp) window
       eligible excluded (w\<lparr>wo_rest := s\<rparr>) = (ToolOk raw env, w')"
  using assms unfolding makeRepositoryStats_def Let_def
  by (auto split: sum.splits prod.splits if_splits)


definition stats_doc :: string where "stats_doc = ''{\"total_size\":5}''"

lemma stats_parse: "ParseStats stats_doc = Inr (zero_stats\<lparr>st_total_size := 5\<rparr>)"
proof -
  have trim: "trim_space stats_doc = stats_doc" "stats_doc \<noteq> []"
    by (simp_all add: stats_doc_def trim_space_def rune_chunks_ascii byte_def is_space_def)
  have json: "json_unmarshal stats_doc = Some (JObj [(''total_size'', JNum ''5'')])"
    by (simp add: stats_doc_def json_unmarshal_def scan_simps)
  have dec: "dec_struct stats_field zero_stats (JObj [(''total_size'', JNum ''5'')]) =
      Some (zero_stats\<lparr>st_total_size := 5\<rparr>)"
    by (simp add: stats_field_def dec_simps dec_uint64_def is_digit_def digits_val_Cons digit_val_def)
  show ?thesis
    unfolding ParseStats_def trim Let_def json by (simp add: dec trim)
qed

definition stats_services :: "unit services" where
  "stats_services = (sample_services sample_doc)
     \<lparr>sv_run := (\<lambda>_ _ w. (Inr \<lparr>rr_stdout = stats_doc, rr_stderr = [], rr_exit_code = 0, rr_duration = 0\<rparr>, w))\<rparr>"

definition stats_request :: stats_in where
  "stats_request = \<lparr>si_repository = ''home'', si_mode = [], si_snapshot = [], si_host = [], si_tags = [],
     si_path = [], si_after = [], si_before = []\<rparr>"

lemma sample_stats:
  "\<exists>raw env w'. makeRepositoryStats sample_deps stats_services sample_moment stats_request sample_world =
     (ToolOk raw env, w')"
proof -
  let ?win = "\<lparr>tw_after = None, tw_before = None\<rparr>"
  have "selection_opts open_entry [] [] [] [] = Inr (no_snapshots_opts, [])"
    by (simp add: selection_opts_def open_entry_def new_host_policy_def no_snapshots_opts_def)
  moreover have "BuildSnapshotsArgv no_snapshots_opts = Inr [CmdSnapshots, ''--json'']"
    by (simp add: BuildSnapshotsArgv_def no_snapshots_opts_def)
  moreover have "selected open_entry [] [] [] [] ?win sample_snapshot"
    using sample_visible [of sample_snapshot]
    by (simp add: selected_def sample_snapshot_def window_contains_def matchesSnapshotFilters_def)
  ultimately have sel: "stats_selection stats_services open_entry stats_request ?win () = (Inr [sample_snapshot], ())"
    by (simp add: stats_selection_def stats_request_def visibleSnapshots_def fetch_snapshots_def
        stats_services_def sample_services_def printed_def sample_parse)
  have elig: "stats_eligible open_entry 1 [sample_snapshot] = Inr ([sample_snapshot], 0)"
    by (simp add: stats_eligible_def statsSnapshotAllowed_def open_entry_def)
  have argv: "\<exists>argv. BuildStatsArgv \<lparr>sto_mode = StatsRestoreSize, sto_ids = [sn_id sample_snapshot]\<rparr> = Inr argv"
    by (simp add: BuildStatsArgv_def valid_stats_mode_def sample_snapshot_def valid_snapshot_id_def runes_def
        rune_chunks_ascii is_hex_def byte_def Let_def)
  have "makeRepositoryStats sample_deps stats_services sample_moment stats_request sample_world =
      run_stats sample_deps stats_services sample_moment ''home'' StatsRestoreSize ?win [sample_snapshot] 0 sample_world"
    using sel elig
    by (simp add: makeRepositoryStats_def Let_def requireRepo_def get_entry_def sample_entry stats_request_def
        parseTimeWindow_def parse_bound_def valid_stats_mode_def sample_world_def) (simp add: sample_deps_def)
  with argv show ?thesis
    by (auto simp: run_stats_def stats_services_def stats_parse okResult_ToolOk sample_output)
qed


end
