(* ===== verification/Find.thy ===== *)
theory Find
  imports Browse Tools
begin

text \<open>
  The handler \<open>find_files\<close> of \<open>internal/mcpserver/handlers.go\<close>: the snapshots it searches, from
  the request or from a cursor, the scan with its authorization of every match, and the
  sanitized and sorted groups.
\<close>

record find_in =
  fn_repository :: string
  fn_pattern :: string
  fn_path :: string
  fn_snapshot :: string
  fn_host :: string
  fn_tags :: "string list"
  fn_limit :: int
  fn_ignore_case :: bool
  fn_after :: string
  fn_before :: string
  fn_cursor :: string

definition find_tool :: string where "find_tool = ''find_files''"

section \<open>The scan\<close>

definition findGroupAuthorized :: "string \<Rightarrow> snapshot list \<Rightarrow> bool" where
  "findGroupAuthorized groupID snaps =
     (if \<not> valid_snapshot_id groupID \<or> groupID = ''latest'' then False
      else length (filter (\<lambda>s. snapshotIDMatches (sn_id s) groupID) snaps) = 1)"

definition find_accept :: "entry \<Rightarrow> snapshot list \<Rightarrow> string \<Rightarrow> string \<Rightarrow> find_match \<Rightarrow> bool" where
  "find_accept e snaps scope sid m =
     (if \<not> findGroupAuthorized sid snaps then False
      else case CleanPath (fm_path m) of
        Inl _ \<Rightarrow> False
      | Inr cleaned \<Rightarrow>
          if \<not> is_allowed (en_paths e) cleaned then False
          else scope = [] \<or> pathIsUnderAllow cleaned scope)"

definition public_match :: "find_match \<Rightarrow> find_match" where
  "public_match m =
     m\<lparr>fm_path := SanitizeAndRedact (fm_path m), fm_name := SanitizeAndRedact (fm_name m),
       fm_type := SanitizeAndRedact (fm_type m)\<rparr>"

definition public_group :: "find_group \<Rightarrow> find_group" where
  "public_group g =
     (let matches = sort_by (\<lambda>a b. fm_path a < fm_path b) (map public_match (fg_matches g))
      in g\<lparr>fg_matches := matches, fg_hits := word_of_nat (length matches)\<rparr>)"

definition findVisibleGroups ::
    "deps \<Rightarrow> 's services \<Rightarrow> entry \<Rightarrow> string \<Rightarrow> snapshot list \<Rightarrow> cursor_state \<Rightarrow> int \<Rightarrow> 's \<Rightarrow> find_result res \<times> 's" where
  "findVisibleGroups d sv e rid snaps st limit s =
     (case BuildFindArgv \<lparr>fo_pattern = cs_pattern st, fo_ids = cs_snapshot_ids st, fo_ignore_case = cs_ignore_case st\<rparr> of
        Inl err \<Rightarrow> (Inl (bad_filter err), s)
      | Inr argv \<Rightarrow>
     (case run_scan sv rid argv
             (\<lambda>out. ScanFind out (scan_limits_of d) (cs_offset st) limit (find_accept e snaps (cs_path st))) fr_stats s of
        (Inl err, s') \<Rightarrow> (Inl err, s')
      | (Inr scan, s') \<Rightarrow>
          (Inr (scan\<lparr>fr_groups := sort_by (\<lambda>a b. fg_snapshot a < fg_snapshot b) (map public_group (fr_groups scan))\<rparr>), s')))"

section \<open>The snapshots to search\<close>

definition find_scope :: "entry \<Rightarrow> string \<Rightarrow> string res" where
  "find_scope e path =
     (let chosen = (if path \<noteq> [] then Inr path
                    else case pp_allowed (en_paths e) of
                      [] \<Rightarrow> Inr []
                    | [only] \<Rightarrow> Inr only
                    | _ \<Rightarrow> Inl (new_error InvalidArgument
                        ''path is required when multiple allowed_paths are configured''))
      in case chosen of
        Inl err \<Rightarrow> Inl err
      | Inr scope \<Rightarrow> if scope \<noteq> [] then check_path (en_paths e) scope else Inr [])"

definition find_selection ::
    "deps \<Rightarrow> 's services \<Rightarrow> entry \<Rightarrow> find_in \<Rightarrow> string \<Rightarrow> time_window \<Rightarrow> 's \<Rightarrow> snapshot list res \<times> 's" where
  "find_selection d sv e inp scope window s =
     (if fn_snapshot inp \<noteq> [] then
        (if \<not> valid_snapshot_id (fn_snapshot inp) \<or> fn_snapshot inp = ''latest''
         then (Inl (new_error InvalidArgument ''snapshot_id must be a concrete id''), s)
         else case resolveVisibleSnapshot (sv_metadata sv) e (fn_repository inp) (fn_snapshot inp) (fn_host inp)
                     (fn_tags inp) scope window s of
                (Inl err, s') \<Rightarrow> (Inl err, s')
              | (Inr snap, s') \<Rightarrow> (Inr [snap], s'))
      else case visibleSnapshots (sv_metadata sv) e (fn_repository inp) [] (fn_host inp) (fn_tags inp) scope window s of
             (Inl err, s') \<Rightarrow> (Inl err, s')
           | (Inr snaps, s') \<Rightarrow>
               if int (length snaps) > lm_max_snapshots (rg_limits (dp_registry d)) then (Inl too_many, s')
               else (Inr snaps, s'))"

definition first_find_state ::
    "deps \<Rightarrow> 's services \<Rightarrow> entry \<Rightarrow> find_in \<Rightarrow> 's \<Rightarrow> (cursor_state \<times> snapshot list) res \<times> 's" where
  "first_find_state d sv e inp s =
     (if fn_pattern inp = [] then (Inl (new_error InvalidArgument ''pattern is required''), s)
      else case parseTimeWindow (fn_after inp) (fn_before inp) of
        Inl err \<Rightarrow> (Inl err, s)
      | Inr window \<Rightarrow>
     (case find_scope e (fn_path inp) of
        Inl err \<Rightarrow> (Inl err, s)
      | Inr scope \<Rightarrow>
     (case BuildFindArgv \<lparr>fo_pattern = fn_pattern inp, fo_ids = [], fo_ignore_case = fn_ignore_case inp\<rparr> of
        Inl err \<Rightarrow> (Inl (bad_filter err), s)
      | Inr _ \<Rightarrow>
     (case find_selection d sv e inp scope window s of
        (Inl err, s') \<Rightarrow> (Inl err, s')
      | (Inr snaps, s') \<Rightarrow>
          (Inr (zero_cursor_state\<lparr>cs_tool := find_tool, cs_repository := fn_repository inp, cs_path := scope,
                  cs_after := fst (normalized window), cs_before := snd (normalized window),
                  cs_pattern := fn_pattern inp, cs_ignore_case := fn_ignore_case inp,
                  cs_snapshot_ids := map sn_id snaps\<rparr>, snaps), s')))))"

definition find_state_of ::
    "deps \<Rightarrow> 's services \<Rightarrow> moment \<Rightarrow> entry \<Rightarrow> find_in \<Rightarrow> 's world \<Rightarrow> (cursor_state \<times> snapshot list) res \<times> 's world" where
  "find_state_of d sv t e inp w =
     (if fn_cursor inp \<noteq> [] then
        (if fn_pattern inp \<noteq> [] \<or> fn_path inp \<noteq> [] \<or> fn_snapshot inp \<noteq> [] \<or> fn_host inp \<noteq> [] \<or>
            fn_tags inp \<noteq> [] \<or> fn_ignore_case inp \<or> fn_after inp \<noteq> [] \<or> fn_before inp \<noteq> []
         then (Inl (new_error InvalidArgument
           ''cursor carries the original filters; pass only repository_id, cursor, and optionally limit''), w)
         else case redeem_cursor t (fn_cursor inp) find_tool (fn_repository inp) w of
                (Inl err, w1) \<Rightarrow> (Inl err, w1)
              | (Inr st, w1) \<Rightarrow>
                  (case snapshotsByIDs (sv_metadata sv) e (fn_repository inp) (cs_snapshot_ids st) (wo_rest w1) of
                     (Inl err, s) \<Rightarrow> (Inl err, w1\<lparr>wo_rest := s\<rparr>)
                   | (Inr snaps, s) \<Rightarrow> (Inr (st, snaps), w1\<lparr>wo_rest := s\<rparr>)))
      else (case first_find_state d sv e inp (wo_rest w) of (r, s) \<Rightarrow> (r, w\<lparr>wo_rest := s\<rparr>)))"

section \<open>The handler\<close>

definition find_output :: "cursor_state \<Rightarrow> find_result \<Rightarrow> find_data" where
  "find_output st r =
     \<lparr>fi_groups = fr_groups r, fi_count = int (ss_page (fr_stats r)),
      fi_total = (if ss_complete (fr_stats r) then Some (int (ss_accepted (fr_stats r))) else None),
      fi_incomplete = ss_budget_exhausted (fr_stats r), fi_scan_complete = ss_complete (fr_stats r),
      fi_budget_exhausted = ss_budget_exhausted (fr_stats r),
      fi_window = windowOutput (cs_after st) (cs_before st), fi_next_cursor = None\<rparr>"

definition empty_find :: "cursor_state \<Rightarrow> find_data" where
  "empty_find st =
     \<lparr>fi_groups = [], fi_count = 0, fi_total = Some 0, fi_incomplete = False, fi_scan_complete = True,
      fi_budget_exhausted = False, fi_window = windowOutput (cs_after st) (cs_before st), fi_next_cursor = None\<rparr>"

text \<open>The state of the next page: the search, but not the window it was asked with.\<close>

definition find_next_state :: "string \<Rightarrow> cursor_state \<Rightarrow> nat \<Rightarrow> cursor_state" where
  "find_next_state rid st n =
     zero_cursor_state\<lparr>cs_tool := find_tool, cs_repository := rid, cs_path := cs_path st,
       cs_pattern := cs_pattern st, cs_ignore_case := cs_ignore_case st,
       cs_snapshot_ids := cs_snapshot_ids st, cs_offset := cs_offset st + int n\<rparr>"

definition find_answer :: "deps \<Rightarrow> moment \<Rightarrow> string \<Rightarrow> cursor_state \<Rightarrow> find_result \<Rightarrow> 's world \<Rightarrow> 's answer" where
  "find_answer d t rid st r w =
     (let n = ss_page (fr_stats r); truncated = (ss_more (fr_stats r) \<or> ss_budget_exhausted (fr_stats r));
          cost = (if length (cs_snapshot_ids st) = 1 then CostModerate else CostExpensive);
          answer = (\<lambda>out. okResult d cost (FindData out) truncated (budget_warning (fr_stats r))) in
      if ss_more (fr_stats r) \<and> n > 0 then
        (case issue_cursor t (find_next_state rid st n) w of
           (Inl err, w') \<Rightarrow> (errTool err, w')
         | (Inr token, w') \<Rightarrow> (answer ((find_output st r)\<lparr>fi_next_cursor := Some token\<rparr>), w'))
      else (answer (find_output st r), w))"

definition makeFindFiles ::
    "deps \<Rightarrow> 's services \<Rightarrow> moment \<Rightarrow> find_in \<Rightarrow> 's world \<Rightarrow> 's answer" where
  "makeFindFiles d sv t inp w =
     (let rid = fn_repository inp; fail = failTool t find_tool rid in
      case requireRepo d rid of
        Inl err \<Rightarrow> fail err w
      | Inr e \<Rightarrow>
          if fn_limit inp < 0 then fail (new_error InvalidArgument ''limit must be >= 0'') w
          else case find_state_of d sv t e inp w of
            (Inl err, w1) \<Rightarrow> fail err w1
          | (Inr (st, []), w1) \<Rightarrow> (okResult d CostExpensive (FindData (empty_find st)) False [], w1)
          | (Inr (st, snaps), w1) \<Rightarrow>
              (case findVisibleGroups d sv e rid snaps st
                      (page_limit (fn_limit inp) (lm_max_find_results (rg_limits (dp_registry d)))) (wo_rest w1) of
                 (Inl err, s) \<Rightarrow> (errTool err, w1\<lparr>wo_rest := s\<rparr>)
               | (Inr r, s) \<Rightarrow> find_answer d t rid st r (w1\<lparr>wo_rest := s\<rparr>)))"

section \<open>What a page shows\<close>

lemma find_accept_iff:
  assumes "canonical (fm_path m)"
  shows "find_accept e snaps scope sid m \<longleftrightarrow>
    findGroupAuthorized sid snaps \<and> CleanPath (fm_path m) = Inr (fm_path m) \<and>
    is_allowed (en_paths e) (fm_path m) \<and> (scope = [] \<or> path_under (fm_path m) scope)"
  using CleanPath_fixed [OF _ assms]
  by (auto simp: find_accept_def pathIsUnderAllow_eq split: sum.split)

lemma findGroupAuthorized_iff:
  "findGroupAuthorized sid snaps \<longleftrightarrow>
     concrete_id sid \<and> (\<exists>s. filter (\<lambda>s. snapshotIDMatches (sn_id s) sid) snaps = [s])"
  by (auto simp: findGroupAuthorized_def concrete_id_def length_Suc_conv)

text \<open>
  What a page of groups may hold: a match is the public form of one that is allowed, in scope
  and was accepted for an identifier that names exactly one of the searched snapshots.
\<close>

definition confined_match :: "entry \<Rightarrow> snapshot list \<Rightarrow> string \<Rightarrow> find_match \<Rightarrow> bool" where
  "confined_match e snaps scope m \<longleftrightarrow>
     (\<exists>raw sid s. m = public_match raw \<and> canonical (fm_path raw) \<and> is_allowed (en_paths e) (fm_path raw) \<and>
        (scope = [] \<or> path_under (fm_path raw) scope) \<and> concrete_id sid \<and>
        filter (\<lambda>s. snapshotIDMatches (sn_id s) sid) snaps = [s])"

definition confined_group :: "entry \<Rightarrow> snapshot list \<Rightarrow> string \<Rightarrow> int \<Rightarrow> find_group \<Rightarrow> bool" where
  "confined_group e snaps scope limit g \<longleftrightarrow>
     concrete_id (fg_snapshot g) \<and> fg_matches g \<noteq> [] \<and> int (length (fg_matches g)) \<le> limit \<and>
     fg_hits g = word_of_nat (length (fg_matches g)) \<and>
     sorted_wrt (\<lambda>a b. \<not> fm_path b < fm_path a) (fg_matches g) \<and>
     list_all (confined_match e snaps scope) (fg_matches g)"

interpretation paths: weak_order "\<lambda>a b. fm_path a < fm_path b"
  by (rule weak_order_key)

interpretation group_ids: weak_order "\<lambda>a b. fg_snapshot a < fg_snapshot b"
  by (rule weak_order_key)

lemma confined_public_match:
  assumes "canonical (fm_path m)" and "find_accept e snaps scope sid m"
  shows "confined_match e snaps scope (public_match m)"
  using assms(2) unfolding find_accept_iff [OF assms(1)] findGroupAuthorized_iff confined_match_def
  using assms(1) by blast

lemma confined_public_group:
  assumes "concrete_id (fg_snapshot g)" and "0 < length (fg_matches g)"
    and "length (fg_matches g) \<le> nat (max 0 limit)"
    and "list_all (\<lambda>m. canonical (fm_path m) \<and> (\<exists>sid. concrete_id sid \<and> find_accept e snaps scope sid m)) (fg_matches g)"
  shows "confined_group e snaps scope limit (public_group g)"
proof -
  let ?ms = "sort_by (\<lambda>a b. fm_path a < fm_path b) (map public_match (fg_matches g))"
  have "\<forall>m \<in> set (fg_matches g). confined_match e snaps scope (public_match m)"
    using assms(4) confined_public_match by (fastforce simp: list_all_iff)
  then have "list_all (confined_match e snaps scope) ?ms"
    by (auto simp: list_all_iff set_sort_by)
  moreover have "length ?ms = length (fg_matches g)" by (simp add: length_sort_by)
  moreover from this have "?ms \<noteq> []" using assms(2) by (metis length_0_conv less_numeral_extra(3))
  moreover have "sorted_wrt (\<lambda>a b. \<not> fm_path b < fm_path a) ?ms" by (rule paths.sorted_sort_by)
  moreover have "int (length (fg_matches g)) \<le> limit" using assms(2,3) by linarith
  ultimately show ?thesis
    using assms(1) by (simp add: confined_group_def public_group_def Let_def)
qed


lemma findVisibleGroups_Inr:
  assumes "findVisibleGroups d sv e rid snaps st limit s = (Inr r, s')"
  obtains argv sc scan where
    "BuildFindArgv \<lparr>fo_pattern = cs_pattern st, fo_ids = cs_snapshot_ids st, fo_ignore_case = cs_ignore_case st\<rparr> = Inr argv"
    "sv_scan sv rid argv s = (Inr sc, s')"
    "ScanFind (sc_stream sc) (scan_limits_of d) (cs_offset st) limit (find_accept e snaps (cs_path st)) = Inr scan"
    "fr_groups r = sort_by (\<lambda>a b. fg_snapshot a < fg_snapshot b) (map public_group (fr_groups scan))"
    "fr_stats r = fr_stats scan"
  using assms
  by (auto simp: findVisibleGroups_def split: sum.splits prod.splits elim: run_scan_Inr)

text \<open>What a successful scan hands to the answer.\<close>

definition confined_result :: "entry \<Rightarrow> snapshot list \<Rightarrow> string \<Rightarrow> int \<Rightarrow> find_result \<Rightarrow> bool" where
  "confined_result e snaps scope limit r \<longleftrightarrow>
     list_all (confined_group e snaps scope limit) (fr_groups r) \<and>
     sorted_wrt (\<lambda>a b. \<not> fg_snapshot b < fg_snapshot a) (fr_groups r) \<and>
     ss_page (fr_stats r) = sum_list (map (\<lambda>g. length (fg_matches g)) (fr_groups r)) \<and>
     (ss_complete (fr_stats r) \<longrightarrow> \<not> ss_more (fr_stats r) \<and> \<not> ss_budget_exhausted (fr_stats r))"

lemma sum_list_map_mset: "mset xs = mset ys \<Longrightarrow> sum_list (map f xs) = sum_list (map f ys :: nat list)"
  by (metis mset_map sum_mset_sum_list)

lemma length_public_group: "length (fg_matches (public_group g)) = length (fg_matches g)"
  by (simp add: public_group_def Let_def length_sort_by)

lemma findVisibleGroups_confined:
  assumes "findVisibleGroups d sv e rid snaps st limit s = (Inr r, s')"
  shows "confined_result e snaps (cs_path st) limit r"
proof -
  from assms obtain argv sc scan where
    "BuildFindArgv \<lparr>fo_pattern = cs_pattern st, fo_ids = cs_snapshot_ids st, fo_ignore_case = cs_ignore_case st\<rparr> = Inr argv"
      "sv_scan sv rid argv s = (Inr sc, s')"
    and scan: "ScanFind (sc_stream sc) (scan_limits_of d) (cs_offset st) limit (find_accept e snaps (cs_path st)) = Inr scan"
    and r: "fr_groups r = sort_by (\<lambda>a b. fg_snapshot a < fg_snapshot b) (map public_group (fr_groups scan))"
      "fr_stats r = fr_stats scan"
    by (rule findVisibleGroups_Inr)
  note found = ScanFind_result [OF scan]
  have "confined_group e snaps (cs_path st) limit (public_group g)" if "g \<in> set (fr_groups scan)" for g
    using found that by (intro confined_public_group) (auto simp: list_all_iff)
  then have "list_all (confined_group e snaps (cs_path st) limit) (fr_groups r)"
    by (auto simp: r list_all_iff set_sort_by)
  moreover have "sum_list (map (\<lambda>g. length (fg_matches g)) (fr_groups r)) =
      sum_list (map (\<lambda>g. length (fg_matches g)) (map public_group (fr_groups scan)))"
    unfolding r by (intro sum_list_map_mset) (simp add: mset_sort_by)
  then have "ss_page (fr_stats r) = sum_list (map (\<lambda>g. length (fg_matches g)) (fr_groups r))"
    using found by (simp add: r(2) length_public_group comp_def)
  moreover have "sorted_wrt (\<lambda>a b. \<not> fg_snapshot b < fg_snapshot a) (fr_groups r)"
    unfolding r by (rule group_ids.sorted_sort_by)
  moreover have "ss_complete (fr_stats r) \<longrightarrow> \<not> ss_more (fr_stats r) \<and> \<not> ss_budget_exhausted (fr_stats r)"
    using found by (auto simp: r(2))
  ultimately show ?thesis by (simp only: confined_result_def simp_thms)
qed

lemma find_selection_seen:
  assumes "find_selection d sv e inp scope window s = (Inr snaps, s')"
  shows "list_all (policyVisible e) snaps \<and>
    (\<exists>parsed. seen_now (sv_metadata sv) (fn_repository inp) parsed s' \<and> set snaps \<subseteq> set parsed)"
  using assms
  by (auto simp: find_selection_def list_all_iff split: if_splits sum.splits prod.splits
      dest!: visibleSnapshots_seen resolveVisibleSnapshot_seen)

lemma find_state_of_seen:
  assumes "find_state_of d sv t e inp w = (Inr (st, snaps), w1)"
  shows "list_all (policyVisible e) snaps \<and> map sn_id snaps = cs_snapshot_ids st \<and>
    (\<exists>parsed. seen_now (sv_metadata sv) (fn_repository inp) parsed (wo_rest w1) \<and> set snaps \<subseteq> set parsed) \<and>
    (fn_cursor inp = [] \<longrightarrow> find_scope e (fn_path inp) = Inr (cs_path st) \<and> cs_pattern st = fn_pattern inp)"
proof (cases "fn_cursor inp = []")
  case True
  with assms obtain s where s: "first_find_state d sv e inp (wo_rest w) = (Inr (st, snaps), s)" "wo_rest w1 = s"
    by (auto simp: find_state_of_def split: prod.splits)
  then obtain window where sel: "find_selection d sv e inp (cs_path st) window (wo_rest w) = (Inr snaps, s)"
    and st: "find_scope e (fn_path inp) = Inr (cs_path st)" "cs_pattern st = fn_pattern inp"
      "cs_snapshot_ids st = map sn_id snaps"
    by (auto simp: first_find_state_def split: if_splits sum.splits prod.splits)
  from find_selection_seen [OF sel] st s(2) show ?thesis by auto
next
  case False
  with assms obtain s0 s where "snapshotsByIDs (sv_metadata sv) e (fn_repository inp) (cs_snapshot_ids st) s0 = (Inr snaps, s)"
    and "wo_rest w1 = s"
    by (auto simp: find_state_of_def split: if_splits sum.splits prod.splits)
  with snapshotsByIDs_seen [OF this(1)] False show ?thesis by auto
qed

lemma find_answer_ToolOk:
  assumes "find_answer d t rid st r w = (ToolOk raw env, w')"
  obtains cursor where "nv_data env = FindData ((find_output st r)\<lparr>fi_next_cursor := cursor\<rparr>)"
    "cursor \<noteq> None \<longrightarrow> ss_more (fr_stats r)"
proof -
  have same: "find_output st r = (find_output st r)\<lparr>fi_next_cursor := None\<rparr>"
    by (simp add: find_output_def)
  from assms that show ?thesis
    unfolding find_answer_def Let_def
    by (auto simp: okResult_ToolOk split: if_splits sum.splits prod.splits intro: same)
qed

lemma makeFindFiles_ToolOk:
  assumes "makeFindFiles d sv t inp w = (ToolOk raw env, w')"
  obtains e st snaps w1 where "requireRepo d (fn_repository inp) = Inr e" "0 \<le> fn_limit inp"
    "find_state_of d sv t e inp w = (Inr (st, snaps), w1)"
    "if snaps = [] then nv_data env = FindData (empty_find st)
     else \<exists>r s. findVisibleGroups d sv e (fn_repository inp) snaps st
         (page_limit (fn_limit inp) (lm_max_find_results (rg_limits (dp_registry d)))) (wo_rest w1) = (Inr r, s) \<and>
       find_answer d t (fn_repository inp) st r (w1\<lparr>wo_rest := s\<rparr>) = (ToolOk raw env, w')"
  using assms
  by (auto simp: makeFindFiles_def Let_def okResult_ToolOk
      split: sum.splits prod.splits if_splits list.splits)

text \<open>The claim of a page, for the entry, the searched snapshots, the scope and the limit.\<close>

definition confined_find :: "entry \<Rightarrow> snapshot list \<Rightarrow> string \<Rightarrow> int \<Rightarrow> find_data \<Rightarrow> bool" where
  "confined_find e snaps scope limit out \<longleftrightarrow>
     list_all (confined_group e snaps scope limit) (fi_groups out) \<and>
     sorted_wrt (\<lambda>a b. \<not> fg_snapshot b < fg_snapshot a) (fi_groups out) \<and>
     fi_count out = int (sum_list (map (\<lambda>g. length (fg_matches g)) (fi_groups out))) \<and>
     (fi_total out \<noteq> None \<longrightarrow> fi_next_cursor out = None \<and> \<not> fi_budget_exhausted out)"

lemma find_answer_confined:
  assumes "confined_result e snaps scope limit r" and "find_answer d t rid st r w = (ToolOk raw env, w')"
  shows "\<exists>out. nv_data env = FindData out \<and> confined_find e snaps scope limit out"
proof -
  from assms(2) obtain cursor where out: "nv_data env = FindData ((find_output st r)\<lparr>fi_next_cursor := cursor\<rparr>)"
    "cursor \<noteq> None \<longrightarrow> ss_more (fr_stats r)"
    by (rule find_answer_ToolOk)
  with assms(1) show ?thesis
    by (auto simp: confined_result_def confined_find_def find_output_def)
qed


definition one_group :: string where
  "one_group = ''[{\"snapshot\":\"deadbeef\",\"matches\":[{\"path\":\"/b\"}]}]''"

lemma deadbeef_id: "valid_snapshot_id ''deadbeef''"
  by (simp add: valid_snapshot_id_def runes_def rune_chunks_ascii is_hex_def byte_def)

lemma one_group_run:
  assumes "acc ''deadbeef'' (hit ''/b'')"
  shows "ScanFind one_group no_limits 0 1 acc = Inr
     \<lparr>fr_groups = [hits_of ''deadbeef'' ''/b''],
      fr_stats = \<lparr>ss_decoded = 2, ss_accepted = 1, ss_page = 1, ss_complete = True, ss_more = False,
                  ss_stopped_early = False, ss_budget_exhausted = False\<rparr>\<rparr>"
  using assms unfolding hit_def
  by (simp add: ScanFind_def no_limits_def scanLimitsOrDefault_def one_group_def Let_def)
    (simp add: find_simps scan_simps dec_simps deadbeef_id)

definition find_services :: "unit services" where
  "find_services = (sample_services sample_doc)
     \<lparr>sv_scan := (\<lambda>_ _ w. (Inr \<lparr>sc_stream = one_group, sc_end = (\<lambda>_. None), sc_failed = (\<lambda>e. e)\<rparr>, w))\<rparr>"

definition sample_find_state :: cursor_state where
  "sample_find_state = sample_browse_state\<lparr>cs_tool := find_tool, cs_pattern := ''b''\<rparr>"

definition find_world :: "unit world" where
  "find_world = sample_world\<lparr>wo_cursors := newCursorStore\<lparr>st_entries := [(''token'', sample_find_state)]\<rparr>\<rparr>"

definition find_request :: find_in where
  "find_request = \<lparr>fn_repository = ''home'', fn_pattern = [], fn_path = [], fn_snapshot = [], fn_host = [],
     fn_tags = [], fn_limit = 0, fn_ignore_case = False, fn_after = [], fn_before = [], fn_cursor = ''token''\<rparr>"

lemma sample_find:
  "\<exists>raw env w' out. makeFindFiles sample_deps find_services sample_moment find_request find_world =
     (ToolOk raw env, w') \<and> nv_data env = FindData out \<and>
     fi_groups out = [public_group (hits_of ''deadbeef'' ''/b'')]"
proof -
  let ?w = "find_world\<lparr>wo_cursors := newCursorStore\<rparr>"
  have st: "find_state_of sample_deps find_services sample_moment open_entry find_request find_world =
      (Inr (sample_find_state, [sample_snapshot]), ?w)"
    using sample_by_ids
    by (simp add: find_state_of_def find_request_def redeem_cursor_def find_world_def take_cursor_def
        sample_moment_def sample_find_state_def sample_browse_state_def newCursorStore_def find_tool_def
        find_services_def sample_services_def sample_world_def)
  have acc: "find_accept open_entry [sample_snapshot] ''/b'' ''deadbeef'' (hit ''/b'')"
    by (simp add: find_accept_def findGroupAuthorized_def deadbeef_id sample_snapshot_def snapshotIDMatches_def
        equal_fold_def hit_def match_of_def CleanPath_samples open_entry_def is_allowed_def pathIsUnderAllow_def)
  have "\<exists>argv. BuildFindArgv \<lparr>fo_pattern = ''b'', fo_ids = [''deadbeef''], fo_ignore_case = False\<rparr> = Inr argv"
    by (simp add: BuildFindArgv_def validate_find_pattern_def has_control_ascii byte_def is_control_def deadbeef_id)
  moreover have "scan_limits_of sample_deps = no_limits"
    by (simp add: scan_limits_of_def sample_deps_def no_limits_def)
  ultimately obtain r where r: "findVisibleGroups sample_deps find_services open_entry ''home'' [sample_snapshot]
      sample_find_state 1 () = (Inr r, ())" "fr_groups r = [public_group (hits_of ''deadbeef'' ''/b'')]"
      "\<not> ss_more (fr_stats r)"
    by (auto simp: findVisibleGroups_def run_scan_def find_services_def sample_find_state_def sample_browse_state_def
        zero_cursor_state_def one_group_run [where acc = "find_accept open_entry [sample_snapshot] ''/b''", OF acc])
  have "makeFindFiles sample_deps find_services sample_moment find_request find_world =
      find_answer sample_deps sample_moment ''home'' sample_find_state r ?w"
    using st r(1)
    by (simp add: makeFindFiles_def find_request_def Let_def requireRepo_def get_entry_def sample_entry
        page_limit_def find_world_def sample_world_def) (simp add: sample_deps_def)
  with r(2,3) show ?thesis
    by (simp add: find_answer_def okResult_def sample_output find_output_def Let_def)
qed


end
