(* ===== verification/Server.thy ===== *)
theory Server
  imports Find
begin

text \<open>
  The server of \<open>internal/mcpserver/server.go\<close>: its defaults, its closed list of tools and
  what holds of all of them. The registration of the handlers with the protocol library, their
  descriptions and schemas are not modelled; \<open>call_tool\<close> is the call of the handler a name
  is registered with.
\<close>

section \<open>The server\<close>

definition Version :: string where "Version = ''0.1.0-dev''"

definition NewServer :: "deps \<Rightarrow> deps \<times> cursor_store" where
  "NewServer d =
     (let version = (if dp_server_version d = [] then Version else dp_server_version d);
          configured = (if dp_max_response d \<le> 0 then lm_max_response_bytes (rg_limits (dp_registry d))
                        else dp_max_response d);
          mx = (if configured \<le> 0 then 2 * 2 ^ 20 else configured)
      in (d\<lparr>dp_server_version := version, dp_max_response := mx\<rparr>, newCursorStore))"

datatype tool_call =
    CallCapabilities
  | CallListRepositories
  | CallListSnapshots list_snapshots_in
  | CallGetSnapshot get_snapshot_in
  | CallBrowseSnapshot browse_in
  | CallFindFiles find_in
  | CallRepositoryStats stats_in

fun tool_name :: "tool_call \<Rightarrow> string" where
  "tool_name CallCapabilities = ''restic_capabilities''"
| "tool_name CallListRepositories = ''list_repositories''"
| "tool_name (CallListSnapshots _) = ''list_snapshots''"
| "tool_name (CallGetSnapshot _) = ''get_snapshot''"
| "tool_name (CallBrowseSnapshot _) = ''browse_snapshot''"
| "tool_name (CallFindFiles _) = ''find_files''"
| "tool_name (CallRepositoryStats _) = ''repository_stats''"

fun call_tool ::
    "deps \<Rightarrow> 's services \<Rightarrow> (string \<Rightarrow> int option) \<Rightarrow> moment \<Rightarrow> tool_call \<Rightarrow> 's world \<Rightarrow> 's answer" where
  "call_tool d sv pd t CallCapabilities w = makeCapabilities d w"
| "call_tool d sv pd t CallListRepositories w = makeListRepositories d w"
| "call_tool d sv pd t (CallListSnapshots inp) w = makeListSnapshots d sv pd t inp w"
| "call_tool d sv pd t (CallGetSnapshot inp) w = makeGetSnapshot d sv t inp w"
| "call_tool d sv pd t (CallBrowseSnapshot inp) w = makeBrowseSnapshot d sv t inp w"
| "call_tool d sv pd t (CallFindFiles inp) w = makeFindFiles d sv t inp w"
| "call_tool d sv pd t (CallRepositoryStats inp) w = makeRepositoryStats d sv t inp w"

text \<open>
  The states of a running server: calls, one at a time, and steps of the rest of the system
  between them. Within a call only the operations of the cursor store and of the audit trail
  are atomic in the code; what holds of the store under any interleaving of them is in \<open>Cursor\<close>.
\<close>

inductive serving :: "deps \<Rightarrow> 's services \<Rightarrow> (string \<Rightarrow> int option) \<Rightarrow> 's world \<Rightarrow> bool"
  for d :: deps and sv :: "'s services" and pd :: "string \<Rightarrow> int option" where
  started: "serving d sv pd \<lparr>wo_cursors = snd (NewServer d), wo_log = l, wo_rest = s\<rparr>"
| called: "serving d sv pd w \<Longrightarrow> serving d sv pd (snd (call_tool (fst (NewServer d)) sv pd t c w))"
| moved: "serving d sv pd w \<Longrightarrow> serving d sv pd (w\<lparr>wo_rest := s\<rparr>)"

section \<open>Only inspections\<close>

text \<open>
  Two systems that answer alike whatever the server may ask of them: of a registered
  repository, the metadata of \<open>snapshots\<close>, a run of \<open>stats\<close> and a scan of \<open>ls\<close> or \<open>find\<close>.
\<close>

definition registered :: "deps \<Rightarrow> string \<Rightarrow> bool" where
  "registered d rid \<longleftrightarrow> (\<exists>e. get_entry (dp_registry d) rid = Inr e)"

definition alike :: "deps \<Rightarrow> 's services \<Rightarrow> 's services \<Rightarrow> bool" where
  "alike d sv sv' \<longleftrightarrow> (\<forall>rid argv. registered d rid \<longrightarrow>
     (take 2 argv = [CmdSnapshots, ''--json''] \<longrightarrow> sv_metadata sv rid argv = sv_metadata sv' rid argv) \<and>
     (take 2 argv = [CmdStats, ''--json''] \<and> AssertArgvAllowed argv = Inr () \<longrightarrow>
        sv_run sv rid argv = sv_run sv' rid argv) \<and>
     (take 2 argv \<in> {[CmdLS, ''--json''], [CmdFind, ''--json'']} \<and> AssertArgvAllowed argv = Inr () \<longrightarrow>
        sv_scan sv rid argv = sv_scan sv' rid argv))"

lemma requireRepo_registered: "requireRepo d rid = Inr e \<Longrightarrow> registered d rid"
  by (auto simp: requireRepo_def registered_def split: if_splits)

lemma BuildSnapshotsArgv_head: "BuildSnapshotsArgv opts = Inr argv \<Longrightarrow> take 2 argv = [CmdSnapshots, ''--json'']"
  by (auto simp: BuildSnapshotsArgv_def add_values_Inr add_ids_Inr add_paths_Inr Let_def split: sum.splits if_splits)

lemma BuildStatsArgv_head: "BuildStatsArgv opts = Inr argv \<Longrightarrow> take 2 argv = [CmdStats, ''--json'']"
  by (auto simp: BuildStatsArgv_def add_ids_Inr Let_def split: if_splits)

lemma BuildLSArgv_head: "BuildLSArgv opts = Inr argv \<Longrightarrow> take 2 argv = [CmdLS, ''--json'']"
  by (auto simp: BuildLSArgv_def add_paths_Inr Let_def split: if_splits)

lemma BuildFindArgv_head: "BuildFindArgv opts = Inr argv \<Longrightarrow> take 2 argv = [CmdFind, ''--json'']"
  by (auto simp: BuildFindArgv_def add_find_ids_Inr Let_def split: sum.splits if_splits)


lemma alike_metadata:
  "alike d sv sv' \<Longrightarrow> requireRepo d rid = Inr e \<Longrightarrow> BuildSnapshotsArgv opts = Inr argv \<Longrightarrow>
     sv_metadata sv rid argv = sv_metadata sv' rid argv"
  using requireRepo_registered BuildSnapshotsArgv_head unfolding alike_def by blast

lemma alike_run:
  "alike d sv sv' \<Longrightarrow> requireRepo d rid = Inr e \<Longrightarrow> BuildStatsArgv opts = Inr argv \<Longrightarrow>
     sv_run sv rid argv = sv_run sv' rid argv"
  using requireRepo_registered BuildStatsArgv_head built_argv unfolding alike_def by blast

lemma alike_ls:
  "alike d sv sv' \<Longrightarrow> requireRepo d rid = Inr e \<Longrightarrow> BuildLSArgv opts = Inr argv \<Longrightarrow>
     sv_scan sv rid argv = sv_scan sv' rid argv"
  using requireRepo_registered BuildLSArgv_head built_argv unfolding alike_def by blast

lemma alike_find:
  "alike d sv sv' \<Longrightarrow> requireRepo d rid = Inr e \<Longrightarrow> BuildFindArgv opts = Inr argv \<Longrightarrow>
     sv_scan sv rid argv = sv_scan sv' rid argv"
  using requireRepo_registered BuildFindArgv_head built_argv unfolding alike_def by blast

lemma alike_fetch:
  assumes "alike d sv sv'" and "requireRepo d rid = Inr e"
  shows "fetch_snapshots (sv_metadata sv) rid bad opts w = fetch_snapshots (sv_metadata sv') rid bad opts w"
  using alike_metadata [OF assms, of opts]
  by (simp add: fetch_snapshots_def split: sum.split)

lemma alike_visible:
  assumes "alike d sv sv'" and "requireRepo d rid = Inr e"
  shows "visibleSnapshots (sv_metadata sv) e' rid selector host tags path window w =
    visibleSnapshots (sv_metadata sv') e' rid selector host tags path window w"
  and "resolveVisibleSnapshot (sv_metadata sv) e' rid selector host tags path window w =
    resolveVisibleSnapshot (sv_metadata sv') e' rid selector host tags path window w"
  and "snapshotsByIDs (sv_metadata sv) e' rid ids w = snapshotsByIDs (sv_metadata sv') e' rid ids w"
  unfolding resolveVisibleSnapshot_def visibleSnapshots_def snapshotsByIDs_def alike_fetch [OF assms] by (rule refl)+

lemma alike_list:
  assumes "alike d sv sv'" and "requireRepo d (li_repository inp) = Inr e"
  shows "list_first d sv t inp e limit window groupBy cadence w = list_first d sv' t inp e limit window groupBy cadence w"
    and "list_continue d sv t inp e limit w = list_continue d sv' t inp e limit w"
  unfolding list_first_def list_continue_def listSnapshotsForCursor_def Let_def alike_fetch [OF assms]
  by (rule refl)+

lemma alike_browse:
  assumes "alike d sv sv'" and "requireRepo d rid = Inr e"
  shows "browseVisibleNodes d sv e rid sid path recursive skip limit s =
    browseVisibleNodes d sv' e rid sid path recursive skip limit s"
  using alike_ls [OF assms]
  by (simp add: browseVisibleNodes_def run_scan_def split: sum.split)

lemma alike_find_groups:
  assumes "alike d sv sv'" and "requireRepo d rid = Inr e"
  shows "findVisibleGroups d sv e rid snaps st limit s = findVisibleGroups d sv' e rid snaps st limit s"
  using alike_find [OF assms]
  by (simp add: findVisibleGroups_def run_scan_def split: sum.split)

lemma alike_run_stats:
  assumes "alike d sv sv'" and "requireRepo d rid = Inr e"
  shows "run_stats d sv t rid mode window eligible excluded w = run_stats d sv' t rid mode window eligible excluded w"
  using alike_run [OF assms]
  by (simp add: run_stats_def split: sum.split)

lemma alike_makeList:
  assumes "alike d sv sv'"
  shows "makeListSnapshots d sv pd t inp w = makeListSnapshots d sv' pd t inp w"
proof (cases "requireRepo d (li_repository inp)")
  case (Inr e)
  show ?thesis
    unfolding makeListSnapshots_def Let_def Inr sum.case alike_list [OF assms Inr] by (rule refl)
qed (simp add: makeListSnapshots_def Let_def)

lemma alike_makeGet:
  assumes "alike d sv sv'"
  shows "makeGetSnapshot d sv t inp w = makeGetSnapshot d sv' t inp w"
proof (cases "requireRepo d (gi_repository inp)")
  case (Inr e)
  show ?thesis
    unfolding makeGetSnapshot_def Let_def Inr sum.case alike_visible [OF assms Inr] by (rule refl)
qed (simp add: makeGetSnapshot_def Let_def)

lemma alike_makeBrowse:
  assumes "alike d sv sv'"
  shows "makeBrowseSnapshot d sv t inp w = makeBrowseSnapshot d sv' t inp w"
proof (cases "requireRepo d (bi_repository inp)")
  case (Inr e)
  show ?thesis
    unfolding makeBrowseSnapshot_def browse_state_def first_browse_state_def browse_page_def Let_def Inr sum.case
      alike_visible [OF assms Inr] alike_browse [OF assms Inr] by (rule refl)
qed (simp add: makeBrowseSnapshot_def Let_def)

lemma alike_makeFind:
  assumes "alike d sv sv'"
  shows "makeFindFiles d sv t inp w = makeFindFiles d sv' t inp w"
proof (cases "requireRepo d (fn_repository inp)")
  case (Inr e)
  show ?thesis
    unfolding makeFindFiles_def find_state_of_def first_find_state_def find_selection_def Let_def Inr sum.case
      alike_visible [OF assms Inr] alike_find_groups [OF assms Inr] by (rule refl)
qed (simp add: makeFindFiles_def Let_def)

lemma alike_makeStats:
  assumes "alike d sv sv'"
  shows "makeRepositoryStats d sv t inp w = makeRepositoryStats d sv' t inp w"
proof (cases "requireRepo d (si_repository inp)")
  case (Inr e)
  show ?thesis
    unfolding makeRepositoryStats_def stats_selection_def Let_def Inr sum.case
      alike_visible [OF assms Inr] alike_run_stats [OF assms Inr] by (rule refl)
qed (simp add: makeRepositoryStats_def Let_def)

text \<open>
  C2. The server only inspects. Whatever the caller asks, the answer and the state left behind
  depend on the rest of the system through nothing but this: for a registered repository, the
  metadata of a \<open>snapshots --json\<close> vector, the run of a \<open>stats --json\<close> vector and the scan of
  an \<open>ls --json\<close> or \<open>find --json\<close> vector, the last two kinds accepted by the runner's own
  check. No tool has a way to run anything else.
\<close>

theorem server_only_inspects:
  assumes "alike d sv sv'"
  shows "call_tool d sv pd t c w = call_tool d sv' pd t c w"
  by (cases c)
    (simp_all add: alike_makeList [OF assms] alike_makeGet [OF assms] alike_makeBrowse [OF assms]
      alike_makeFind [OF assms] alike_makeStats [OF assms])

text \<open>A system that would also run \<open>forget\<close>, if it was asked to, and one that would not.\<close>

definition careless_services :: "unit services" where
  "careless_services = stats_services
     \<lparr>sv_run := (\<lambda>rid argv. if take 1 argv = [''forget''] then (\<lambda>w. (Inl request_cancelled, w))
                          else sv_run stats_services rid argv)\<rparr>"

theorem server_only_inspects_witness:
  "sv_run careless_services ''home'' [''forget''] () \<noteq> sv_run stats_services ''home'' [''forget''] () \<and>
   call_tool sample_deps careless_services (\<lambda>_. None) sample_moment (CallRepositoryStats stats_request) sample_world =
   call_tool sample_deps stats_services (\<lambda>_. None) sample_moment (CallRepositoryStats stats_request) sample_world"
proof -
  have "take 2 argv = [CmdStats, ''--json''] \<Longrightarrow> take 1 argv \<noteq> [''forget'']" for argv
    by (cases argv) (auto simp: CmdStats_def)
  then have "alike sample_deps careless_services stats_services"
    by (auto simp: alike_def careless_services_def)
  note same = server_only_inspects [OF this]
  have "sv_run careless_services ''home'' [''forget''] () \<noteq> sv_run stats_services ''home'' [''forget''] ()"
    by (simp add: careless_services_def) (simp add: stats_services_def)
  then show ?thesis by (intro conjI same)
qed

section \<open>Answers\<close>

definition clean_error :: "tool_error \<Rightarrow> bool" where
  "clean_error e \<longleftrightarrow> (\<exists>code. te_code e = code_string code) \<and>
     (\<exists>m. te_message e = SanitizeAndRedact m) \<and> pred_option (\<lambda>x. \<exists>m. x = SanitizeAndRedact m) (te_detail e)"

fun data_for :: "tool_call \<Rightarrow> tool_data \<Rightarrow> bool" where
  "data_for CallCapabilities x = (\<exists>y. x = CapabilitiesData y)"
| "data_for CallListRepositories x = (\<exists>y. x = RepositoriesData y)"
| "data_for (CallListSnapshots _) x = (\<exists>y. x = ListData y)"
| "data_for (CallGetSnapshot _) x = (\<exists>y. x = SnapshotData y)"
| "data_for (CallBrowseSnapshot _) x = (\<exists>y. x = BrowseData y)"
| "data_for (CallFindFiles _) x = (\<exists>y. x = FindData y)"
| "data_for (CallRepositoryStats _) x = (\<exists>y. x = StatsData y)"

definition good_result :: "deps \<Rightarrow> tool_call \<Rightarrow> tool_result \<Rightarrow> bool" where
  "good_result d c r \<longleftrightarrow>
     (case r of
        ToolOk raw env \<Rightarrow> dp_marshal d env = Some raw \<and>
          (0 < dp_max_response d \<longrightarrow> int (length raw) \<le> dp_max_response d) \<and> data_for c (nv_data env)
      | ToolError e \<Rightarrow> clean_error e
      | Panicked \<Rightarrow> False)"

lemma good_errTool [simp]: "good_result d c (errTool err)"
proof (cases "as_app err")
  case None
  have "\<exists>code. code_string InternalError = code_string code" by blast
  with None show ?thesis
    by (auto simp: good_result_def errTool_def clean_error_def simp del: code_string.simps)
next
  case (Some ae)
  then show ?thesis by (auto simp: good_result_def errTool_def clean_error_def)
qed

lemma good_failTool [simp]: "good_result d c (fst (failTool t tool rid err w))"
  by (simp add: failTool_def)

lemma good_okResult [simp]: "data_for c x \<Longrightarrow> good_result d c (okResult d cost x truncated warnings)"
  unfolding okResult_def Let_def
  by (auto split: option.split) (auto simp: good_result_def)

section \<open>Audit\<close>

text \<open>
  What a call may add to the audit trail: nothing, or one refusal with the code of the error
  it answers. The repository is recorded only with \<open>NotAllowed\<close>, and then it is configured.
\<close>

definition audited :: "deps \<Rightarrow> moment \<Rightarrow> string \<Rightarrow> 's world \<Rightarrow> 's answer \<Rightarrow> bool" where
  "audited d t tool w ans \<longleftrightarrow>
     wo_log (snd ans) = wo_log w \<or>
     (\<exists>ev te. wo_log (snd ans) = log_event (at_log t) ev (wo_log w) \<and>
        ev_action ev = ''tool_rejected'' \<and> ev_tool ev = tool \<and>
        fst ans = ToolError te \<and> te_code te = ev_error_code ev \<and>
        (if ev_error_code ev = code_string NotAllowed then registered d (ev_repository ev)
         else ev_error_code ev = code_string RepositoryNotFound \<and> ev_repository ev = []))"

lemma audited_failTool:
  assumes "wo_log w1 = wo_log w" and "is_code err NotAllowed \<Longrightarrow> registered d rid"
  shows "audited d t tool w (failTool t tool rid err w1)"
proof (cases "as_app err")
  case None
  with assms(1) show ?thesis by (simp add: audited_def failTool_def auditPreResticRejection_def)
next
  case (Some ae)
  then have na: "err_code ae = NotAllowed \<Longrightarrow> registered d rid" using assms(2) by (simp add: is_code_def)
  show ?thesis
  proof (cases "err_code ae = NotAllowed \<or> err_code ae = RepositoryNotFound")
    case False
    with Some assms(1) show ?thesis by (simp add: audited_def failTool_def auditPreResticRejection_def)
  next
    case True
    with Some na show ?thesis
      by (auto simp: audited_def failTool_def auditPreResticRejection_def errTool_def assms(1) no_event_def
          intro!: exI)
  qed
qed

section \<open>One walk through the handlers\<close>

text \<open>
  What holds between the world a call starts in and a world it reaches before it answers, and
  what holds of its answer.
\<close>

definition store_kept :: "cursor_store \<Rightarrow> cursor_store \<Rightarrow> bool" where
  "store_kept s s' \<longleftrightarrow> st_max s' = st_max s \<and> (cursor_store_ok s \<longrightarrow> cursor_store_ok s')"

definition passed :: "'s world \<Rightarrow> 's world \<Rightarrow> bool" where
  "passed w w1 \<longleftrightarrow> wo_log w1 = wo_log w \<and> store_kept (wo_cursors w) (wo_cursors w1)"

definition fine :: "deps \<Rightarrow> moment \<Rightarrow> tool_call \<Rightarrow> 's world \<Rightarrow> 's answer \<Rightarrow> bool" where
  "fine d t c w ans \<longleftrightarrow>
     good_result d c (fst ans) \<and> audited d t (tool_name c) w ans \<and>
     store_kept (wo_cursors w) (wo_cursors (snd ans))"

lemma passed_refl [simp]: "passed w w"
  by (simp add: passed_def store_kept_def)

lemma passed_rest [simp]: "passed w (w1\<lparr>wo_rest := s\<rparr>) \<longleftrightarrow> passed w w1"
  by (simp add: passed_def)

lemma store_kept_issue: "store_kept s (snd (issue rand now st s))"
  using cursor_step_ok [of s "Issue rand now st"]
  by (auto simp: store_kept_def issue_def Let_def split: sum.splits)

lemma store_kept_take: "store_kept s (snd (take_cursor token tool rid now s))"
  using take_ok [of s token tool rid now]
  by (auto simp: store_kept_def take_cursor_def Let_def split: option.splits)

lemma passed_issue: "issue_cursor t st w1 = (r, w2) \<Longrightarrow> passed w w1 \<Longrightarrow> passed w w2"
  using store_kept_issue [of "wo_cursors w1" "at_random t" "at_issue t" st]
  by (auto simp: passed_def issue_cursor_def store_kept_def split: prod.splits)

lemma passed_issue_rest: "issue_cursor t st (w1\<lparr>wo_rest := s\<rparr>) = (r, w2) \<Longrightarrow> passed w w1 \<Longrightarrow> passed w w2"
  by (auto intro: passed_issue)

lemma passed_redeem: "redeem_cursor t token tool rid w = (r, w1) \<Longrightarrow> passed w w1"
  using store_kept_take [of "wo_cursors w" token tool rid "at_take t"]
  by (auto simp: passed_def redeem_cursor_def split: prod.splits)

lemma passed_browse: "browse_state sv t e inp window w = (r, w1) \<Longrightarrow> passed w w1"
  by (auto simp: browse_state_def dest: passed_redeem split: if_splits prod.splits)

lemma passed_find: "find_state_of d sv t e inp w = (r, w1) \<Longrightarrow> passed w w1"
  by (auto simp: find_state_of_def dest!: passed_redeem split: if_splits prod.splits sum.splits)

lemma requireRepo_Inl: "requireRepo d rid = Inl err \<Longrightarrow> \<not> is_code err NotAllowed"
  by (auto simp: requireRepo_def get_entry_def split: if_splits option.splits)

text \<open>A handler's branches are fine when each of its ends is.\<close>

lemma fine_sum:
  "(\<And>e. x = Inl e \<Longrightarrow> fine d t c w (f e)) \<Longrightarrow> (\<And>y. x = Inr y \<Longrightarrow> fine d t c w (g y)) \<Longrightarrow>
     fine d t c w (case x of Inl e \<Rightarrow> f e | Inr y \<Rightarrow> g y)"
  by (simp split: sum.split)

lemma fine_prod:
  "(\<And>y z. x = (y, z) \<Longrightarrow> fine d t c w (f y z)) \<Longrightarrow> fine d t c w (case x of (y, z) \<Rightarrow> f y z)"
  by (simp split: prod.split)

lemma fine_list_case:
  "(x = [] \<Longrightarrow> fine d t c w a) \<Longrightarrow> (\<And>y ys. x = y # ys \<Longrightarrow> fine d t c w (g y ys)) \<Longrightarrow>
     fine d t c w (case x of [] \<Rightarrow> a | y # ys \<Rightarrow> g y ys)"
  by (simp split: list.split)

lemma fine_if:
  "(b \<Longrightarrow> fine d t c w x) \<Longrightarrow> (\<not> b \<Longrightarrow> fine d t c w y) \<Longrightarrow> fine d t c w (if b then x else y)"
  by simp

lemma fine_errTool: "passed w w1 \<Longrightarrow> fine d t c w (errTool err, w1)"
  by (simp add: fine_def passed_def audited_def)

lemma fine_okResult: "data_for c x \<Longrightarrow> passed w w1 \<Longrightarrow> fine d t c w (okResult d cost x truncated warnings, w1)"
  by (simp add: fine_def passed_def audited_def)

lemma fine_failTool:
  "tool = tool_name c \<Longrightarrow> passed w w1 \<Longrightarrow> (is_code err NotAllowed \<Longrightarrow> registered d rid) \<Longrightarrow>
     fine d t c w (failTool t tool rid err w1)"
  using audited_failTool [of w1 w err d rid t "tool_name c"]
  by (simp add: fine_def passed_def) (simp add: failTool_def)

lemmas fine_branches = fine_sum fine_prod fine_list_case fine_if fine_errTool fine_okResult fine_failTool

lemmas passes = passed_browse passed_find passed_redeem passed_issue passed_issue_rest
  requireRepo_Inl requireRepo_registered

lemma fine_answer_page:
  assumes "needed \<Longrightarrow> ls_snapshots out \<noteq> []" and "passed w w1"
  shows "fine d t (CallListSnapshots inp) w (answer_page d t rid sc truncated needed obs out w1)"
  unfolding answer_page_def using assms by (intro fine_branches) (auto dest: passes)

lemma fine_list_continue:
  assumes "0 < limit" and "registered d (li_repository inp)"
  shows "fine d t (CallListSnapshots inp) w (list_continue d sv t inp e limit w)"
proof -
  have "listSnapshotsForCursor (sv_metadata sv) e rid st limit s \<noteq> (Inr ([], True, obs), s')" for rid st s s' obs
    using assms(1) by (auto simp: listSnapshotsForCursor_def cursor_page_spec split: sum.splits prod.splits)
  with assms(2) show ?thesis
    unfolding list_continue_def Let_def list_tool_def
    by (intro fine_branches fine_answer_page) (auto dest: passes simp: list_tool_def)
qed

lemma fine_list_first:
  assumes "registered d (li_repository inp)"
  shows "fine d t (CallListSnapshots inp) w (list_first d sv t inp e limit window groupBy cadence w)"
  using assms unfolding list_first_def Let_def
  by (intro fine_branches fine_answer_page) (auto simp: list_tool_def)

lemma fine_list:
  assumes "0 < lm_max_snapshots (rg_limits (dp_registry d))"
  shows "fine d t (CallListSnapshots inp) w (makeListSnapshots d sv pd t inp w)"
  unfolding makeListSnapshots_def Let_def
  by (intro fine_branches fine_list_first fine_list_continue page_limit_pos [OF assms])
    (auto simp: list_tool_def dest: passes)

lemma fine_get: "fine d t (CallGetSnapshot inp) w (makeGetSnapshot d sv t inp w)"
  unfolding makeGetSnapshot_def Let_def by (intro fine_branches) (auto dest: passes)

lemma fine_browse_page:
  assumes "registered d rid" and "passed w w1"
  shows "fine d t (CallBrowseSnapshot inp) w (browse_page d sv t e rid limit st w1)"
proof -
  have "snapshotsByIDs (sv_metadata sv) e rid ids s \<noteq> (Inr [], s')" for ids s s'
    by (auto dest: snapshotsByIDs_seen)
  with assms show ?thesis
    unfolding browse_page_def browse_answer_def Let_def
    by (intro fine_branches) (auto simp: browse_tool_def dest: passes)
qed

lemma fine_browse: "fine d t (CallBrowseSnapshot inp) w (makeBrowseSnapshot d sv t inp w)"
  unfolding makeBrowseSnapshot_def Let_def
  by (intro fine_branches fine_browse_page) (auto simp: browse_tool_def dest: passes)

lemma fine_find: "fine d t (CallFindFiles inp) w (makeFindFiles d sv t inp w)"
  unfolding makeFindFiles_def find_answer_def Let_def
  by (intro fine_branches) (auto simp: find_tool_def dest: passes)

lemma fine_stats: "fine d t (CallRepositoryStats inp) w (makeRepositoryStats d sv t inp w)"
  unfolding makeRepositoryStats_def run_stats_def Let_def
  by (intro fine_branches) (auto dest: passes)

lemma fine_call:
  assumes "0 < lm_max_snapshots (rg_limits (dp_registry d))"
  shows "fine d t c w (call_tool d sv pd t c w)"
  using fine_list [OF assms] fine_get fine_browse fine_find fine_stats
  by (cases c) (simp_all add: makeCapabilities_def makeListRepositories_def fine_okResult)

section \<open>Properties of every call\<close>


lemma sample_bounds: "0 < lm_max_snapshots (rg_limits (dp_registry sample_deps))"
  by (simp add: sample_deps_def)


text \<open>The repository a call names.\<close>

fun repository_of :: "tool_call \<Rightarrow> string option" where
  "repository_of CallCapabilities = None"
| "repository_of CallListRepositories = None"
| "repository_of (CallListSnapshots inp) = Some (li_repository inp)"
| "repository_of (CallGetSnapshot inp) = Some (gi_repository inp)"
| "repository_of (CallBrowseSnapshot inp) = Some (bi_repository inp)"
| "repository_of (CallFindFiles inp) = Some (fn_repository inp)"
| "repository_of (CallRepositoryStats inp) = Some (si_repository inp)"

lemma unknown_repository:
  assumes "repository_of c = Some rid" and "rid \<noteq> []" and "\<not> registered d rid"
  shows "call_tool d sv pd t c w =
    failTool t (tool_name c) rid (new_error RepositoryNotFound ''unknown repository_id'') w"
proof -
  have "requireRepo d rid = Inl (new_error RepositoryNotFound ''unknown repository_id'')"
    using assms(2,3) by (auto simp: requireRepo_def registered_def get_entry_def split: option.splits)
  with assms(1) show ?thesis
    by (cases c) (simp_all add: makeListSnapshots_def makeGetSnapshot_def makeBrowseSnapshot_def makeFindFiles_def
        makeRepositoryStats_def Let_def list_tool_def browse_tool_def find_tool_def)
qed



text \<open>
  The cursor store never outgrows its bound. In every state of a running server, after any
  calls and whatever the rest of the system does between them, the store holds at most 256
  cursors under distinct tokens, each with the current version and an expiry one lifetime
  after its creation.
\<close>

theorem serving_cursors_bounded:
  assumes "serving d sv pd w" and "0 < lm_max_snapshots (rg_limits (dp_registry d))"
  shows "cursor_store_ok (wo_cursors w) \<and> length (st_entries (wo_cursors w)) \<le> 256"
proof -
  have "cursor_store_ok (wo_cursors w) \<and> st_max (wo_cursors w) = 256"
    using assms(1)
  proof induction
    case (started l s)
    show ?case
      by (simp add: NewServer_def Let_def newCursorStore_ok) (simp add: newCursorStore_def cursorMaxEntries_def)
  next
    case (called w t c)
    have "0 < lm_max_snapshots (rg_limits (dp_registry (fst (NewServer d))))"
      using assms(2) by (simp add: NewServer_def Let_def)
    from fine_call [OF this, of t c w sv pd] called.IH show ?case
      by (simp add: fine_def store_kept_def)
  qed simp
  then show ?thesis by (auto simp: cursor_store_ok_def)
qed

theorem serving_cursors_bounded_witness:
  "length (st_entries (wo_cursors (snd (call_tool (fst (NewServer sample_deps)) (sample_services dated_doc) (\<lambda>_. None)
     sample_moment (CallListSnapshots list_request)
     \<lparr>wo_cursors = snd (NewServer sample_deps), wo_log = None, wo_rest = ()\<rparr>)))) \<le> 256"
  by (rule conjunct2 [OF serving_cursors_bounded [OF called [OF started] sample_bounds]])

end
