(* ===== verification/Startup.thy ===== *)
theory Startup
  imports Server
begin

text \<open>
  The command \<open>cmd/restic-defensive-mcp\<close>: the start of the server in \<open>main.go\<close> and the two
  diagnostic modes of \<open>diagnostics.go\<close>. What the command asks of its machine - the YAML
  decoder, files, the search for the binary, child processes, the clock, the two JSON
  encoders - is the record \<open>host\<close>; what a start leaves behind is the record \<open>boot\<close>.
\<close>

section \<open>The machine and the report\<close>

record host =
  ho_yaml_first :: "string \<Rightarrow> config res"
  ho_yaml_second :: "string \<Rightarrow> yaml_tail"
  ho_files :: file_system
  ho_abs :: "string \<Rightarrow> string res"
  ho_is_dir :: "string \<Rightarrow> bool res"
  ho_look_path :: "string \<Rightarrow> string res"
  ho_child :: "string \<Rightarrow> run_request \<Rightarrow> process"
  ho_elapsed_ms :: "string \<Rightarrow> int"
  ho_marshal :: "envelope \<Rightarrow> string option"

record restriction_report =
  rt_hosts :: bool
  rt_tags :: bool
  rt_paths :: bool

record connectivity_report =
  cn_ok :: bool
  cn_error_code :: string
  cn_error :: string
  cn_duration_ms :: int

record repository_report =
  rr_id :: string
  rr_label :: string
  rr_backend :: string
  rr_hosts :: "string list"
  rr_tags :: "string list"
  rr_paths :: "string list"
  rr_unrestricted :: restriction_report
  rr_secrets_valid :: bool
  rr_connectivity :: "connectivity_report option"

record diagnostic_report =
  dg_valid :: bool
  dg_mode :: string
  dg_config_file :: string
  dg_config_version :: int
  dg_restic_version :: string
  dg_restic_supported :: bool
  dg_limits :: "(string \<times> int) list"
  dg_repositories :: "repository_report list"
  dg_warnings :: "string list"
  dg_errors :: "string list"

definition diagnosticExitOK :: int where "diagnosticExitOK = 0"
definition diagnosticExitInvalid :: int where "diagnosticExitInvalid = 2"
definition diagnosticExitUnreachable :: int where "diagnosticExitUnreachable = 3"

section \<open>Warnings and messages\<close>

text \<open>
  \<open>%q\<close> of an identifier, which holds letters, digits, dots, dashes and underscores only in a
  validated configuration, adds the quotes.
\<close>

definition quoted :: "string \<Rightarrow> string" where
  "quoted s = CHR 0x22 # s @ [CHR 0x22]"

definition allowlist_warnings :: "repository \<Rightarrow> string list" where
  "allowlist_warnings r =
     (let about = ''repository '' @ quoted (if rp_id r = [] then ''?'' else rp_id r) @ '': '' in
      (if rp_allowed_hosts r = []
         then [about @ ''allowed_hosts is empty (all snapshot hosts visible)''] else []) @
      (if rp_allowed_tags r = []
         then [about @ ''allowed_tags is empty (no tag restriction on visibility filters)''] else []) @
      (if rp_allowed_paths r = []
         then [about @ ''allowed_paths is empty (all snapshot path metadata is visible to MCP clients)'']
       else []))"

definition EmptyAllowlistWarnings :: "config \<Rightarrow> string list" where
  "EmptyAllowlistWarnings cfg = concat (map allowlist_warnings (cf_repositories cfg))"

definition diagnosticErrorCode :: "go_error \<Rightarrow> string" where
  "diagnosticErrorCode err =
     (case as_app err of Some ae \<Rightarrow> code_string (err_code ae) | None \<Rightarrow> code_string InternalError)"

definition safeDiagnosticError :: "go_error option \<Rightarrow> string" where
  "safeDiagnosticError err =
     (case err of None \<Rightarrow> [] | Some e \<Rightarrow> Clip (SanitizeAndRedact (error_string e)) 300)"

section \<open>The runner and its version\<close>

definition NewExecRunner :: "host \<Rightarrow> string \<Rightarrow> runner res" where
  "NewExecRunner h binary =
     (case resolveBinary (ho_abs h) (ho_is_dir h) (ho_look_path h) binary of
        Inl err \<Rightarrow> Inl err
      | Inr path \<Rightarrow>
          Inr \<lparr>rn_run = (\<lambda>req. exec_run req (ho_child h path req)),
               rn_scan = Some (\<lambda>req f. exec_run_scan req (Some f) (ho_child h path req))\<rparr>)"

definition probe_request :: run_request where
  "probe_request =
     \<lparr>rq_argv = BuildVersionArgv,
      rq_env = [''PATH=/usr/bin:/bin'', ''LANG=C'', ''LC_ALL=C'', ''HOME=/var/empty''],
      rq_timeout = 15 * second, rq_max_output = 64 * 2 ^ 10, rq_work_dir = []\<rparr>"

text \<open>A runner that ends without an error returns a result.\<close>

definition probeResticVersion :: "runner \<Rightarrow> string res" where
  "probeResticVersion rn =
     (case rn_run rn probe_request of
        (res, Some err) \<Rightarrow> Inl err
      | (res, None) \<Rightarrow>
          (case ParseVersion (rr_stdout (the res)) of
             Inl err \<Rightarrow> Inl err
           | Inr vi \<Rightarrow> Inr (vi_version vi)))"

section \<open>The parts of the report\<close>

definition open_dims :: "string list \<Rightarrow> string list \<Rightarrow> string list \<Rightarrow> restriction_report" where
  "open_dims hosts tags paths =
     \<lparr>rt_hosts = (hosts = []), rt_tags = (tags = []), rt_paths = (paths = [])\<rparr>"

definition registered_report :: "bool \<Rightarrow> public_info \<Rightarrow> repository_report" where
  "registered_report secretsValid info =
     \<lparr>rr_id = pi_id info, rr_label = pi_label info, rr_backend = pi_backend info,
      rr_hosts = pi_hosts info, rr_tags = pi_tags info, rr_paths = pi_paths info,
      rr_unrestricted = open_dims (pi_hosts info) (pi_tags info) (pi_paths info),
      rr_secrets_valid = secretsValid, rr_connectivity = None\<rparr>"

definition configured_report :: "repository \<Rightarrow> repository_report" where
  "configured_report r =
     \<lparr>rr_id = rp_id r, rr_label = rp_label r, rr_backend = [],
      rr_hosts = rp_allowed_hosts r, rr_tags = rp_allowed_tags r, rr_paths = rp_allowed_paths r,
      rr_unrestricted = open_dims (rp_allowed_hosts r) (rp_allowed_tags r) (rp_allowed_paths r),
      rr_secrets_valid = False, rr_connectivity = None\<rparr>"

definition diagnosticRepositories ::
    "config \<Rightarrow> registry option \<Rightarrow> bool \<Rightarrow> repository_report list" where
  "diagnosticRepositories cfg registry secretsValid =
     (case registry of
        Some r \<Rightarrow> map (registered_report secretsValid) (list_entries r)
      | None \<Rightarrow> map configured_report (cf_repositories cfg))"

definition diagnosticLimits :: "limits \<Rightarrow> (string \<times> int) list" where
  "diagnosticLimits l =
     [(''command_timeout_sec'', seconds_of (lm_command_timeout l)),
      (''expensive_command_timeout_sec'', seconds_of (lm_expensive_timeout l)),
      (''max_snapshots'', lm_max_snapshots l),
      (''max_nodes'', lm_max_nodes l),
      (''max_find_results'', lm_max_find_results l),
      (''max_output_bytes'', lm_max_output_bytes l),
      (''max_concurrent_per_repo'', lm_per_repo l),
      (''max_concurrent_global'', lm_global l)]"

text \<open>
  The checks run one after the other under a context that is never cancelled, so each finds
  every slot free; the registry has no audit logger.
\<close>

definition background :: context_view where
  "background = \<lparr>cx_err = False, cx_done_repo = False, cx_done_global = False\<rparr>"

definition checkRepositoryConnectivity ::
    "host \<Rightarrow> runner \<Rightarrow> registry \<Rightarrow> string \<Rightarrow> connectivity_report" where
  "checkRepositoryConnectivity h rn r rid =
     (case BuildSnapshotsArgv no_snapshots_opts of
        Inl err \<Rightarrow> \<lparr>cn_ok = False, cn_error_code = code_string InternalError,
                    cn_error = safeDiagnosticError (Some err), cn_duration_ms = 0\<rparr>
      | Inr argv \<Rightarrow>
          let ms = ho_elapsed_ms h rid in
          (case fst (registry_run r rn background 0 ms rid argv False None no_slots None) of
             (res, Some err) \<Rightarrow>
               \<lparr>cn_ok = False, cn_error_code = diagnosticErrorCode err,
                cn_error = safeDiagnosticError (Some err), cn_duration_ms = ms\<rparr>
           | (res, None) \<Rightarrow>
               (case ParseSnapshots (rr_stdout (the res)) of
                  Inl err \<Rightarrow>
                    \<lparr>cn_ok = False, cn_error_code = diagnosticErrorCode err,
                     cn_error = safeDiagnosticError (Some err), cn_duration_ms = ms\<rparr>
                | Inr _ \<Rightarrow> \<lparr>cn_ok = True, cn_error_code = [], cn_error = [], cn_duration_ms = ms\<rparr>)))"

section \<open>The diagnostic run\<close>

definition empty_report :: "bool \<Rightarrow> diagnostic_report" where
  "empty_report checkConnectivity =
     \<lparr>dg_valid = False, dg_mode = (if checkConnectivity then ''diagnose'' else ''validate-config''),
      dg_config_file = [], dg_config_version = 0, dg_restic_version = [], dg_restic_supported = False,
      dg_limits = [], dg_repositories = [], dg_warnings = [], dg_errors = []\<rparr>"

definition add_error :: "string \<Rightarrow> diagnostic_report \<Rightarrow> diagnostic_report" where
  "add_error e rep = rep\<lparr>dg_errors := dg_errors rep @ [e]\<rparr>"

definition unsupported_version :: "string \<Rightarrow> string" where
  "unsupported_version version =
     ''restic '' @ version @ '' is below the supported minimum '' @ MinResticVersion"

text \<open>The binary and its version: the runner, if there is one, and the report so far.\<close>

definition diagnose_binary ::
    "host \<Rightarrow> config \<Rightarrow> diagnostic_report \<Rightarrow> runner option \<times> diagnostic_report" where
  "diagnose_binary h cfg rep =
     (case NewExecRunner h (cf_restic_binary cfg) of
        Inl err \<Rightarrow>
          (None, add_error (''restic binary unavailable: '' @ safeDiagnosticError (Some err)) rep)
      | Inr rn \<Rightarrow>
          (Some rn,
           case probeResticVersion rn of
             Inl err \<Rightarrow>
               add_error (''restic version unavailable: '' @ safeDiagnosticError (Some err)) rep
           | Inr version \<Rightarrow>
               let supported = CompareVersion version MinResticVersion \<ge> 0;
                   rep' = rep\<lparr>dg_restic_version := version, dg_restic_supported := supported\<rparr>
               in if supported then rep' else add_error (unsupported_version version) rep'))"

definition diagnose_registry ::
    "host \<Rightarrow> config \<Rightarrow> diagnostic_report \<Rightarrow> registry option \<times> diagnostic_report" where
  "diagnose_registry h cfg rep =
     (case NewRegistry (ho_files h) cfg of
        Inl err \<Rightarrow>
          (None, (add_error (''repository configuration invalid: '' @ safeDiagnosticError (Some err)) rep)
             \<lparr>dg_repositories := diagnosticRepositories cfg None False\<rparr>)
      | Inr r \<Rightarrow> (Some r, rep\<lparr>dg_repositories := diagnosticRepositories cfg (Some r) True\<rparr>))"

definition with_connectivity ::
    "host \<Rightarrow> runner \<Rightarrow> registry \<Rightarrow> repository_report \<Rightarrow> repository_report" where
  "with_connectivity h rn r x =
     x\<lparr>rr_connectivity := Some (checkRepositoryConnectivity h rn r (rr_id x))\<rparr>"

definition connected :: "repository_report \<Rightarrow> bool" where
  "connected x \<longleftrightarrow> (case rr_connectivity x of None \<Rightarrow> False | Some c \<Rightarrow> cn_ok c)"

text \<open>The end of a run without connectivity checks.\<close>

definition conclude :: "diagnostic_report \<Rightarrow> diagnostic_report \<times> int" where
  "conclude rep =
     (let valid = (dg_errors rep = []) in
      (rep\<lparr>dg_valid := valid\<rparr>, if \<not> valid then diagnosticExitInvalid else diagnosticExitOK))"

definition conclude_connected :: "diagnostic_report \<Rightarrow> diagnostic_report \<times> int" where
  "conclude_connected rep =
     (let valid = (dg_errors rep = [] \<and> list_all connected (dg_repositories rep)) in
      (rep\<lparr>dg_valid := valid\<rparr>,
       if \<not> valid then (if dg_errors rep \<noteq> [] then diagnosticExitInvalid else diagnosticExitUnreachable)
       else diagnosticExitOK))"

definition runConfigDiagnostic :: "host \<Rightarrow> string \<Rightarrow> bool \<Rightarrow> diagnostic_report \<times> int" where
  "runConfigDiagnostic h path checkConnectivity =
     (let rep0 = empty_report checkConnectivity in
      if path = [] then (add_error ''config path is required'' rep0, diagnosticExitInvalid)
      else
        let rep1 = rep0\<lparr>dg_config_file := path_base path\<rparr> in
        (case Load (ho_yaml_first h) (ho_yaml_second h) (ho_files h) path of
           Inl err \<Rightarrow> (add_error (safeDiagnosticError (Some err)) rep1, diagnosticExitInvalid)
         | Inr cfg \<Rightarrow>
             let rep2 = rep1\<lparr>dg_config_version := cf_version cfg, dg_limits := diagnosticLimits (cf_limits cfg),
                             dg_warnings := EmptyAllowlistWarnings cfg\<rparr>
             in (case diagnose_binary h cfg rep2 of (runner, rep3) \<Rightarrow>
                (case diagnose_registry h cfg rep3 of (registry, rep4) \<Rightarrow>
                   if checkConnectivity then
                     (case (registry, runner) of
                        (Some r, Some rn) \<Rightarrow>
                          conclude_connected
                            (rep4\<lparr>dg_repositories := map (with_connectivity h rn r) (dg_repositories rep4)\<rparr>)
                      | _ \<Rightarrow> conclude (add_error
                          ''connectivity check requires valid configuration and a supported restic binary'' rep4))
                   else conclude rep4))))"

section \<open>The text of a report\<close>

definition yesNo :: "bool \<Rightarrow> string" where
  "yesNo v = (if v then ''valid'' else ''invalid'')"

definition restrictionLabel :: "bool \<Rightarrow> string" where
  "restrictionLabel unrestricted = (if unrestricted then ''unrestricted'' else ''restricted'')"

definition repository_lines :: "repository_report \<Rightarrow> string list" where
  "repository_lines x =
     [''repository '' @ rr_id x @ '': backend='' @ rr_backend x,
      ''  secrets: '' @ yesNo (rr_secrets_valid x),
      ''  restrictions: hosts='' @ restrictionLabel (rt_hosts (rr_unrestricted x)) @
        '' tags='' @ restrictionLabel (rt_tags (rr_unrestricted x)) @
        '' paths='' @ restrictionLabel (rt_paths (rr_unrestricted x))] @
     (case rr_connectivity x of
        None \<Rightarrow> []
      | Some c \<Rightarrow>
          [if cn_ok c then ''  connectivity: ok ('' @ dec_int (cn_duration_ms c) @ '' ms)''
           else ''  connectivity: failed code='' @ cn_error_code c @ '' ('' @ dec_int (cn_duration_ms c) @ '' ms)''])"

text \<open>The lines that \<open>emitDiagnostic\<close> prints, each ended by a newline.\<close>

definition report_lines :: "diagnostic_report \<Rightarrow> string list" where
  "report_lines rep =
     [''configuration: '' @ (if dg_valid rep then ''valid'' else ''invalid'')] @
     (if dg_config_file rep \<noteq> [] then [''config_file: '' @ dg_config_file rep] else []) @
     (if dg_restic_version rep \<noteq> []
        then [''restic: '' @ dg_restic_version rep @ '' ('' @
              (if dg_restic_supported rep then ''supported'' else ''unsupported'') @ '')''] else []) @
     concat (map repository_lines (dg_repositories rep)) @
     map (\<lambda>w. ''warning: '' @ w) (dg_warnings rep) @
     map (\<lambda>e. ''error: '' @ e) (dg_errors rep)"

section \<open>Starting\<close>

record flags =
  fl_config :: string
  fl_version :: bool
  fl_validate :: bool
  fl_diagnose :: bool
  fl_json :: bool

text \<open>
  A start prints lines, prints a report as JSON, ends with a message on the error stream, is
  refused with a logged message, or serves. \<open>Refusal\<close> holds the warnings logged before, the
  message and its text argument. The usage text after a missing \<open>--config\<close> and the line logged
  when serving begins are left out.
\<close>

datatype boot =
    Printed "string list" int
  | PrintedJSON diagnostic_report int
  | Usage string int
  | Refusal (refused_warnings: "string list") (refused_msg: string) (refused_err: string) int
  | Serving (served_warnings: "string list") (served: deps)

definition refuse_start :: "string list \<Rightarrow> string \<Rightarrow> go_error \<Rightarrow> boot" where
  "refuse_start warnings msg err = Refusal warnings msg (SanitizeAndRedact (error_string err)) 2"

definition emitDiagnostic :: "bool \<Rightarrow> diagnostic_report \<times> int \<Rightarrow> boot" where
  "emitDiagnostic json out =
     (case out of (rep, code) \<Rightarrow>
        if json then PrintedJSON rep code else Printed (report_lines rep) code)"

definition start_server :: "host \<Rightarrow> string \<Rightarrow> string \<Rightarrow> boot" where
  "start_server h version path =
     (case Load (ho_yaml_first h) (ho_yaml_second h) (ho_files h) path of
        Inl err \<Rightarrow> refuse_start [] ''config_load_failed'' err
      | Inr cfg \<Rightarrow>
          let warnings = EmptyAllowlistWarnings cfg in
     (case NewExecRunner h (cf_restic_binary cfg) of
        Inl err \<Rightarrow> refuse_start warnings ''restic_binary'' err
      | Inr rn \<Rightarrow>
     (case probeResticVersion rn of
        Inl err \<Rightarrow> refuse_start warnings ''restic_version'' err
      | Inr resticVer \<Rightarrow>
          if CompareVersion resticVer MinResticVersion < 0
            then Refusal warnings ''unsupported_restic_version'' resticVer 2
          else
     (case NewRegistry (ho_files h) cfg of
        Inl err \<Rightarrow> refuse_start warnings ''registry'' err
      | Inr reg \<Rightarrow>
          Serving warnings
            \<lparr>dp_registry = reg, dp_restic_version = resticVer, dp_server_version = version,
             dp_max_response = 0, dp_marshal = ho_marshal h\<rparr>))))"

definition run :: "host \<Rightarrow> string \<Rightarrow> flags \<Rightarrow> boot" where
  "run h version fl =
     (if fl_version fl then Printed [''restic-defensive-mcp '' @ version] 0
      else if fl_validate fl \<and> fl_diagnose fl
        then Usage ''error: --validate-config and --diagnose are mutually exclusive'' 2
      else if fl_json fl \<and> \<not> fl_validate fl \<and> \<not> fl_diagnose fl
        then Usage ''error: --json requires --validate-config or --diagnose'' 2
      else if fl_validate fl \<or> fl_diagnose fl
        then emitDiagnostic (fl_json fl) (runConfigDiagnostic h (fl_config fl) (fl_diagnose fl))
      else if fl_config fl = [] then Usage ''error: --config is required'' 2
      else start_server h version (fl_config fl))"

text \<open>How the command ends after serving: the error of the transport, and whether a signal ended it.\<close>

definition serve_exit :: "go_error option \<Rightarrow> bool \<Rightarrow> int" where
  "serve_exit err signalled = (if err \<noteq> None \<and> \<not> signalled then 1 else 0)"

section \<open>What a start asks of restic\<close>

text \<open>
  Two machines on which the probe of the version, and with \<open>--diagnose\<close> the unfiltered
  \<open>snapshots --json\<close>, end alike.
\<close>

definition same_probes :: "bool \<Rightarrow> (string \<Rightarrow> run_request \<Rightarrow> process) \<Rightarrow> (string \<Rightarrow> run_request \<Rightarrow> process) \<Rightarrow> bool" where
  "same_probes checkConnectivity child child' \<longleftrightarrow>
     (\<forall>path req. req = probe_request \<or>
        checkConnectivity \<and> BuildSnapshotsArgv no_snapshots_opts = Inr (rq_argv req) \<longrightarrow>
        child path req = child' path req)"

lemma NewExecRunner_cases:
  "(\<exists>err. NewExecRunner h binary = Inl err \<and> NewExecRunner (h\<lparr>ho_child := child\<rparr>) binary = Inl err) \<or>
   (\<exists>path rn rn'. NewExecRunner h binary = Inr rn \<and> NewExecRunner (h\<lparr>ho_child := child\<rparr>) binary = Inr rn' \<and>
      rn_run rn = (\<lambda>req. exec_run req (ho_child h path req)) \<and>
      rn_run rn' = (\<lambda>req. exec_run req (child path req)))"
proof (cases "resolveBinary (ho_abs h) (ho_is_dir h) (ho_look_path h) binary")
  case (Inr path)
  then show ?thesis by (intro disjI2 exI [of _ path]) (simp add: NewExecRunner_def)
qed (simp add: NewExecRunner_def)

lemma probe_same:
  assumes "rn_run rn probe_request = rn_run rn' probe_request"
  shows "probeResticVersion rn = probeResticVersion rn'"
  using assms by (simp add: probeResticVersion_def)

lemma registry_run_same:
  assumes "\<And>e b. rn_run rn (request_of r e argv b) = rn_run rn' (request_of r e argv b)"
  shows "registry_run r rn cx now ms rid argv expensive None s l =
    registry_run r rn' cx now ms rid argv expensive None s l"
  using assms by (simp add: registry_run_def execute_def split: sum.split prod.split)

lemma connectivity_same:
  assumes "\<And>e b argv. BuildSnapshotsArgv no_snapshots_opts = Inr argv \<Longrightarrow>
      rn_run rn (request_of r e argv b) = rn_run rn' (request_of r e argv b)"
  shows "checkRepositoryConnectivity (h\<lparr>ho_child := child\<rparr>) rn r rid = checkRepositoryConnectivity h rn' r rid"
proof (cases "BuildSnapshotsArgv no_snapshots_opts")
  case (Inr argv)
  have same: "registry_run r rn background 0 ms rid argv False None no_slots None =
      registry_run r rn' background 0 ms rid argv False None no_slots None" for ms
    by (rule registry_run_same) (rule assms [OF Inr])
  show ?thesis unfolding checkRepositoryConnectivity_def Inr by (simp add: same Let_def)
qed (simp add: checkRepositoryConnectivity_def)

lemma diagnose_same:
  assumes "same_probes checkConnectivity (ho_child h) child"
  shows "runConfigDiagnostic (h\<lparr>ho_child := child\<rparr>) path checkConnectivity = runConfigDiagnostic h path checkConnectivity"
proof (cases "Load (ho_yaml_first h) (ho_yaml_second h) (ho_files h) path")
  case (Inl err)
  then show ?thesis by (simp add: runConfigDiagnostic_def Let_def)
next
  case (Inr cfg)
  have reg: "diagnose_registry (h\<lparr>ho_child := child\<rparr>) cfg rep = diagnose_registry h cfg rep" for rep
    by (simp add: diagnose_registry_def)
  from NewExecRunner_cases [of h "cf_restic_binary cfg" child] show ?thesis
  proof (elim disjE exE conjE)
    fix err assume bin: "NewExecRunner h (cf_restic_binary cfg) = Inl err"
      "NewExecRunner (h\<lparr>ho_child := child\<rparr>) (cf_restic_binary cfg) = Inl err"
    then show ?thesis
      by (simp add: runConfigDiagnostic_def Inr Let_def diagnose_binary_def reg split: prod.split option.split)
  next
    fix p rn rn' assume bin: "NewExecRunner h (cf_restic_binary cfg) = Inr rn"
      "NewExecRunner (h\<lparr>ho_child := child\<rparr>) (cf_restic_binary cfg) = Inr rn'"
      and run: "rn_run rn = (\<lambda>req. exec_run req (ho_child h p req))" "rn_run rn' = (\<lambda>req. exec_run req (child p req))"
    have probe: "probeResticVersion rn' = probeResticVersion rn"
      by (rule probe_same) (use assms in \<open>simp add: run same_probes_def\<close>)
    have check: "with_connectivity (h\<lparr>ho_child := child\<rparr>) rn' r = with_connectivity h rn r"
      if "checkConnectivity" for r
    proof -
      have "rn_run rn' (request_of r e argv b) = rn_run rn (request_of r e argv b)"
        if "BuildSnapshotsArgv no_snapshots_opts = Inr argv" for e b argv
        using assms \<open>checkConnectivity\<close> that by (simp add: run same_probes_def request_of_def)
      from connectivity_same [OF this] show ?thesis by (simp add: with_connectivity_def fun_eq_iff)
    qed
    show ?thesis
    proof (cases checkConnectivity)
      case True
      note check = check [OF this]
      show ?thesis
        by (simp add: runConfigDiagnostic_def Inr Let_def diagnose_binary_def bin probe reg check True
            split: prod.split option.split)
    next
      case False
      then show ?thesis
        by (simp add: runConfigDiagnostic_def Inr Let_def diagnose_binary_def bin probe reg split: prod.split option.split)
    qed
  qed
qed

lemma start_same:
  assumes "same_probes b (ho_child h) child"
  shows "start_server (h\<lparr>ho_child := child\<rparr>) version path = start_server h version path"
proof (cases "Load (ho_yaml_first h) (ho_yaml_second h) (ho_files h) path")
  case (Inl err)
  then show ?thesis by (simp add: start_server_def)
next
  case (Inr cfg)
  from NewExecRunner_cases [of h "cf_restic_binary cfg" child] show ?thesis
  proof (elim disjE exE conjE)
    fix err assume "NewExecRunner h (cf_restic_binary cfg) = Inl err"
      "NewExecRunner (h\<lparr>ho_child := child\<rparr>) (cf_restic_binary cfg) = Inl err"
    then show ?thesis by (simp add: start_server_def Inr)
  next
    fix p rn rn' assume bin: "NewExecRunner h (cf_restic_binary cfg) = Inr rn"
      "NewExecRunner (h\<lparr>ho_child := child\<rparr>) (cf_restic_binary cfg) = Inr rn'"
      and run: "rn_run rn = (\<lambda>req. exec_run req (ho_child h p req))" "rn_run rn' = (\<lambda>req. exec_run req (child p req))"
    have "probeResticVersion rn' = probeResticVersion rn"
      by (rule probe_same) (use assms in \<open>simp add: run same_probes_def\<close>)
    then show ?thesis by (simp add: start_server_def Inr bin Let_def split: sum.split)
  qed
qed

section \<open>How a diagnostic run ends\<close>

lemma diagnostic_shape:
  obtains rep where "runConfigDiagnostic h path conn = (rep, diagnosticExitInvalid)"
      "\<not> dg_valid rep" "dg_errors rep \<noteq> []"
  | rep where "runConfigDiagnostic h path conn = conclude rep" "conn \<longrightarrow> dg_errors rep \<noteq> []"
  | rep where "runConfigDiagnostic h path conn = conclude_connected rep" "conn"
proof (cases "path = [] \<or> (\<exists>err. Load (ho_yaml_first h) (ho_yaml_second h) (ho_files h) path = Inl err)")
  case True
  then have "\<exists>rep. runConfigDiagnostic h path conn = (rep, diagnosticExitInvalid) \<and>
      \<not> dg_valid rep \<and> dg_errors rep \<noteq> []"
    by (auto simp: runConfigDiagnostic_def Let_def empty_report_def add_error_def)
  with that(1) show ?thesis by blast
next
  case False
  then obtain cfg where load: "Load (ho_yaml_first h) (ho_yaml_second h) (ho_files h) path = Inr cfg" and "path \<noteq> []"
    by (cases "Load (ho_yaml_first h) (ho_yaml_second h) (ho_files h) path") auto
  let ?rep2 = "(empty_report conn)\<lparr>dg_config_file := path_base path, dg_config_version := cf_version cfg,
    dg_limits := diagnosticLimits (cf_limits cfg), dg_warnings := EmptyAllowlistWarnings cfg\<rparr>"
  obtain runner rep3 where bin: "diagnose_binary h cfg ?rep2 = (runner, rep3)" by fastforce
  obtain registry rep4 where reg: "diagnose_registry h cfg rep3 = (registry, rep4)" by fastforce
  have out: "runConfigDiagnostic h path conn =
      (if conn then
         (case (registry, runner) of
            (Some r, Some rn) \<Rightarrow> conclude_connected
              (rep4\<lparr>dg_repositories := map (with_connectivity h rn r) (dg_repositories rep4)\<rparr>)
          | _ \<Rightarrow> conclude (add_error
              ''connectivity check requires valid configuration and a supported restic binary'' rep4))
       else conclude rep4)"
    using \<open>path \<noteq> []\<close> by (simp add: runConfigDiagnostic_def load Let_def bin reg)
  show ?thesis
  proof (cases "conn \<and> registry \<noteq> None \<and> runner \<noteq> None")
    case True
    then show ?thesis using out that(3) by auto
  next
    case False
    then have "(conn \<and> runConfigDiagnostic h path conn = conclude (add_error
          ''connectivity check requires valid configuration and a supported restic binary'' rep4)) \<or>
        (\<not> conn \<and> runConfigDiagnostic h path conn = conclude rep4)"
      using out by (auto split: option.splits)
    with that(2) show ?thesis by (auto simp: add_error_def)
  qed
qed

section \<open>Properties\<close>

text \<open>
  C38. What the command asks of restic before it serves. Its outcome depends on child processes
  through the probe of the version alone, and with \<open>--diagnose\<close> through \<open>snapshots --json\<close> of
  the configured repositories: no mode runs a command that could change a repository, and
  \<open>--validate-config\<close> contacts none.
\<close>

theorem start_only_probes:
  assumes "same_probes (fl_diagnose fl) (ho_child h) child"
  shows "run (h\<lparr>ho_child := child\<rparr>) version fl = run h version fl"
  unfolding run_def diagnose_same [OF assms] start_same [OF assms] by (rule refl)

text \<open>
  C16. The exit codes of a diagnostic run. It is 0 exactly when the report is valid, 2 exactly when
  the report lists an error, and 3 exactly when it lists none and a requested check of a
  repository failed.
\<close>

theorem diagnostic_exit:
  "case runConfigDiagnostic h path conn of (rep, code) \<Rightarrow>
     (code = 0 \<longleftrightarrow> dg_valid rep) \<and> (code = 2 \<longleftrightarrow> dg_errors rep \<noteq> []) \<and>
     (code = 3 \<longleftrightarrow> dg_errors rep = [] \<and> conn \<and> \<not> list_all connected (dg_repositories rep)) \<and>
     code \<in> {0, 2, 3}"
proof -
  note ends = diagnosticExitInvalid_def diagnosticExitOK_def diagnosticExitUnreachable_def add_error_def Let_def
  show ?thesis
  proof (cases rule: diagnostic_shape [of h path conn])
    case (1 rep)
    then show ?thesis by (simp add: ends)
  next
    case (2 rep)
    then show ?thesis by (auto simp: ends conclude_def)
  next
    case (3 rep)
    then show ?thesis by (auto simp: ends conclude_connected_def)
  qed
qed

text \<open>
  C15. \<open>--validate-config\<close> is the dress rehearsal of a start: it exits with 0 exactly when the
  server, started with the same configuration file, would serve.
\<close>

theorem validate_agrees:
  "snd (runConfigDiagnostic h path False) = 0 \<longleftrightarrow>
   (\<exists>ws d. run h version \<lparr>fl_config = path, fl_version = False, fl_validate = False,
      fl_diagnose = False, fl_json = False\<rparr> = Serving ws d)"
proof (cases "Load (ho_yaml_first h) (ho_yaml_second h) (ho_files h) path")
  case (Inl err)
  then show ?thesis
    by (simp add: run_def runConfigDiagnostic_def start_server_def refuse_start_def Let_def diagnosticExitInvalid_def)
next
  case (Inr cfg)
  then have "path \<noteq> []" by (auto simp: Load_def)
  note defs = run_def runConfigDiagnostic_def start_server_def refuse_start_def Let_def
    diagnosticExitInvalid_def diagnosticExitOK_def diagnose_binary_def diagnose_registry_def conclude_def
    add_error_def empty_report_def
  show ?thesis
  proof (cases "NewExecRunner h (cf_restic_binary cfg)")
    case bin: (Inl err)
    then show ?thesis using \<open>path \<noteq> []\<close> by (simp add: defs Inr split: sum.split)
  next
    case bin: (Inr rn)
    show ?thesis using \<open>path \<noteq> []\<close>
      by (auto simp: defs Inr bin split: sum.split)
  qed
qed

lemma Load_Inr:
  assumes "Load yaml_first yaml_second fs path = Inr cfg"
  shows "limits_ok (cf_limits cfg)" and "list_all repository_ok (cf_repositories cfg)"
    and "cf_repositories cfg \<noteq> []" and "distinct (map rp_id (cf_repositories cfg))"
proof -
  obtain raw where "Validate raw = Inr cfg"
    using assms by (auto simp: Load_def Parse_def Let_def split: if_splits sum.splits yaml_tail.splits)
  from Validate_Inr [OF this] show "limits_ok (cf_limits cfg)" "list_all repository_ok (cf_repositories cfg)"
    "cf_repositories cfg \<noteq> []" "distinct (map rp_id (cf_repositories cfg))" by simp_all
qed

lemma start_server_Serving:
  assumes "start_server h version path = Serving ws d"
  obtains cfg rn where "Load (ho_yaml_first h) (ho_yaml_second h) (ho_files h) path = Inr cfg"
    and "NewExecRunner h (cf_restic_binary cfg) = Inr rn" and "probeResticVersion rn = Inr (dp_restic_version d)"
    and "CompareVersion (dp_restic_version d) MinResticVersion \<ge> 0"
    and "NewRegistry (ho_files h) cfg = Inr (dp_registry d)" and "ws = EmptyAllowlistWarnings cfg"
    and "dp_server_version d = version"
  using assms by (auto simp: start_server_def refuse_start_def Let_def split: sum.splits if_splits)

lemma run_Serving: "run h version fl = Serving ws d \<Longrightarrow> start_server h version (fl_config fl) = Serving ws d"
  by (auto simp: run_def emitDiagnostic_def split: if_splits prod.splits)

text \<open>
  C39. What holds when the server serves. The configuration file was read and is valid, with limits
  in range and canonical repositories under distinct identifiers; the binary was found and
  answered \<open>version\<close> without an error with a version that is not below the supported minimum;
  and the registry was built, with one entry for each configured repository.
\<close>

theorem serving_checked:
  assumes "run h version fl = Serving ws d"
  shows "\<exists>cfg path res vi.
    Load (ho_yaml_first h) (ho_yaml_second h) (ho_files h) (fl_config fl) = Inr cfg \<and>
    limits_ok (cf_limits cfg) \<and> list_all repository_ok (cf_repositories cfg) \<and>
    resolveBinary (ho_abs h) (ho_is_dir h) (ho_look_path h) (cf_restic_binary cfg) = Inr path \<and>
    exec_run probe_request (ho_child h path probe_request) = (res, None) \<and>
    ParseVersion (rr_stdout (the res)) = Inr vi \<and> dp_restic_version d = vi_version vi \<and>
    CompareVersion (dp_restic_version d) MinResticVersion \<ge> 0 \<and>
    NewRegistry (ho_files h) cfg = Inr (dp_registry d) \<and>
    registry_ids (dp_registry d) = map rp_id (cf_repositories cfg) \<and>
    distinct (registry_ids (dp_registry d)) \<and> registry_ids (dp_registry d) \<noteq> []"
proof -
  obtain cfg rn where cfg: "Load (ho_yaml_first h) (ho_yaml_second h) (ho_files h) (fl_config fl) = Inr cfg"
    and rn: "NewExecRunner h (cf_restic_binary cfg) = Inr rn" "probeResticVersion rn = Inr (dp_restic_version d)"
    and version: "CompareVersion (dp_restic_version d) MinResticVersion \<ge> 0"
    and reg: "NewRegistry (ho_files h) cfg = Inr (dp_registry d)"
    by (rule start_server_Serving [OF run_Serving [OF assms]])
  obtain path where path: "resolveBinary (ho_abs h) (ho_is_dir h) (ho_look_path h) (cf_restic_binary cfg) = Inr path"
    "rn_run rn = (\<lambda>req. exec_run req (ho_child h path req))"
    using rn(1) by (auto simp: NewExecRunner_def split: sum.splits)
  obtain res vi where "exec_run probe_request (ho_child h path probe_request) = (res, None)"
    "ParseVersion (rr_stdout (the res)) = Inr vi" "dp_restic_version d = vi_version vi"
    using rn(2) by (auto simp: probeResticVersion_def path(2) split: prod.splits option.splits sum.splits)
  with cfg path(1) version reg Load_Inr [OF cfg] NewRegistry_Inr(1) [OF reg] show ?thesis
    by (intro exI conjI) (assumption | simp add: registry_ids_def)+
qed

section \<open>A machine that serves\<close>

definition version_doc :: string where
  "version_doc = ''{\"version\":\"0.18.0\"}''"

definition version_process :: process where
  "version_process = sample_process\<lparr>pr_stdout := [version_doc]\<rparr>"

definition sample_host :: host where
  "sample_host =
     \<lparr>ho_yaml_first = (\<lambda>_. Inr sample_config), ho_yaml_second = (\<lambda>_. YamlEnd), ho_files = sample_fs,
      ho_abs = Inr, ho_is_dir = (\<lambda>_. Inr False), ho_look_path = (\<lambda>b. Inr (''/usr/bin/'' @ b)),
      ho_child = (\<lambda>_ _. version_process), ho_elapsed_ms = (\<lambda>_. 4), ho_marshal = (\<lambda>_. Some [])\<rparr>"

definition serve_flags :: flags where
  "serve_flags = \<lparr>fl_config = ''/c'', fl_version = False, fl_validate = False, fl_diagnose = False, fl_json = False\<rparr>"

lemma sample_load: "Load (\<lambda>_. Inr sample_config) (\<lambda>_. YamlEnd) sample_fs ''/c'' = Inr booted_config"
proof -
  have "validateLimits (applyLimitDefaults (cf_limits sample_config)) = Inr ()"
    by (simp add: validateLimits_def outside_def applyLimitDefaults_def default_to_def
        sample_config_def minute_def second_def)
  then have "Validate sample_config = Inr booted_config"
    using sample_repository_valid
    by (simp add: Validate_def SchemaVersion_def maxRepositories_def sample_config_def booted_config_def)
  then show ?thesis by (simp add: Load_def Parse_def sample_fs_def sample_info_def)
qed

lemma sample_version: "exec_run probe_request version_process =
    (Some \<lparr>rr_stdout = version_doc, rr_stderr = redactChildStderr [] (rq_env probe_request), rr_exit_code = 0, rr_duration = 5\<rparr>, None)"
  using version_allowed
  by (simp add: exec_run_def probe_request_def version_process_def sample_process_def output_limit_def
      capped_writes_def new_capped_def capped_write_def version_doc_def reap_def Let_def)

lemma parse_version_doc: "\<exists>vi. ParseVersion version_doc = Inr vi \<and> vi_version vi = ''0.18.0''"
proof -
  have trim: "trim_space version_doc = version_doc"
    by (simp add: version_doc_def trim_space_def rune_chunks_ascii byte_def is_space_def)
  have json: "json_unmarshal version_doc = Some (JObj [(''version'', JStr ''0.18.0'')])"
    by (simp add: json_unmarshal_def scan_simps version_doc_def)
  have "SanitizeString ''0.18.0'' = ''0.18.0''" by (simp add: sanitize_simps)
  moreover have "version_doc \<noteq> []" by (simp add: version_doc_def)
  ultimately show ?thesis
    unfolding ParseVersion_def trim Let_def json
    by (simp add: version_field_def dec_simps unquote.simps unquote_head_def)
qed

lemma version_supported: "CompareVersion ''0.18.0'' MinResticVersion = 1"
  by (simp add: CompareVersion_def parseVer_def MinResticVersion_def component_val_def is_digit_def
      digit_val_def byte_in_def byte_def wrap64_def)

lemma sample_serves: "\<exists>ws d. run sample_host ''0.1.0-dev'' serve_flags = Serving ws d"
proof -
  obtain r where r: "NewRegistry sample_fs booted_config = Inr r" using sample_registry by blast
  obtain vi where vi: "ParseVersion version_doc = Inr vi" "vi_version vi = ''0.18.0''"
    using parse_version_doc by blast
  have bin: "cf_restic_binary booted_config = []"
    by (simp add: booted_config_def sample_config_def)
  show ?thesis
    by (simp add: run_def serve_flags_def start_server_def sample_host_def sample_load NewExecRunner_def
        resolveBinary_def bin probeResticVersion_def sample_version vi version_supported r Let_def)
qed

theorem serving_checked_witness:
  "\<exists>ws d. run sample_host ''0.1.0-dev'' serve_flags = Serving ws d \<and>
     registry_ids (dp_registry d) = [''home'']"
proof -
  obtain ws d where run: "run sample_host ''0.1.0-dev'' serve_flags = Serving ws d"
    using sample_serves by blast
  from serving_checked [OF run] obtain cfg where
    cfg: "Load (ho_yaml_first sample_host) (ho_yaml_second sample_host) (ho_files sample_host) (fl_config serve_flags) = Inr cfg"
    "registry_ids (dp_registry d) = map rp_id (cf_repositories cfg)" by blast
  then have "cfg = booted_config" by (simp add: sample_host_def serve_flags_def sample_load)
  with cfg run show ?thesis by (auto simp: booted_config_def sample_repository_def)
qed

text \<open>A machine whose restic would answer any other command differently.\<close>

definition fussy_child :: "string \<Rightarrow> run_request \<Rightarrow> process" where
  "fussy_child path req = (if req = probe_request then version_process else sample_process)"

theorem start_only_probes_witness:
  "fussy_child [] version_request \<noteq> ho_child sample_host [] version_request \<and>
   run (sample_host\<lparr>ho_child := fussy_child\<rparr>) ''0.1.0-dev'' serve_flags = run sample_host ''0.1.0-dev'' serve_flags"
proof
  show "fussy_child [] version_request \<noteq> ho_child sample_host [] version_request"
    by (simp add: fussy_child_def version_request_def probe_request_def sample_host_def
        version_process_def sample_process_def version_doc_def)
  show "run (sample_host\<lparr>ho_child := fussy_child\<rparr>) ''0.1.0-dev'' serve_flags = run sample_host ''0.1.0-dev'' serve_flags"
    by (rule start_only_probes) (simp add: same_probes_def serve_flags_def fussy_child_def sample_host_def)
qed

end
