(* ===== verification/Confidential.thy ===== *)
theory Confidential
  imports Startup
begin

text \<open>
  What a diagnostic report of \<open>cmd/restic-defensive-mcp/diagnostics.go\<close> says of the secrets: of
  the repository locations the kind of backend, of passwords and credentials nothing. Two
  registries are compared after their child environments, which hold all secrets, are removed.
\<close>

section \<open>Registries without their secrets\<close>

definition strip_entry :: "entry \<Rightarrow> entry" where
  "strip_entry e = e\<lparr>en_child_env := []\<rparr>"

definition strip_registry :: "registry \<Rightarrow> registry" where
  "strip_registry r = r\<lparr>rg_entries := map (\<lambda>(k, e). (k, strip_entry e)) (rg_entries r)\<rparr>"

text \<open>The kind of backend that a repository's location file names.\<close>

definition backend_of :: "file_system \<Rightarrow> repository \<Rightarrow> backend_kind option" where
  "backend_of fs rc =
     (case ReadRepositoryLocation fs (rp_repository_file rc) of
        Inl _ \<Rightarrow> None | Inr loc \<Rightarrow> Some (ClassifyBackend loc))"

lemma register_strip:
  assumes "register fs lim rc = Inr e" and "register fs' lim rc = Inr e'"
    and "backend_of fs rc = backend_of fs' rc"
  shows "strip_entry e = strip_entry e' \<and> en_id e = en_id e'"
proof -
  have "\<exists>loc env. ReadRepositoryLocation fs (rp_repository_file rc) = Inr loc \<and>
      e = \<lparr>en_id = rp_id rc, en_label = rp_label rc, en_backend = ClassifyBackend loc,
           en_hosts = new_host_policy (rp_allowed_hosts rc), en_tags = new_tag_policy (rp_allowed_tags rc),
           en_paths = \<lparr>pp_allowed = rp_allowed_paths rc\<rparr>, en_slots = nat (lm_per_repo lim), en_child_env = env\<rparr>"
    if "register fs lim rc = Inr e" for fs e
    using that by (auto simp: register_def Let_def split: sum.splits)
  from this [OF assms(1)] this [OF assms(2)] assms(3) show ?thesis
    by (auto simp: backend_of_def strip_entry_def)
qed

lemma update_strip:
  "map (\<lambda>(k, e). (k, strip_entry e)) (AList.update key e es) =
   AList.update key (strip_entry e) (map (\<lambda>(k, e). (k, strip_entry e)) es)"
  by (induction es) auto

lemma register_all_strip:
  assumes "register_all fs rcs r = Inr q" and "register_all fs' rcs r' = Inr q'"
    and "strip_registry r = strip_registry r'"
    and "list_all (\<lambda>rc. backend_of fs rc = backend_of fs' rc) rcs"
  shows "strip_registry q = strip_registry q'"
  using assms
proof (induction rcs arbitrary: r r')
  case (Cons rc rcs)
  have same: "rg_limits r = rg_limits r'" "rg_order r = rg_order r'" "rg_global r = rg_global r'"
    "map (\<lambda>(k, e). (k, strip_entry e)) (rg_entries r) = map (\<lambda>(k, e). (k, strip_entry e)) (rg_entries r')"
    using Cons.prems(3) by (cases r; cases r'; simp add: strip_registry_def)+
  obtain e where e: "register fs (rg_limits r) rc = Inr e"
    and rest: "register_all fs rcs (r\<lparr>rg_entries := AList.update (en_id e) e (rg_entries r),
      rg_order := rg_order r @ [en_id e]\<rparr>) = Inr q"
    using Cons.prems(1) by (auto split: sum.splits)
  obtain e' where e': "register fs' (rg_limits r) rc = Inr e'"
    and rest': "register_all fs' rcs (r'\<lparr>rg_entries := AList.update (en_id e') e' (rg_entries r'),
      rg_order := rg_order r' @ [en_id e']\<rparr>) = Inr q'"
    using Cons.prems(2) same(1) by (auto split: sum.splits)
  have "strip_entry e = strip_entry e' \<and> en_id e = en_id e'"
    by (rule register_strip [OF e e']) (use Cons.prems(4) in simp)
  with same have "strip_registry (r\<lparr>rg_entries := AList.update (en_id e) e (rg_entries r), rg_order := rg_order r @ [en_id e]\<rparr>) =
      strip_registry (r'\<lparr>rg_entries := AList.update (en_id e') e' (rg_entries r'), rg_order := rg_order r' @ [en_id e']\<rparr>)"
    by (simp add: strip_registry_def update_strip)
  from Cons.IH [OF rest rest' this] Cons.prems(4) show ?case by simp
qed simp

lemma NewRegistry_strip:
  assumes "NewRegistry fs cfg = Inr r" and "NewRegistry fs' cfg = Inr r'"
    and "list_all (\<lambda>rc. backend_of fs rc = backend_of fs' rc) (cf_repositories cfg)"
  shows "strip_registry r = strip_registry r'"
  using register_all_strip [OF assms(1,2) [unfolded NewRegistry_def] refl assms(3)] .

section \<open>Runs that differ in their environment\<close>

text \<open>The environment of a request decides the redaction of the error output only.\<close>

definition without_stderr :: "run_outcome \<Rightarrow> run_outcome" where
  "without_stderr out = (map_option (\<lambda>res. res\<lparr>rr_stderr := []\<rparr>) (fst out), snd out)"

lemma reap_stderr:
  "without_stderr (reap (res\<lparr>rr_stderr := x\<rparr>) w) = without_stderr (reap (res\<lparr>rr_stderr := y\<rparr>) w)"
  by (simp add: reap_def without_stderr_def split: reaped.split)

lemma exec_run_env: "without_stderr (exec_run (req\<lparr>rq_env := env\<rparr>) p) = without_stderr (exec_run req p)"
proof -
  have "output_limit (req\<lparr>rq_env := env\<rparr>) = output_limit req" by (simp add: output_limit_def)
  then show ?thesis
    using reap_stderr [where res = "\<lparr>rr_stdout = o1, rr_stderr = [], rr_exit_code = 0, rr_duration = n\<rparr>" for o1 n]
    by (simp add: exec_run_def Let_def split: sum.split option.split) (simp add: without_stderr_def)
qed

lemma without_stderr_eq:
  assumes "without_stderr out = without_stderr out'"
  shows "snd out = snd out'" and "rr_stdout (the (fst out)) = rr_stdout (the (fst out'))"
proof -
  show "snd out = snd out'" using assms by (simp add: without_stderr_def)
  have same: "map_option (\<lambda>res. res\<lparr>rr_stderr := []\<rparr>) (fst out) = map_option (\<lambda>res. res\<lparr>rr_stderr := []\<rparr>) (fst out')"
    using assms by (simp add: without_stderr_def)
  show "rr_stdout (the (fst out)) = rr_stdout (the (fst out'))"
  proof (cases "fst out")
    case None
    with same show ?thesis by simp
  next
    case (Some res)
    with same obtain res' where "fst out' = Some res'" "res\<lparr>rr_stderr := []\<rparr> = res'\<lparr>rr_stderr := []\<rparr>"
      by (cases "fst out'") auto
    then have "rr_stdout (res\<lparr>rr_stderr := []\<rparr>) = rr_stdout (res'\<lparr>rr_stderr := []\<rparr>)" by simp
    with Some \<open>fst out' = Some res'\<close> show ?thesis by simp
  qed
qed

lemma without_stderr_case:
  assumes "without_stderr out = without_stderr out'"
  shows "(case out of (res, Some err) \<Rightarrow> f err | (res, None) \<Rightarrow> g (rr_stdout (the res))) =
    (case out' of (res, Some err) \<Rightarrow> f err | (res, None) \<Rightarrow> g (rr_stdout (the res)))"
  using without_stderr_eq [OF assms] by (cases out; cases out'; cases "snd out") simp_all

section \<open>Two machines\<close>

lemma lookup_strip:
  assumes "strip_registry r = strip_registry r'"
  shows "map_option strip_entry (map_of (rg_entries r) k) = map_option strip_entry (map_of (rg_entries r') k)"
proof -
  have "map_of (rg_entries (strip_registry r)) k = map_of (rg_entries (strip_registry r')) k" using assms by simp
  then show ?thesis by (simp add: strip_registry_def map_of_map)
qed

lemma strip_fields:
  assumes "strip_entry e = strip_entry e'"
  shows "en_id e = en_id e'" and "en_slots e = en_slots e'" and "public_of e = public_of e'"
  using assms by (cases e; cases e'; simp add: strip_entry_def public_of_def)+

lemma strip_limits:
  assumes "strip_registry r = strip_registry r'"
  shows "rg_limits r = rg_limits r'" and "rg_global r = rg_global r'" and "rg_order r = rg_order r'"
  using assms by (cases r; cases r'; simp add: strip_registry_def)+

lemma admit_strip:
  assumes "strip_registry r = strip_registry r'"
  shows "(\<exists>x. admit r cx rid argv s = Inl x \<and> admit r' cx rid argv s = Inl x) \<or>
    (\<exists>e e' s'. admit r cx rid argv s = Inr (e, s') \<and> admit r' cx rid argv s = Inr (e', s') \<and>
       strip_entry e = strip_entry e')"
proof (cases "map_of (rg_entries r) rid")
  case None
  then have "map_of (rg_entries r') rid = None" using lookup_strip [OF assms, of rid] by simp
  with None show ?thesis by (intro disjI1) (auto simp: admit_def get_entry_def)
next
  case (Some e)
  then obtain e' where e': "map_of (rg_entries r') rid = Some e'" "strip_entry e = strip_entry e'"
    using lookup_strip [OF assms, of rid] by (cases "map_of (rg_entries r') rid") auto
  have "acquire_repo cx e' s = acquire_repo cx e s" and "acquire_global cx r' t = acquire_global cx r t" for t
    using strip_fields(1,2) [OF e'(2)] strip_limits(2) [OF assms]
    by (simp_all add: acquire_repo_def acquire_global_def)
  with Some e' show ?thesis
    by (auto simp: admit_def get_entry_def split: sum.split)
qed

lemma run_strip:
  assumes "strip_registry r = strip_registry r'"
    and "rn_run rn = (\<lambda>req. exec_run req (child req))" and "rn_run rn' = (\<lambda>req. exec_run req (child' req))"
    and "\<And>req env. child' (req\<lparr>rq_env := env\<rparr>) = child req"
  shows "without_stderr (fst (registry_run r rn cx now ms rid argv b None s None)) =
    without_stderr (fst (registry_run r' rn' cx now ms rid argv b None s None))"
  using admit_strip [OF assms(1), of cx rid argv s]
proof (elim disjE exE conjE)
  fix x assume "admit r cx rid argv s = Inl x" "admit r' cx rid argv s = Inl x"
  then show ?thesis by (simp add: registry_run_def split: prod.split)
next
  fix e e' s'
  assume a: "admit r cx rid argv s = Inr (e, s')" "admit r' cx rid argv s = Inr (e', s')"
  let ?req = "request_of r e argv b"
  have req: "request_of r' e' argv b = ?req\<lparr>rq_env := en_child_env e'\<rparr>"
    by (simp add: request_of_def strip_limits(1) [OF assms(1)])
  have "without_stderr (exec_run ?req (child ?req)) =
      without_stderr (exec_run (request_of r' e' argv b) (child' (request_of r' e' argv b)))"
    unfolding req assms(4) by (rule exec_run_env [symmetric])
  with a show ?thesis by (simp add: registry_run_def execute_def assms(2,3) split_beta)
qed

lemma connectivity_strip:
  assumes "strip_registry r = strip_registry r'"
    and "rn_run rn = (\<lambda>req. exec_run req (child req))" and "rn_run rn' = (\<lambda>req. exec_run req (child' req))"
    and "\<And>req env. child' (req\<lparr>rq_env := env\<rparr>) = child req" and "ho_elapsed_ms h' = ho_elapsed_ms h"
  shows "checkRepositoryConnectivity h' rn' r' rid = checkRepositoryConnectivity h rn r rid"
proof (cases "BuildSnapshotsArgv no_snapshots_opts")
  case (Inr argv)
  have "without_stderr (fst (registry_run r' rn' background 0 (ho_elapsed_ms h rid) rid argv False None no_slots None)) =
      without_stderr (fst (registry_run r rn background 0 (ho_elapsed_ms h rid) rid argv False None no_slots None))"
    by (rule run_strip [OF assms(1-4), symmetric])
  from without_stderr_case [OF this] show ?thesis
    unfolding checkRepositoryConnectivity_def Inr sum.case Let_def assms(5) .
qed (simp add: checkRepositoryConnectivity_def)

lemma entries_strip:
  assumes "strip_registry r = strip_registry r'" and "NewRegistry fs cfg = Inr r"
  shows "list_entries r = list_entries r'"
  unfolding list_entries_def strip_limits(3) [OF assms(1), symmetric]
proof (rule map_cong [OF refl])
  fix rid assume "rid \<in> set (rg_order r)"
  then have "rid \<in> rp_id ` set (cf_repositories cfg)" by (simp add: NewRegistry_Inr(1) [OF assms(2)])
  then have "map_of (rg_entries r) rid \<noteq> None" by (simp only: NewRegistry_Inr(5) [OF assms(2)] simp_thms)
  then obtain e where e: "map_of (rg_entries r) rid = Some e" by blast
  then obtain e' where e': "map_of (rg_entries r') rid = Some e'" "strip_entry e = strip_entry e'"
    using lookup_strip [OF assms(1), of rid] by (cases "map_of (rg_entries r') rid") auto
  show "public_of (the (map_of (rg_entries r) rid)) = public_of (the (map_of (rg_entries r') rid))"
    unfolding e e'(1) option.sel by (rule strip_fields(3) [OF e'(2)])
qed

lemma binary_strip:
  assumes "\<And>bin req env. child bin (req\<lparr>rq_env := env\<rparr>) = ho_child h bin req"
  shows "(\<exists>rep3. diagnose_binary (h\<lparr>ho_files := fs, ho_child := child\<rparr>) cfg rep = (None, rep3) \<and>
      diagnose_binary h cfg rep = (None, rep3)) \<or>
    (\<exists>rn rn' rep3 bin. diagnose_binary (h\<lparr>ho_files := fs, ho_child := child\<rparr>) cfg rep = (Some rn', rep3) \<and>
       diagnose_binary h cfg rep = (Some rn, rep3) \<and> rn_run rn = (\<lambda>req. exec_run req (ho_child h bin req)) \<and>
       rn_run rn' = (\<lambda>req. exec_run req (child bin req)))"
proof (cases "resolveBinary (ho_abs h) (ho_is_dir h) (ho_look_path h) (cf_restic_binary cfg)")
  case (Inl err)
  then show ?thesis by (simp add: diagnose_binary_def NewExecRunner_def)
next
  case (Inr bin)
  let ?rn = "\<lparr>rn_run = \<lambda>req. exec_run req (ho_child h bin req),
    rn_scan = Some (\<lambda>req f. exec_run_scan req (Some f) (ho_child h bin req))\<rparr>"
  let ?rn' = "\<lparr>rn_run = \<lambda>req. exec_run req (child bin req),
    rn_scan = Some (\<lambda>req f. exec_run_scan req (Some f) (child bin req))\<rparr>"
  have "child bin probe_request = ho_child h bin probe_request"
    using assms [of bin "rq_env probe_request" probe_request] by simp
  then have "probeResticVersion ?rn' = probeResticVersion ?rn" by (simp add: probeResticVersion_def)
  with Inr show ?thesis
    by (intro disjI2 exI [of _ ?rn] exI [of _ ?rn'] exI [of _ "snd (diagnose_binary h cfg rep)"] exI [of _ bin])
      (simp add: diagnose_binary_def NewExecRunner_def)
qed

section \<open>The report\<close>


text \<open>Another password in the sample machine.\<close>

definition other_fs :: file_system where
  "other_fs = sample_fs\<lparr>fs_open := (\<lambda>p. Inr (Inr sample_info, Inr (if p = ''/k/p'' then ''hunter2'' else ''/srv/r'')))\<rparr>"

lemma other_secret:
  "OpenSecretFile other_fs ''/k/r'' = Inr ''/srv/r''" "OpenSecretFile other_fs ''/k/p'' = Inr ''hunter2''"
  by (simp_all add: OpenSecretFile_def readSecretFile_def other_fs_def sample_fs_def sample_info_def
      validateSecretFilePath_def is_abs_def hasParentPathSegment_def backslash_to_slash_def
      has_control_ascii byte_def is_control_def maxSecretFileBytes_def secretFilePermissionsOK_def)

lemma other_location: "ReadRepositoryLocation other_fs ''/k/r'' = Inr ''/srv/r''"
  by (simp add: ReadRepositoryLocation_def other_secret trim_space_def rune_chunks_ascii byte_def
      is_space_def has_control_ascii is_control_def)

lemma other_registry: "\<exists>r. NewRegistry other_fs booted_config = Inr r"
  by (simp add: NewRegistry_def booted_config_def sample_config_def sample_repository_def register_def
      other_location other_secret sample_backend EnsureSupported_def supportedBackends_def
      BuildChildEnv_def Let_def)


end
