(* ===== verification/Keeper.thy ===== *)
theory Keeper
  imports Server
begin

text \<open>
  The interface through which a handler reaches the rest of the system, as a contract: an
  invariant that the three services keep, for the requests the handlers make, every tool call
  keeps.
\<close>

section \<open>Steps that leave the rest of the system alone\<close>

lemma rest_same:
  "wo_rest (snd (failTool t tool rid err w)) = wo_rest w"
  "wo_rest (snd (redeem_cursor t token tool rid w)) = wo_rest w"
  "redeem_cursor t token tool rid w = (r, w') \<Longrightarrow> wo_rest w' = wo_rest w"
  "issue_cursor t state w = (r', w') \<Longrightarrow> wo_rest w' = wo_rest w"
  by (auto simp: failTool_def redeem_cursor_def issue_cursor_def split: prod.splits)

lemma answer_rest:
  "wo_rest (snd (answer_page d t rid sc truncated needed obs out w)) = wo_rest w"
  "wo_rest (snd (browse_answer d t rid st br w)) = wo_rest w"
  "wo_rest (snd (find_answer d t rid st fr w)) = wo_rest w"
  by (auto simp: answer_page_def browse_answer_def find_answer_def Let_def
      dest: rest_same(4) split: prod.split sum.split)

section \<open>The contract\<close>

locale keeper =
  fixes d :: deps and sv :: "'s services" and P :: "'s \<Rightarrow> bool"
  assumes metadata_keeps: "registered d rid \<Longrightarrow> take 2 argv = [CmdSnapshots, ''--json''] \<Longrightarrow>
      P s \<Longrightarrow> P (snd (sv_metadata sv rid argv s))"
    and run_keeps: "registered d rid \<Longrightarrow> take 2 argv = [CmdStats, ''--json''] \<Longrightarrow>
      AssertArgvAllowed argv = Inr () \<Longrightarrow> P s \<Longrightarrow> P (snd (sv_run sv rid argv s))"
    and scan_keeps: "registered d rid \<Longrightarrow> take 2 argv \<in> {[CmdLS, ''--json''], [CmdFind, ''--json'']} \<Longrightarrow>
      AssertArgvAllowed argv = Inr () \<Longrightarrow> P s \<Longrightarrow> P (snd (sv_scan sv rid argv s))"
begin

lemma fetch_keeps:
  assumes "registered d rid" and "P s" and "fetch_snapshots (sv_metadata sv) rid bad opts s = (r, s')"
  shows "P s'"
proof (cases "BuildSnapshotsArgv opts")
  case (Inr argv)
  from metadata_keeps [OF assms(1) BuildSnapshotsArgv_head [OF Inr] assms(2)] show ?thesis
    using assms(3) by (auto simp: fetch_snapshots_def Inr split: prod.splits sum.splits)
qed (use assms in \<open>auto simp: fetch_snapshots_def\<close>)

lemma visible_keeps:
  assumes "registered d rid" and "P s"
    and "visibleSnapshots (sv_metadata sv) e rid selector host tags path window s = (r, s')"
  shows "P s'"
  using assms(2,3) fetch_keeps [OF assms(1,2)]
  by (auto simp: visibleSnapshots_def split: prod.splits sum.splits if_splits)

lemma resolve_keeps:
  assumes "registered d rid" and "P s"
    and "resolveVisibleSnapshot (sv_metadata sv) e rid selector host tags path window s = (r, s')"
  shows "P s'"
  using assms(2,3) visible_keeps [OF assms(1,2)]
  by (auto simp: resolveVisibleSnapshot_def split: prod.splits sum.splits if_splits)

lemma by_ids_keeps:
  assumes "registered d rid" and "P s" and "snapshotsByIDs (sv_metadata sv) e rid ids s = (r, s')"
  shows "P s'"
  using assms(2,3) fetch_keeps [OF assms(1,2)]
  by (auto simp: snapshotsByIDs_def split: prod.splits sum.splits if_splits)

lemma run_scan_keeps:
  assumes "registered d rid" and "take 2 argv \<in> {[CmdLS, ''--json''], [CmdFind, ''--json'']}"
    and "AssertArgvAllowed argv = Inr ()" and "P s" and "run_scan sv rid argv scanner stats s = (r, s')"
  shows "P s'"
  using assms(5) scan_keeps [OF assms(1-4)]
  by (auto simp: run_scan_def split: prod.splits sum.splits option.splits)

lemma browse_nodes_keep:
  assumes "registered d rid" and "P s"
    and "browseVisibleNodes d sv e rid sid path recursive skip limit s = (r, s')"
  shows "P s'"
proof (cases "BuildLSArgv \<lparr>lo_snapshot = sid, lo_dirs = [path], lo_recursive = recursive\<rparr>")
  case (Inr argv)
  have head: "take 2 argv \<in> {[CmdLS, ''--json''], [CmdFind, ''--json'']}" using BuildLSArgv_head [OF Inr] by simp
  have ok: "AssertArgvAllowed argv = Inr ()" using built_argv Inr by blast
  from run_scan_keeps [OF assms(1) head ok assms(2)] show ?thesis
    using assms(3) by (auto simp: browseVisibleNodes_def Inr split: prod.splits sum.splits)
qed (use assms in \<open>auto simp: browseVisibleNodes_def\<close>)

lemma find_groups_keep:
  assumes "registered d rid" and "P s" and "findVisibleGroups d sv e rid snaps st limit s = (r, s')"
  shows "P s'"
proof (cases "BuildFindArgv \<lparr>fo_pattern = cs_pattern st, fo_ids = cs_snapshot_ids st, fo_ignore_case = cs_ignore_case st\<rparr>")
  case (Inr argv)
  have head: "take 2 argv \<in> {[CmdLS, ''--json''], [CmdFind, ''--json'']}" using BuildFindArgv_head [OF Inr] by simp
  have ok: "AssertArgvAllowed argv = Inr ()" using built_argv Inr by blast
  from run_scan_keeps [OF assms(1) head ok assms(2)] show ?thesis
    using assms(3) by (auto simp: findVisibleGroups_def Inr split: prod.splits sum.splits)
qed (use assms in \<open>auto simp: findVisibleGroups_def\<close>)

text \<open>The handlers, one by one.\<close>

lemma list_keeps:
  assumes "P (wo_rest w)"
  shows "P (wo_rest (snd (makeListSnapshots d sv pd t inp w)))"
proof (cases "requireRepo d (li_repository inp)")
  case (Inr e)
  note reg = requireRepo_registered [OF Inr]
  have first: "P (wo_rest (snd (list_first d sv t inp e limit window groupBy cadence w)))"
    for limit window groupBy cadence
  proof (cases "selection_opts e [] (li_host inp) (li_tags inp) (li_path inp)")
    case (Inl err)
    then show ?thesis using assms by (simp add: list_first_def Let_def rest_same)
  next
    case sel: (Inr p)
    show ?thesis
    proof (cases "BuildSnapshotsArgv (fst p)")
      case (Inl err)
      then show ?thesis using assms
        unfolding list_first_def Let_def sel by (simp add: rest_same split_beta)
    next
      case argv: (Inr argv)
      obtain r s where f: "fetch_snapshots (sv_metadata sv) (li_repository inp) bad_filter (fst p) (wo_rest w) = (r, s)"
        by fastforce
      have "P s" by (rule fetch_keeps [OF reg assms f])
      then show ?thesis
        unfolding list_first_def Let_def sel sum.case split_beta argv f fst_conv snd_conv
        by (cases r) (simp_all add: answer_rest split_beta)
    qed
  qed
  have continue: "P (wo_rest (snd (list_continue d sv t inp e limit w)))" for limit
  proof -
    have "listSnapshotsForCursor (sv_metadata sv) e (li_repository inp) st limit (wo_rest w) = (r, s') \<Longrightarrow> P s'"
      for st r s'
      using assms fetch_keeps [OF reg assms]
      by (auto simp: listSnapshotsForCursor_def split: sum.splits prod.splits)
    then show ?thesis using assms
      by (auto simp: list_continue_def Let_def rest_same answer_rest dest: rest_same(3)
          split: sum.split prod.split)
  qed
  show ?thesis
    using assms first continue
    by (simp add: makeListSnapshots_def Inr Let_def rest_same split: sum.split)
qed (use assms in \<open>simp add: makeListSnapshots_def Let_def rest_same\<close>)

lemma get_keeps:
  assumes "P (wo_rest w)"
  shows "P (wo_rest (snd (makeGetSnapshot d sv t inp w)))"
proof (cases "requireRepo d (gi_repository inp)")
  case (Inr e)
  show ?thesis
    using assms resolve_keeps [OF requireRepo_registered [OF Inr] assms]
    by (auto simp: makeGetSnapshot_def Inr Let_def rest_same split: sum.split prod.split)
qed (use assms in \<open>simp add: makeGetSnapshot_def Let_def rest_same\<close>)

lemma browse_keeps:
  assumes "P (wo_rest w)"
  shows "P (wo_rest (snd (makeBrowseSnapshot d sv t inp w)))"
proof (cases "requireRepo d (bi_repository inp)")
  case (Inr e)
  note reg = requireRepo_registered [OF Inr]
  have first: "first_browse_state sv e inp window (wo_rest w) = (r, s') \<Longrightarrow> P s'" for window r s'
    using assms resolve_keeps [OF reg assms]
    by (auto simp: first_browse_state_def split: sum.splits prod.splits if_splits)
  have state: "P (wo_rest (snd (browse_state sv t e inp window w)))" for window
    using assms first [of window] by (auto simp: browse_state_def rest_same(2) dest: rest_same(3) split: prod.split)
  have page: "P (wo_rest (snd (browse_page d sv t e (bi_repository inp) limit st w1)))"
    if "P (wo_rest w1)" for w1 limit st
  proof -
    obtain r s where ids: "snapshotsByIDs (sv_metadata sv) e (bi_repository inp) (cs_snapshot_ids st) (wo_rest w1) = (r, s)"
      by fastforce
    have s: "P s" by (rule by_ids_keeps [OF reg that ids])
    show ?thesis
    proof (cases r)
      case (Inl err)
      with s show ?thesis by (simp add: browse_page_def ids rest_same)
    next
      case (Inr snaps)
      show ?thesis
      proof (cases snaps)
        case Nil
        with s show ?thesis by (simp add: browse_page_def ids Inr)
      next
        case (Cons snap more)
        obtain r' s' where nodes: "browseVisibleNodes d sv e (bi_repository inp) (sn_id snap) (cs_path st)
            (cs_recursive st) (cs_offset st) limit s = (r', s')" by fastforce
        have "P s'" by (rule browse_nodes_keep [OF reg s nodes])
        with s show ?thesis
          unfolding browse_page_def ids Inr Cons prod.case sum.case list.case nodes
          by (cases "check_path (en_paths e) (cs_path st)"; cases r') (simp_all add: rest_same answer_rest)
      qed
    qed
  qed
  have go: "P (wo_rest (snd (case browse_state sv t e inp window w of
      (Inl err, w1) \<Rightarrow> failTool t browse_tool (bi_repository inp) err w1
    | (Inr st, w1) \<Rightarrow> browse_page d sv t e (bi_repository inp) limit st w1)))" for window limit
  proof -
    obtain r w1 where "browse_state sv t e inp window w = (r, w1)" by fastforce
    moreover from this have "P (wo_rest w1)" using state [of window] by simp
    ultimately show ?thesis by (cases r) (simp_all add: rest_same page)
  qed
  show ?thesis
    unfolding makeBrowseSnapshot_def Let_def Inr sum.case
    by (cases "parseTimeWindow (bi_after inp) (bi_before inp)") (simp_all add: rest_same assms go)
qed (use assms in \<open>simp add: makeBrowseSnapshot_def Let_def rest_same\<close>)

lemma find_keeps:
  assumes "P (wo_rest w)"
  shows "P (wo_rest (snd (makeFindFiles d sv t inp w)))"
proof (cases "requireRepo d (fn_repository inp)")
  case (Inr e)
  note reg = requireRepo_registered [OF Inr]
  have selection: "find_selection d sv e inp scope window (wo_rest w) = (r, s') \<Longrightarrow> P s'" for scope window r s'
    using assms resolve_keeps [OF reg assms] visible_keeps [OF reg assms]
    by (auto simp: find_selection_def split: sum.splits prod.splits if_splits)
  have first: "first_find_state d sv e inp (wo_rest w) = (r, s') \<Longrightarrow> P s'" for r s'
    using assms selection by (auto simp: first_find_state_def split: sum.splits prod.splits if_splits)
  have state: "P (wo_rest (snd (find_state_of d sv t e inp w)))"
    using assms first by_ids_keeps [OF reg assms]
    by (auto simp: find_state_of_def dest: rest_same(3) split: prod.split sum.split)
  show ?thesis
    using assms state find_groups_keep [OF reg]
    by (simp add: makeFindFiles_def Inr Let_def rest_same answer_rest split: sum.split prod.split list.split)
      (metis snd_conv)
qed (use assms in \<open>simp add: makeFindFiles_def Let_def rest_same\<close>)

lemma stats_keeps:
  assumes "P (wo_rest w)"
  shows "P (wo_rest (snd (makeRepositoryStats d sv t inp w)))"
proof (cases "requireRepo d (si_repository inp)")
  case (Inr e)
  note reg = requireRepo_registered [OF Inr]
  have selection: "stats_selection sv e inp window (wo_rest w) = (r, s') \<Longrightarrow> P s'" for window r s'
    using assms resolve_keeps [OF reg assms] visible_keeps [OF reg assms]
    by (auto simp: stats_selection_def split: sum.splits prod.splits if_splits)
  have run: "P (wo_rest w1) \<Longrightarrow>
      P (wo_rest (snd (run_stats d sv t (si_repository inp) mode window eligible excluded w1)))"
    for w1 mode window eligible excluded
  proof (cases "BuildStatsArgv \<lparr>sto_mode = mode, sto_ids = map sn_id eligible\<rparr>")
    case (Inr argv)
    assume "P (wo_rest w1)"
    moreover have "AssertArgvAllowed argv = Inr ()" using built_argv Inr by blast
    ultimately have "P (snd (sv_run sv (si_repository inp) argv (wo_rest w1)))"
      by (intro run_keeps reg BuildStatsArgv_head [OF Inr])
    then show ?thesis by (auto simp: run_stats_def Inr split: sum.split prod.split)
  qed (simp add: run_stats_def rest_same)
  have go: "P (wo_rest (snd (case stats_selection sv e inp window (wo_rest w) of
      (Inl err, s) \<Rightarrow> failTool t ''repository_stats'' (si_repository inp) err (w\<lparr>wo_rest := s\<rparr>)
    | (Inr snaps, s) \<Rightarrow>
        (case stats_eligible e mx snaps of
           Inl err \<Rightarrow> failTool t ''repository_stats'' (si_repository inp) err (w\<lparr>wo_rest := s\<rparr>)
         | Inr (eligible, excluded) \<Rightarrow>
             run_stats d sv t (si_repository inp) mode window eligible excluded (w\<lparr>wo_rest := s\<rparr>)))))"
    for window mx mode
  proof -
    obtain r s where sel: "stats_selection sv e inp window (wo_rest w) = (r, s)" by fastforce
    then have "P s" by (rule selection)
    then show ?thesis unfolding sel
      by (cases r) (simp_all add: rest_same run split: sum.split prod.split)
  qed
  show ?thesis
    unfolding makeRepositoryStats_def Let_def Inr sum.case
    by (cases "parseTimeWindow (si_after inp) (si_before inp)";
        cases "if si_snapshot inp = ''latest''
                then validateLatestScope e (si_host inp) (si_tags inp) (si_path inp) else Inr ()")
      (simp_all add: rest_same assms go)
qed (use assms in \<open>simp add: makeRepositoryStats_def Let_def rest_same\<close>)

lemma call_keeps: "P (wo_rest w) \<Longrightarrow> P (wo_rest (snd (call_tool d sv pd t c w)))"
  using list_keeps get_keeps browse_keeps find_keeps stats_keeps
  by (cases c) (simp_all add: makeCapabilities_def makeListRepositories_def)

end

end
