(* ===== verification/Operation.thy ===== *)
theory Operation
  imports Keeper Startup
begin

text \<open>
  The server in operation: the services of the handlers implemented by the registry, the
  metadata coalescer and the exec runner, under a server that \<open>main\<close> started. What the machine
  answers while one service runs is a \<open>turn\<close>; the turns are an argument, so nothing is assumed
  of them. The registry's lines of the audit trail are left out here (see \<open>Registry\<close>).
\<close>

section \<open>Turns and the state\<close>

text \<open>
  The caller's context and the context shared by the callers of one metadata run, the clock
  readings of the coalescer, whether the caller gave up waiting, the slots that other calls
  hold, the child process, and how a run led by another caller ended.
\<close>

record turn =
  tu_context :: context_view
  tu_shared :: context_view
  tu_now :: int
  tu_seen :: int
  tu_finished :: int
  tu_observed :: int
  tu_gave_up :: bool
  tu_slots :: slots
  tu_child :: process
  tu_other :: run_outcome

text \<open>\<open>sy_requests\<close> lists every request handed to the runner so far.\<close>

record system =
  sy_turn :: nat
  sy_meta :: coalescer
  sy_requests :: "run_request list"

definition boot_system :: "registry \<Rightarrow> system" where
  "boot_system r =
     \<lparr>sy_turn = 0, sy_meta = newMetadataCoalescer (lm_cache_ttl (rg_limits r)) (lm_cache_entries (rg_limits r)),
      sy_requests = []\<rparr>"

definition advance :: "run_request list \<Rightarrow> system \<Rightarrow> system" where
  "advance reqs sy = sy\<lparr>sy_turn := sy_turn sy + 1, sy_requests := sy_requests sy @ reqs\<rparr>"

section \<open>The services\<close>

text \<open>A buffered run: its outcome, and the request it handed to the runner, if any.\<close>

definition buffered_run ::
    "registry \<Rightarrow> turn \<Rightarrow> context_view \<Rightarrow> string \<Rightarrow> string list \<Rightarrow> bool \<Rightarrow> run_outcome \<times> run_request list" where
  "buffered_run r t cx rid argv expensive =
     (case admit r cx rid argv (tu_slots t) of
        Inl (err, _) \<Rightarrow> ((None, Some err), [])
      | Inr (e, _) \<Rightarrow>
          let req = request_of r e argv expensive in (exec_run req (tu_child t), [req]))"

definition outcome_res :: "run_outcome \<Rightarrow> run_result res" where
  "outcome_res out = (case out of (_, Some err) \<Rightarrow> Inl err | (res, None) \<Rightarrow> Inr (the res))"

definition sys_run :: "registry \<Rightarrow> (nat \<Rightarrow> turn) \<Rightarrow> string \<Rightarrow> string list \<Rightarrow> system \<Rightarrow> run_result res \<times> system" where
  "sys_run r turns rid argv sy =
     (let t = turns (sy_turn sy) in
      case buffered_run r t (tu_context t) rid argv True of
        (out, reqs) \<Rightarrow> (outcome_res out, advance reqs sy))"

definition sys_scan :: "registry \<Rightarrow> (nat \<Rightarrow> turn) \<Rightarrow> string \<Rightarrow> string list \<Rightarrow> system \<Rightarrow> scan_run res \<times> system" where
  "sys_scan r turns rid argv sy =
     (let t = turns (sy_turn sy) in
      case admit r (tu_context t) rid argv (tu_slots t) of
        Inl (err, _) \<Rightarrow> (Inl err, advance [] sy)
      | Inr (e, _) \<Rightarrow>
          let req = request_of r e argv True in (scan_run_of req (tu_child t), advance [req] sy))"

text \<open>
  \<open>RunMetadata\<close>: the leader's run and its end come before the wait of the caller ends, unless
  the caller gave up.
\<close>

definition await :: "turn \<Rightarrow> string \<Rightarrow> nat \<Rightarrow> run_outcome \<Rightarrow> bool \<Rightarrow> coalescer \<Rightarrow>
    (run_result option \<times> observation \<times> go_error option) \<times> coalescer" where
  "await t key i out finishes m =
     (if tu_gave_up t then
        (case end_metadata key i True (tu_observed t) m of (ans, m') \<Rightarrow>
           (ans, if finishes then finish_call key i (fst out) (snd out) (tu_finished t) m' else m'))
      else end_metadata key i False (tu_observed t) (finish_call key i (fst out) (snd out) (tu_finished t) m))"

definition sys_metadata :: "registry \<Rightarrow> (nat \<Rightarrow> turn) \<Rightarrow> system metadata" where
  "sys_metadata r turns rid argv sy =
     (let t = turns (sy_turn sy); key = metadataKey rid argv in
      case begin_metadata r rid argv (tu_now t) (tu_seen t) (sy_meta sy) of
        (Refused err, m) \<Rightarrow> (Inl err, advance [] (sy\<lparr>sy_meta := m\<rparr>))
      | (Cached res obs, m) \<Rightarrow> (Inr (res, obs), advance [] (sy\<lparr>sy_meta := m\<rparr>))
      | (Waiting i leader, m) \<Rightarrow>
          (case (if leader then buffered_run r t (tu_shared t) rid argv False else (tu_other t, [])) of
             (out, reqs) \<Rightarrow>
               (case await t key i out leader m of
                  ((res, obs, err), m') \<Rightarrow>
                    ((case err of Some e \<Rightarrow> Inl e | None \<Rightarrow> Inr (the res, obs)),
                     advance reqs (sy\<lparr>sy_meta := m'\<rparr>)))))"

definition sys_services :: "registry \<Rightarrow> (nat \<Rightarrow> turn) \<Rightarrow> system services" where
  "sys_services r turns =
     \<lparr>sv_metadata = sys_metadata r turns, sv_run = sys_run r turns, sv_scan = sys_scan r turns\<rparr>"

text \<open>A buffered run is the registry's.\<close>

lemma buffered_run_registry:
  "fst (buffered_run r t cx rid argv expensive) =
   fst (registry_run r \<lparr>rn_run = (\<lambda>req. exec_run req (tu_child t)), rn_scan = scan\<rparr> cx now ms rid argv
          expensive None (tu_slots t) l)"
  by (auto simp: buffered_run_def registry_run_def execute_def Let_def split: sum.split prod.split)

section \<open>Operation\<close>

text \<open>
  The states of a server in operation: tool calls, and between them whatever other calls make
  of the coalescer.
\<close>

inductive operating :: "deps \<Rightarrow> (nat \<Rightarrow> turn) \<Rightarrow> (string \<Rightarrow> int option) \<Rightarrow> system world \<Rightarrow> bool"
  for d :: deps and turns :: "nat \<Rightarrow> turn" and pd :: "string \<Rightarrow> int option" where
  started: "operating d turns pd
     \<lparr>wo_cursors = snd (NewServer d), wo_log = l, wo_rest = boot_system (dp_registry d)\<rparr>"
| called: "operating d turns pd w \<Longrightarrow>
     operating d turns pd (snd (call_tool (fst (NewServer d)) (sys_services (dp_registry d) turns) pd t c w))"
| elsewhere: "operating d turns pd w \<Longrightarrow> operating d turns pd (w\<lparr>wo_rest := (wo_rest w)\<lparr>sy_meta := m\<rparr>\<rparr>)"

section \<open>Every request\<close>

definition inspection_heads :: "string list set" where
  "inspection_heads = {[CmdSnapshots, ''--json''], [CmdStats, ''--json''], [CmdLS, ''--json''], [CmdFind, ''--json'']}"

definition inspection :: "registry \<Rightarrow> run_request \<Rightarrow> bool" where
  "inspection r req \<longleftrightarrow>
     (\<exists>rid e argv expensive. map_of (rg_entries r) rid = Some e \<and> AssertArgvAllowed argv = Inr () \<and>
        take 2 argv \<in> inspection_heads \<and> req = request_of r e argv expensive)"

definition inspecting :: "registry \<Rightarrow> system \<Rightarrow> bool" where
  "inspecting r sy \<longleftrightarrow> list_all (inspection r) (sy_requests sy)"

lemma inspecting_advance [simp]: "inspecting r (advance reqs sy) \<longleftrightarrow> inspecting r sy \<and> list_all (inspection r) reqs"
  by (simp add: inspecting_def advance_def)

lemma inspecting_meta [simp]: "inspecting r (sy\<lparr>sy_meta := m\<rparr>) = inspecting r sy"
  by (simp add: inspecting_def)

lemma admitted_inspection:
  assumes "admit r cx rid argv s = Inr (e, s')" and "take 2 argv \<in> inspection_heads"
  shows "inspection r (request_of r e argv expensive)"
  using admit_Inr(1,2) [OF assms(1)] assms(2) unfolding inspection_def by blast

lemma buffered_inspection:
  assumes "buffered_run r t cx rid argv expensive = (out, reqs)" and "take 2 argv \<in> inspection_heads"
  shows "list_all (inspection r) reqs"
  using assms by (auto simp: buffered_run_def Let_def admitted_inspection split: sum.splits prod.splits)

lemma NewServer_registry: "dp_registry (fst (NewServer d)) = dp_registry d"
  by (simp add: NewServer_def Let_def)

interpretation sys: keeper "fst (NewServer d)" "sys_services (dp_registry d) turns" "inspecting (dp_registry d)"
  for d :: deps and turns :: "nat \<Rightarrow> turn"
proof
  fix rid argv sy
  assume head: "take 2 argv = [CmdSnapshots, ''--json'']" and sy: "inspecting (dp_registry d) sy"
  then have "take 2 argv \<in> inspection_heads" by (simp add: inspection_heads_def)
  then show "inspecting (dp_registry d) (snd (sv_metadata (sys_services (dp_registry d) turns) rid argv sy))"
    using sy by (auto simp: sys_services_def sys_metadata_def Let_def
        dest: buffered_inspection split: prod.split metadata_begin.split)
next
  fix rid argv sy
  assume "take 2 argv = [CmdStats, ''--json'']" and sy: "inspecting (dp_registry d) sy"
  then have "take 2 argv \<in> inspection_heads" by (simp add: inspection_heads_def)
  then show "inspecting (dp_registry d) (snd (sv_run (sys_services (dp_registry d) turns) rid argv sy))"
    using sy by (auto simp: sys_services_def sys_run_def Let_def dest: buffered_inspection split: prod.split)
next
  fix rid argv sy
  assume "take 2 argv \<in> {[CmdLS, ''--json''], [CmdFind, ''--json'']}" and sy: "inspecting (dp_registry d) sy"
  then have "take 2 argv \<in> inspection_heads" by (auto simp: inspection_heads_def)
  then show "inspecting (dp_registry d) (snd (sv_scan (sys_services (dp_registry d) turns) rid argv sy))"
    using sy by (auto simp: sys_services_def sys_scan_def Let_def admitted_inspection split: sum.split prod.split)
qed

lemma operating_inspecting: "operating d turns pd w \<Longrightarrow> inspecting (dp_registry d) (wo_rest w)"
proof (induction rule: operating.induct)
  case (started l)
  show ?case by (simp add: inspecting_def boot_system_def)
next
  case (called w t c)
  show ?case by (rule sys.call_keeps [OF called.IH])
qed simp

lemma inspection_sealed:
  assumes "inspection r req" and "NewRegistry fs cfg = Inr r" and "limits_ok (cf_limits cfg)"
  shows "\<exists>rid. sealed_request fs cfg rid (rq_argv req) req \<and> take 2 (rq_argv req) \<in> inspection_heads"
proof -
  obtain rid e argv expensive where e: "map_of (rg_entries r) rid = Some e" "AssertArgvAllowed argv = Inr ()"
    "take 2 argv \<in> inspection_heads" and req: "req = request_of r e argv expensive"
    using assms(1) unfolding inspection_def by blast
  note reg = NewRegistry_Inr [OF assms(2)]
  obtain rc where "rc \<in> set (cf_repositories cfg)" "rp_id rc = rid" "entry_ok fs (cf_limits cfg) rc e"
    using reg(4) [OF e(1)] by blast
  then have "sealed_request fs cfg rid argv req"
    using e(2) assms(3) reg(2) by (auto simp: req sealed_request_def request_of_def limits_ok_def minute_def)
  with e(3) show ?thesis by (auto simp: req request_of_def)
qed

text \<open>
  C1. The whole server. Start the command on any machine; if it serves, then whatever tools are
  called with whatever arguments, and whatever the machine and concurrent calls do meanwhile,
  every request that reaches the runner is sealed: it is for a repository of the validated
  configuration, in the environment built for that repository at boot, its argument vector
  begins with \<open>snapshots\<close>, \<open>stats\<close>, \<open>ls\<close> or \<open>find\<close> and passes \<open>AssertArgvAllowed\<close>, and its
  timeout and output limit are within the configured ranges.
\<close>

theorem server_sealed:
  assumes "run h version fl = Serving ws d" and "operating d turns pd w"
    and "req \<in> set (sy_requests (wo_rest w))"
  shows "\<exists>cfg rid.
    Load (ho_yaml_first h) (ho_yaml_second h) (ho_files h) (fl_config fl) = Inr cfg \<and>
    sealed_request (ho_files h) cfg rid (rq_argv req) req \<and> take 2 (rq_argv req) \<in> inspection_heads"
proof -
  obtain cfg where cfg: "Load (ho_yaml_first h) (ho_yaml_second h) (ho_files h) (fl_config fl) = Inr cfg"
    and reg: "NewRegistry (ho_files h) cfg = Inr (dp_registry d)"
    by (rule start_server_Serving [OF run_Serving [OF assms(1)]])
  have "inspection (dp_registry d) req"
    using operating_inspecting [OF assms(2)] assms(3) by (simp add: inspecting_def list_all_iff)
  from inspection_sealed [OF this reg Load_Inr(1) [OF cfg]] cfg show ?thesis by blast
qed

section \<open>A server in operation\<close>

definition sample_turn :: turn where
  "sample_turn =
     \<lparr>tu_context = background, tu_shared = background, tu_now = 0, tu_seen = 0, tu_finished = 0,
      tu_observed = 0, tu_gave_up = False, tu_slots = no_slots, tu_child = sample_process,
      tu_other = (None, None)\<rparr>"

definition get_request :: get_snapshot_in where
  "get_request = \<lparr>gi_repository = ''home'', gi_snapshot = ''deadbeef'', gi_host = [], gi_tags = [], gi_path = [],
     gi_after = [], gi_before = []\<rparr>"

lemma snapshots_allowed: "AssertArgvAllowed [CmdSnapshots, ''--json''] = Inr ()"
  using fixed_flags_mem
  by (intro AssertArgvAllowed_plain) (auto simp: allowed_subcommands_def)

lemma sample_metadata_request:
  assumes "map_of (rg_entries r) ''home'' = Some e" and "en_slots e = 1" and "rg_global r = 4"
    and "lm_cache_ttl (rg_limits r) = 0"
  shows "sy_requests (snd (sys_metadata r (\<lambda>_. sample_turn) ''home'' [CmdSnapshots, ''--json''] (boot_system r))) =
    [request_of r e [CmdSnapshots, ''--json''] False]"
proof -
  have "\<exists>s'. admit r background ''home'' [CmdSnapshots, ''--json''] no_slots = Inr (e, s')"
    using assms snapshots_allowed
    by (simp add: admit_def get_entry_def acquire_repo_def acquire_global_def no_slots_def background_def)
  then have run: "\<exists>out. buffered_run r sample_turn background ''home'' [CmdSnapshots, ''--json''] False =
      (out, [request_of r e [CmdSnapshots, ''--json''] False])"
    by (auto simp: buffered_run_def sample_turn_def Let_def)
  have "\<exists>m. begin_metadata r ''home'' [CmdSnapshots, ''--json''] 0 0 (sy_meta (boot_system r)) = (Waiting 0 True, m)"
    using assms snapshots_allowed
    by (simp add: begin_metadata_def get_entry_def cacheGet_def boot_system_def newMetadataCoalescer_def
        join_call_def Let_def)
  with run show ?thesis
    by (auto simp: sys_metadata_def Let_def sample_turn_def advance_def boot_system_def split: prod.split)
qed

lemma sample_get_rest:
  assumes "requireRepo d ''home'' = Inr e" and "hp_allowed (en_hosts e) = []"
  shows "wo_rest (snd (makeGetSnapshot d sv t get_request w)) =
    snd (sv_metadata sv ''home'' [CmdSnapshots, ''--json''] (wo_rest w))"
proof -
  let ?win = "\<lparr>tw_after = None, tw_before = None\<rparr>"
  have "selection_opts e ''deadbeef'' [] [] [] = Inr (no_snapshots_opts, [])"
    using assms(2) by (simp add: selection_opts_def no_snapshots_opts_def)
  moreover have "BuildSnapshotsArgv no_snapshots_opts = Inr [CmdSnapshots, ''--json'']"
    by (simp add: BuildSnapshotsArgv_def no_snapshots_opts_def)
  ultimately have rest: "snd (resolveVisibleSnapshot (sv_metadata sv) e ''home'' ''deadbeef'' [] [] [] ?win (wo_rest w)) =
      snd (sv_metadata sv ''home'' [CmdSnapshots, ''--json''] (wo_rest w))"
    by (simp add: resolveVisibleSnapshot_def visibleSnapshots_def fetch_snapshots_def split: prod.split sum.split)
  have "valid_snapshot_id ''deadbeef''"
    by (simp add: valid_snapshot_id_def runes_def rune_chunks_ascii is_hex_def byte_def Let_def)
  moreover have "parseTimeWindow [] [] = Inr ?win" by (simp add: parseTimeWindow_def parse_bound_def)
  ultimately have "wo_rest (snd (makeGetSnapshot d sv t get_request w)) =
      snd (resolveVisibleSnapshot (sv_metadata sv) e ''home'' ''deadbeef'' [] [] [] ?win (wo_rest w))"
    using assms(1)
    by (simp add: makeGetSnapshot_def Let_def get_request_def rest_same split: prod.split sum.split)
  with rest show ?thesis by simp
qed

theorem server_sealed_witness:
  "\<exists>ws d w req. run sample_host ''0.1.0-dev'' serve_flags = Serving ws d \<and>
     operating d (\<lambda>_. sample_turn) (\<lambda>_. None) w \<and> sy_requests (wo_rest w) = [req] \<and>
     sealed_request sample_fs booted_config ''home'' [CmdSnapshots, ''--json''] req"
proof -
  let ?load = "Load (ho_yaml_first sample_host) (ho_yaml_second sample_host) (ho_files sample_host) (fl_config serve_flags)"
  have load: "?load = Inr booted_config" by (simp add: sample_host_def serve_flags_def sample_load)
  have files: "ho_files sample_host = sample_fs" by (simp add: sample_host_def)
  obtain ws d where run: "run sample_host ''0.1.0-dev'' serve_flags = Serving ws d"
    using sample_serves by blast
  obtain cfg where "?load = Inr cfg" "NewRegistry (ho_files sample_host) cfg = Inr (dp_registry d)"
    by (rule start_server_Serving [OF run_Serving [OF run]])
  then have reg: "NewRegistry sample_fs booted_config = Inr (dp_registry d)" using load by (simp add: files)
  let ?r = "dp_registry d" and ?turns = "\<lambda>_. sample_turn"
  obtain e where e: "map_of (rg_entries ?r) ''home'' = Some e"
    using NewRegistry_Inr(5) [OF reg, of "''home''"]
    by (cases "map_of (rg_entries ?r) ''home''") (auto simp: booted_config_def sample_repository_def)
  have caps: "en_slots e = 1" "rg_global ?r = 4" "lm_cache_ttl (rg_limits ?r) = 0" "hp_allowed (en_hosts e) = []"
    using NewRegistry_Inr(2,3,4) [OF reg] e
    by (auto simp: entry_ok_def booted_config_def sample_config_def sample_repository_def applyLimitDefaults_def
        default_to_def)
  let ?w0 = "\<lparr>wo_cursors = snd (NewServer d), wo_log = None, wo_rest = boot_system ?r\<rparr>"
  let ?w = "snd (call_tool (fst (NewServer d)) (sys_services ?r ?turns) (\<lambda>_. None) sample_moment
    (CallGetSnapshot get_request) ?w0)"
  let ?req = "request_of ?r e [CmdSnapshots, ''--json''] False"
  have op: "operating d ?turns (\<lambda>_. None) ?w" by (intro operating.called operating.started)
  have repo: "requireRepo (fst (NewServer d)) ''home'' = Inr e"
    by (simp add: requireRepo_def get_entry_def NewServer_registry e)
  have reqs: "sy_requests (wo_rest ?w) = [?req]"
    using sample_metadata_request [OF e caps(1-3)]
    by (simp add: sample_get_rest [OF repo caps(4)]) (simp add: sys_services_def)
  then obtain rid where "sealed_request sample_fs booted_config rid (rq_argv ?req) ?req"
    using server_sealed [OF run op, of ?req] load by (auto simp: files)
  moreover from this have "rid = ''home''"
    by (auto simp: sealed_request_def booted_config_def sample_repository_def)
  ultimately have "sealed_request sample_fs booted_config ''home'' [CmdSnapshots, ''--json''] ?req"
    by (simp add: request_of_def)
  with run op reqs show ?thesis by blast
qed

end
