(* ===== verification/Supervision.thy ===== *)
theory Supervision
  imports Config Runner
begin

text \<open>
  The supervision of a started child in \<open>Run\<close> and \<open>RunScan\<close> of \<open>internal/restic/runner.go\<close>, with
  the signals of \<open>process_unix.go\<close>: the goroutine that watches the context, the graceful window,
  the forced end of the process group, and \<open>cmd.Wait\<close> with its \<open>WaitDelay\<close>. Times are in
  nanoseconds. The context of the run may end at any time - the caller's cancellation, an
  exceeded output cap, a consumer that stops - and ends at its deadline at the latest; the
  child may exit at any time or never. Of \<open>os/exec\<close> the documented behaviour is used:
  \<open>cmd.Cancel\<close> is called when the context ends during \<open>Wait\<close>, and \<open>Wait\<close> returns when the
  child has exited and its output is closed, or with \<open>ErrWaitDelay\<close> once \<open>WaitDelay\<close> has
  passed since the context ended or the child exited, whichever was first.
\<close>

section \<open>State\<close>

definition gracefulStopWindow :: int where "gracefulStopWindow = 2 * second"
definition forcedTerminationWindow :: int where "forcedTerminationWindow = 1 * second"
definition childWaitDelay :: int where "childWaitDelay = gracefulStopWindow + forcedTerminationWindow"

datatype signal = SIGTERM | SIGKILL

text \<open>The watcher: its first \<open>select\<close>, its second with the timer's deadline, and its end.\<close>

datatype watcher = Selecting | Grace int | WatcherDone

datatype waited = Blocked | Returned bool

record supervisor =
  su_now :: int
  su_context :: "int option"
  su_exit :: "int option"
  su_cancel_called :: bool
  su_watch :: watcher
  su_wait :: waited
  su_finished :: bool
  su_returned :: bool
  su_signals :: "(int \<times> signal) list"

definition start_child :: "int \<Rightarrow> supervisor" where
  "start_child now =
     \<lparr>su_now = now, su_context = None, su_exit = None, su_cancel_called = False, su_watch = Selecting,
      su_wait = Blocked, su_finished = False, su_returned = False, su_signals = []\<rparr>"

text \<open>A signal to the whole process group; the watcher ignores its error.\<close>

definition terminateProcessGroup :: "supervisor \<Rightarrow> supervisor" where
  "terminateProcessGroup s = s\<lparr>su_signals := su_signals s @ [(su_now s, SIGTERM)]\<rparr>"

definition killProcessGroup :: "supervisor \<Rightarrow> supervisor" where
  "killProcessGroup s = s\<lparr>su_signals := su_signals s @ [(su_now s, SIGKILL)]\<rparr>"

text \<open>The end of the run, when the watcher has ended: what outlived \<open>Wait\<close> is killed.\<close>

definition end_run :: "supervisor \<Rightarrow> supervisor" where
  "end_run s =
     (if su_wait s = Returned True then killProcessGroup (s\<lparr>su_returned := True\<rparr>)
      else s\<lparr>su_returned := True\<rparr>)"

lemma group_fields [simp]:
  "su_now (terminateProcessGroup s) = su_now s" "su_now (killProcessGroup s) = su_now s" "su_now (end_run s) = su_now s"
  "su_context (terminateProcessGroup s) = su_context s" "su_context (killProcessGroup s) = su_context s"
  "su_context (end_run s) = su_context s"
  "su_exit (terminateProcessGroup s) = su_exit s" "su_exit (killProcessGroup s) = su_exit s" "su_exit (end_run s) = su_exit s"
  "su_wait (terminateProcessGroup s) = su_wait s" "su_wait (killProcessGroup s) = su_wait s" "su_wait (end_run s) = su_wait s"
  "su_watch (terminateProcessGroup s) = su_watch s" "su_watch (killProcessGroup s) = su_watch s"
  "su_watch (end_run s) = su_watch s"
  "su_finished (terminateProcessGroup s) = su_finished s" "su_finished (killProcessGroup s) = su_finished s"
  "su_finished (end_run s) = su_finished s"
  "su_returned (terminateProcessGroup s) = su_returned s" "su_returned (killProcessGroup s) = su_returned s"
  "su_returned (end_run s)"
  "su_cancel_called (terminateProcessGroup s) = su_cancel_called s"
  "su_cancel_called (killProcessGroup s) = su_cancel_called s" "su_cancel_called (end_run s) = su_cancel_called s"
  "su_signals (terminateProcessGroup s) = su_signals s @ [(su_now s, SIGTERM)]"
  "su_signals (killProcessGroup s) = su_signals s @ [(su_now s, SIGKILL)]"
  "su_signals (end_run s) = (if su_wait s = Returned True then su_signals s @ [(su_now s, SIGKILL)] else su_signals s)"
  by (simp_all add: terminateProcessGroup_def killProcessGroup_def end_run_def)

text \<open>Since when \<open>WaitDelay\<close> counts.\<close>

definition delay_since :: "supervisor \<Rightarrow> int option" where
  "delay_since s =
     (case (su_context s, su_exit s) of
        (None, None) \<Rightarrow> None
      | (Some c, None) \<Rightarrow> Some c
      | (None, Some e) \<Rightarrow> Some e
      | (Some c, Some e) \<Rightarrow> Some (min c e))"

section \<open>Steps\<close>

text \<open>
  Time passes only while no step of the program is due, and not past the next timer: timers
  and goroutines are prompt. Nothing is assumed of the child.
\<close>

definition due :: "supervisor \<Rightarrow> bool" where
  "due s \<longleftrightarrow>
     (su_watch s = Selecting \<and> (su_context s \<noteq> None \<or> su_finished s)) \<or>
     (\<exists>t. su_watch s = Grace t \<and> (su_finished s \<or> t \<le> su_now s)) \<or>
     (su_wait s \<noteq> Blocked \<and> \<not> su_finished s) \<or>
     (su_finished s \<and> su_watch s = WatcherDone \<and> \<not> su_returned s)"

definition before_timers :: "int \<Rightarrow> supervisor \<Rightarrow> int \<Rightarrow> bool" where
  "before_timers deadline s t \<longleftrightarrow>
     (su_context s = None \<and> \<not> su_returned s \<longrightarrow> t \<le> deadline) \<and>
     (\<forall>x. su_watch s = Grace x \<longrightarrow> t \<le> x) \<and>
     (\<forall>x. su_wait s = Blocked \<and> delay_since s = Some x \<longrightarrow> t \<le> x + childWaitDelay)"

inductive supervise :: "int \<Rightarrow> supervisor \<Rightarrow> supervisor \<Rightarrow> bool" for deadline where
  context_ends: "su_context s = None \<Longrightarrow> \<not> su_returned s \<Longrightarrow>
    supervise deadline s (s\<lparr>su_context := Some (su_now s)\<rparr>)"
| child_exits: "su_exit s = None \<Longrightarrow> supervise deadline s (s\<lparr>su_exit := Some (su_now s)\<rparr>)"
| cancel_called: "su_context s \<noteq> None \<Longrightarrow> su_wait s = Blocked \<Longrightarrow> \<not> su_cancel_called s \<Longrightarrow>
    supervise deadline s (terminateProcessGroup (s\<lparr>su_cancel_called := True\<rparr>))"
| context_seen: "su_watch s = Selecting \<Longrightarrow> su_context s \<noteq> None \<Longrightarrow>
    supervise deadline s (terminateProcessGroup (s\<lparr>su_watch := Grace (su_now s + gracefulStopWindow)\<rparr>))"
| finished_seen: "su_watch s = Selecting \<Longrightarrow> su_finished s \<Longrightarrow>
    supervise deadline s (s\<lparr>su_watch := WatcherDone\<rparr>)"
| finished_in_time: "su_watch s = Grace t \<Longrightarrow> su_finished s \<Longrightarrow>
    supervise deadline s (s\<lparr>su_watch := WatcherDone\<rparr>)"
| window_over: "su_watch s = Grace t \<Longrightarrow> t \<le> su_now s \<Longrightarrow>
    supervise deadline s (killProcessGroup (s\<lparr>su_watch := WatcherDone\<rparr>))"
| wait_returns: "su_wait s = Blocked \<Longrightarrow> su_exit s \<noteq> None \<Longrightarrow>
    supervise deadline s (s\<lparr>su_wait := Returned False\<rparr>)"
| wait_delay: "su_wait s = Blocked \<Longrightarrow> delay_since s = Some t \<Longrightarrow> t + childWaitDelay \<le> su_now s \<Longrightarrow>
    supervise deadline s (s\<lparr>su_wait := Returned True\<rparr>)"
| close_finished: "su_wait s \<noteq> Blocked \<Longrightarrow> \<not> su_finished s \<Longrightarrow>
    supervise deadline s (s\<lparr>su_finished := True\<rparr>)"
| returns: "su_finished s \<Longrightarrow> su_watch s = WatcherDone \<Longrightarrow> \<not> su_returned s \<Longrightarrow>
    supervise deadline s (end_run s)"
| time_passes: "0 < dt \<Longrightarrow> \<not> due s \<Longrightarrow> before_timers deadline s (su_now s + dt) \<Longrightarrow>
    supervise deadline s (s\<lparr>su_now := su_now s + dt\<rparr>)"

inductive_cases superviseE: "supervise deadline s s'"

inductive supervised :: "int \<Rightarrow> int \<Rightarrow> supervisor \<Rightarrow> bool" for start timeout where
  begun: "supervised start timeout (start_child start)"
| step: "supervised start timeout s \<Longrightarrow> supervise (start + timeout) s s' \<Longrightarrow> supervised start timeout s'"

section \<open>Clocks\<close>

definition clock_ok :: "int \<Rightarrow> supervisor \<Rightarrow> bool" where
  "clock_ok deadline s \<longleftrightarrow>
     (\<forall>c. su_context s = Some c \<longrightarrow> c \<le> su_now s \<and> c \<le> deadline) \<and>
     (\<forall>e. su_exit s = Some e \<longrightarrow> e \<le> su_now s) \<and>
     (\<forall>c. su_watch s = Selecting \<and> su_context s = Some c \<longrightarrow> su_now s = c) \<and>
     (\<forall>t. su_watch s = Grace t \<longrightarrow> su_now s \<le> t \<and> (\<exists>c. su_context s = Some c \<and> t = c + gracefulStopWindow)) \<and>
     (su_finished s \<longrightarrow> su_wait s \<noteq> Blocked) \<and>
     (su_returned s \<longrightarrow> su_finished s \<and> su_watch s = WatcherDone) \<and>
     (\<not> su_returned s \<longrightarrow> (su_context s = None \<longrightarrow> su_now s \<le> deadline) \<and>
        (\<forall>x. delay_since s = Some x \<longrightarrow> su_now s \<le> x + childWaitDelay \<and> x \<le> deadline))"

lemma delays: "0 < gracefulStopWindow" "gracefulStopWindow < childWaitDelay"
  by (simp_all add: gracefulStopWindow_def childWaitDelay_def forcedTerminationWindow_def second_def)

lemma not_due_blocked: "\<not> due s \<Longrightarrow> \<not> su_returned s \<Longrightarrow> su_wait s = Blocked"
  by (cases "su_watch s"; cases "su_wait s") (auto simp: due_def)

lemma clock_step:
  assumes "clock_ok deadline s" and "supervise deadline s s'"
  shows "clock_ok deadline s'"
  using assms(2)
proof (cases rule: supervise.cases)
  case context_ends
  then show ?thesis using assms(1) delays
    by (auto simp: clock_ok_def delay_since_def split: option.splits)
next
  case child_exits
  then show ?thesis using assms(1) delays
    by (auto simp: clock_ok_def delay_since_def split: option.splits)
next
  case (time_passes dt)
  have "su_returned s \<or> su_wait s = Blocked" using not_due_blocked time_passes(3) by blast
  with time_passes show ?thesis using assms(1)
    by (auto simp: clock_ok_def delay_since_def before_timers_def due_def split: option.splits)
qed (use assms(1) delays in \<open>auto simp: clock_ok_def delay_since_def split: option.splits\<close>)

lemma supervised_clock:
  assumes "supervised start timeout s" and "0 \<le> timeout"
  shows "clock_ok (start + timeout) s"
  using assms(1)
proof (induction rule: supervised.induct)
  case begun
  show ?case using assms(2) by (simp add: clock_ok_def start_child_def delay_since_def)
next
  case (step s s')
  show ?case by (rule clock_step [OF step.IH step.hyps(2)])
qed

section \<open>Signals\<close>

definition signal_ok :: "supervisor \<Rightarrow> int \<times> signal \<Rightarrow> bool" where
  "signal_ok s x \<longleftrightarrow>
     (case snd x of
        SIGTERM \<Rightarrow> (case su_context s of None \<Rightarrow> False | Some c \<Rightarrow> c \<le> fst x)
      | SIGKILL \<Rightarrow>
          list_ex (\<lambda>y. snd y = SIGTERM \<and> fst y + gracefulStopWindow \<le> fst x) (su_signals s) \<or>
          (su_wait s = Returned True \<and>
           (case delay_since s of None \<Rightarrow> False | Some t \<Rightarrow> t + childWaitDelay \<le> fst x)))"

definition signals_ok :: "supervisor \<Rightarrow> bool" where
  "signals_ok s \<longleftrightarrow>
     list_all (signal_ok s) (su_signals s) \<and>
     (\<forall>t. su_watch s = Grace t \<longrightarrow> list_ex (\<lambda>y. y = (t - gracefulStopWindow, SIGTERM)) (su_signals s)) \<and>
     (su_wait s = Returned True \<longrightarrow> (\<exists>t. delay_since s = Some t \<and> t + childWaitDelay \<le> su_now s)) \<and>
     (su_returned s \<and> su_wait s = Returned True \<longrightarrow> list_ex (\<lambda>y. snd y = SIGKILL) (su_signals s))"

lemma signal_ok_mono:
  assumes "signal_ok s x" and "\<exists>more. su_signals s' = su_signals s @ more"
    and "\<forall>c. su_context s = Some c \<longrightarrow> su_context s' = Some c"
    and "su_wait s = Returned True \<longrightarrow> su_wait s' = Returned True \<and> delay_since s' = delay_since s"
  shows "signal_ok s' x"
  using assms by (auto simp: signal_ok_def split: signal.splits option.splits)

lemma delay_since_kept:
  assumes "clock_ok deadline s" and "delay_since s = Some t"
  shows "su_context s = None \<Longrightarrow> delay_since (s\<lparr>su_context := Some (su_now s)\<rparr>) = Some t"
    and "su_exit s = None \<Longrightarrow> delay_since (s\<lparr>su_exit := Some (su_now s)\<rparr>) = Some t"
  using assms by (auto simp: clock_ok_def delay_since_def split: option.splits)

lemma signals_step:
  assumes "signals_ok s" and "clock_ok deadline s" and "supervise deadline s s'"
  shows "signals_ok s'"
proof -
  have waited: "su_wait s = Returned True \<Longrightarrow> \<exists>t. delay_since s = Some t \<and> t + childWaitDelay \<le> su_now s"
    using assms(1) by (simp add: signals_ok_def)
  have same: "delay_since s' = delay_since s" if "su_wait s = Returned True"
    using waited [OF that] delay_since_kept [OF assms(2)] assms(3)
    by (auto elim!: superviseE simp: delay_since_def split: option.splits)
  have more: "\<exists>more. su_signals s' = su_signals s @ more"
    and "\<forall>c. su_context s = Some c \<longrightarrow> su_context s' = Some c"
    and "su_wait s = Returned True \<longrightarrow> su_wait s' = Returned True"
    using assms(3) by (auto elim!: superviseE)
  then have old: "list_all (signal_ok s') (su_signals s)"
    using assms(1) signal_ok_mono [of s _ s'] same by (auto simp: signals_ok_def list_all_iff)
  show ?thesis
    using assms(3)
  proof (cases rule: supervise.cases)
    case context_ends
    then show ?thesis using assms(1) old same by (auto simp: signals_ok_def)
  next
    case child_exits
    then show ?thesis using assms(1) old same by (auto simp: signals_ok_def)
  next
    case cancel_called
    then show ?thesis using assms(1,2) old
      by (auto simp: signals_ok_def signal_ok_def clock_ok_def)
  next
    case context_seen
    then show ?thesis using assms(1,2) old same
      by (auto simp: signals_ok_def signal_ok_def clock_ok_def)
  next
    case (window_over t)
    then have "(t - gracefulStopWindow, SIGTERM) \<in> set (su_signals s)"
      using assms(1) by (auto simp: signals_ok_def list_ex_iff)
    with window_over(3) have "list_ex (\<lambda>y. snd y = SIGTERM \<and> fst y + gracefulStopWindow \<le> su_now s) (su_signals s)"
      unfolding list_ex_iff by (intro bexI [of _ "(t - gracefulStopWindow, SIGTERM)"]) simp_all
    with window_over(1) have "signal_ok s' (su_now s, SIGKILL)" by (simp add: signal_ok_def)
    with window_over assms(1) old same show ?thesis by (simp add: signals_ok_def)
  next
    case (wait_delay t)
    then have "\<not> su_returned s" using assms(2) by (auto simp: clock_ok_def)
    with wait_delay show ?thesis using assms(1) old by (auto simp: signals_ok_def delay_since_def)
  next
    case returns
    then show ?thesis using assms(1) old same
      by (auto simp: signals_ok_def signal_ok_def)
  next
    case (time_passes dt)
    then show ?thesis using assms(1) old same by (auto simp: signals_ok_def)
  qed (use assms(1) old same in \<open>auto simp: signals_ok_def\<close>)
qed

lemma supervised_signals:
  assumes "supervised start timeout s" and "0 \<le> timeout"
  shows "signals_ok s"
  using assms(1)
proof (induction rule: supervised.induct)
  case begun
  show ?case by (simp add: signals_ok_def start_child_def)
next
  case (step s s')
  show ?case by (rule signals_step [OF step.IH supervised_clock [OF step.hyps(1) assms(2)] step.hyps(2)])
qed

section \<open>Progress\<close>

text \<open>How many steps other than the passing of time are left at most.\<close>

definition steps_left :: "supervisor \<Rightarrow> nat" where
  "steps_left s =
     of_bool (su_context s = None) + of_bool (su_exit s = None) + of_bool (\<not> su_cancel_called s) +
     (case su_watch s of Selecting \<Rightarrow> 2 | Grace _ \<Rightarrow> 1 | WatcherDone \<Rightarrow> 0) +
     of_bool (su_wait s = Blocked) + of_bool (\<not> su_finished s) + of_bool (\<not> su_returned s)"

lemma step_measure:
  assumes "supervise deadline s s'"
  shows "steps_left s' < steps_left s \<or> steps_left s' = steps_left s \<and> su_now s < su_now s'"
  using assms by (cases rule: supervise.cases) (simp_all add: steps_left_def)

text \<open>Nothing waits for ever: until the run returns there is a step, of the program or of time.\<close>

lemma step_exists:
  assumes "clock_ok deadline s" and "\<not> su_returned s"
  shows "\<exists>s'. supervise deadline s s'"
proof (cases "su_context s")
  case None
  then show ?thesis using context_ends assms(2) by blast
next
  case (Some c)
  show ?thesis
  proof (cases "due s")
    case True
    then show ?thesis
      using Some assms(2) context_seen finished_seen finished_in_time window_over close_finished returns
      unfolding due_def by blast
  next
    case False
    then have blocked: "su_wait s = Blocked" using assms(2) by (rule not_due_blocked)
    obtain x where x: "delay_since s = Some x" using Some by (cases "su_exit s") (auto simp: delay_since_def)
    show ?thesis
    proof (cases "x + childWaitDelay \<le> su_now s")
      case True
      then show ?thesis using wait_delay [of s x deadline] blocked x by blast
    next
      case before: False
      have "t \<noteq> su_now s" if "su_watch s = Grace t" for t
        using False that by (auto simp: due_def)
      then have "before_timers deadline s (su_now s + 1)"
        using assms(1) Some x before by (fastforce simp: before_timers_def clock_ok_def)
      then show ?thesis using time_passes [of 1 s deadline] False by auto
    qed
  qed
qed

section \<open>Properties\<close>

text \<open>
  C14. A run ends in bounded time. While it has not returned, at most its timeout and three
  seconds have passed since the child was started, whatever the child does, and there is a
  step; every step uses up one of at most eight steps of the program, the child or the context, or lets
  time pass: the run cannot go on for ever.
\<close>

theorem run_bounded:
  assumes "supervised start timeout s" and "0 \<le> timeout" and "\<not> su_returned s"
  shows "su_now s \<le> start + timeout + childWaitDelay \<and> (\<exists>s'. supervise (start + timeout) s s') \<and>
    (\<forall>s'. supervise (start + timeout) s s' \<longrightarrow>
       steps_left s' < steps_left s \<or> steps_left s' = steps_left s \<and> su_now s < su_now s')"
proof (intro conjI allI impI)
  note clock = supervised_clock [OF assms(1,2)]
  show "su_now s \<le> start + timeout + childWaitDelay"
  proof (cases "delay_since s")
    case None
    then have "su_context s = None" by (auto simp: delay_since_def split: option.splits)
    with clock assms(3) have "su_now s \<le> start + timeout" by (simp add: clock_ok_def)
    then show ?thesis using delays by simp
  next
    case (Some x)
    with clock assms(3) have "su_now s \<le> x + childWaitDelay" "x \<le> start + timeout"
      by (simp_all add: clock_ok_def)
    then show ?thesis by simp
  qed
  show "\<exists>s'. supervise (start + timeout) s s'" by (rule step_exists [OF clock assms(3)])
qed (rule step_measure)

text \<open>
  C40. The signals. The group is asked to stop only once the context has ended; it is killed only
  when at least the graceful window has passed since it was asked to stop, so that restic can
  remove its lock, or when \<open>Wait\<close> gave up on it after both windows. When the run has
  returned, its watcher has ended, and a group that \<open>Wait\<close> gave up on has been killed.
\<close>

theorem signals_graceful:
  assumes "supervised start timeout s" and "0 \<le> timeout"
  shows "list_all (signal_ok s) (su_signals s) \<and>
    (su_returned s \<longrightarrow> su_watch s = WatcherDone \<and>
       (su_wait s = Returned True \<longrightarrow> list_ex (\<lambda>y. snd y = SIGKILL) (su_signals s)))"
  using supervised_signals [OF assms] supervised_clock [OF assms]
  by (simp add: signals_ok_def clock_ok_def)

text \<open>A child that ends by itself, and one that has to be killed.\<close>

theorem signals_graceful_witness:
  "\<exists>s. supervised 0 (30 * second) s \<and> su_returned s \<and> su_signals s = [] \<and> list_all (signal_ok s) (su_signals s)"
proof -
  let ?d = "0 + 30 * second"
  let ?s1 = "(start_child 0)\<lparr>su_exit := Some 0\<rparr>"
  let ?s2 = "?s1\<lparr>su_wait := Returned False\<rparr>"
  let ?s3 = "?s2\<lparr>su_finished := True\<rparr>"
  let ?s4 = "?s3\<lparr>su_watch := WatcherDone\<rparr>"
  have "supervise ?d (start_child 0) ?s1"
    using child_exits [of "start_child 0" ?d] by (simp add: start_child_def)
  then have "supervised 0 (30 * second) ?s1" by (rule supervised.step [OF supervised.begun])
  moreover have "supervise ?d ?s1 ?s2"
    by (rule wait_returns) (simp_all add: start_child_def)
  ultimately have "supervised 0 (30 * second) ?s2" by (rule supervised.step)
  moreover have "supervise ?d ?s2 ?s3" by (rule close_finished) (simp_all add: start_child_def)
  ultimately have "supervised 0 (30 * second) ?s3" by (rule supervised.step)
  moreover have "supervise ?d ?s3 ?s4" by (rule finished_seen) (simp_all add: start_child_def)
  ultimately have "supervised 0 (30 * second) ?s4" by (rule supervised.step)
  moreover have "supervise ?d ?s4 (end_run ?s4)" by (rule returns) (simp_all add: start_child_def)
  ultimately have reach: "supervised 0 (30 * second) (end_run ?s4)" by (rule supervised.step)
  have "su_signals (end_run ?s4) = []" by (simp add: start_child_def)
  with reach signals_graceful [OF reach] show ?thesis by (auto simp: second_def)
qed

theorem run_bounded_witness:
  "\<exists>s. supervised 0 (30 * second) s \<and> su_now s = 33 * second \<and>
     su_signals s = [(30 * second, SIGTERM), (32 * second, SIGKILL)] \<and>
     su_now s \<le> 0 + 30 * second + childWaitDelay"
proof -
  note defs = start_child_def due_def before_timers_def delay_since_def gracefulStopWindow_def
    forcedTerminationWindow_def childWaitDelay_def second_def
  let ?d = "0 + 30 * second"
  let ?s1 = "(start_child 0)\<lparr>su_now := su_now (start_child 0) + 30 * second\<rparr>"
  let ?s2 = "?s1\<lparr>su_context := Some (su_now ?s1)\<rparr>"
  let ?s3 = "terminateProcessGroup (?s2\<lparr>su_watch := Grace (su_now ?s2 + gracefulStopWindow)\<rparr>)"
  let ?s4 = "?s3\<lparr>su_now := su_now ?s3 + 2 * second\<rparr>"
  let ?s5 = "killProcessGroup (?s4\<lparr>su_watch := WatcherDone\<rparr>)"
  let ?s6 = "?s5\<lparr>su_now := su_now ?s5 + 1 * second\<rparr>"
  have "supervise ?d (start_child 0) ?s1" by (rule time_passes) (simp_all add: defs)
  then have "supervised 0 (30 * second) ?s1" by (rule supervised.step [OF supervised.begun])
  moreover have "supervise ?d ?s1 ?s2" by (rule context_ends) (simp_all add: defs)
  ultimately have "supervised 0 (30 * second) ?s2" by (rule supervised.step)
  moreover have "supervise ?d ?s2 ?s3" by (rule context_seen) (simp_all add: defs)
  ultimately have "supervised 0 (30 * second) ?s3" by (rule supervised.step)
  moreover have "supervise ?d ?s3 ?s4" by (rule time_passes) (simp_all add: defs)
  ultimately have "supervised 0 (30 * second) ?s4" by (rule supervised.step)
  moreover have "supervise ?d ?s4 ?s5" by (rule window_over [of _ "32 * second"]) (simp_all add: defs)
  ultimately have "supervised 0 (30 * second) ?s5" by (rule supervised.step)
  moreover have "supervise ?d ?s5 ?s6" by (rule time_passes) (simp_all add: defs)
  ultimately have reach: "supervised 0 (30 * second) ?s6" by (rule supervised.step)
  have "\<not> su_returned ?s6" "0 \<le> 30 * second" by (simp_all add: defs)
  with reach run_bounded [OF reach] have "su_now ?s6 \<le> 0 + 30 * second + childWaitDelay" by blast
  with reach show ?thesis by (intro exI [of _ ?s6]) (simp add: start_child_def gracefulStopWindow_def)
qed

end
